(* ===== verification/Cni_Prelude.thy ===== *)
theory Cni_Prelude
  imports
    Main
    "HOL-Library.Word"
    "HOL-Library.Multiset"
    "HOL-Library.Char_ord"
    "HOL-Library.List_Lexorder"
    "HOL-Library.Product_Lexorder"
begin

text \<open>
  What every component shares: the Go string functions the program calls, on
  \<^typ>\<open>string\<close> as a list of bytes, with the lemmas the component proofs rest on; the
  error monad that stands for Go's \<open>if err != nil\<close> returns; and the named collections
  of simplification rules.

  A Go \<open>error\<close> is its message: \<open>Inl msg\<close>. \<open>fmt.Errorf("x: %w", err)\<close> is then a
  concatenation. Where the program tells errors apart by their type, the component
  declares a datatype of its own.

  \<open>slices.SortFunc\<close> promises a sorted permutation and nothing about the order of equal
  elements. The model uses the stable \<^const>\<open>sort_key\<close>; the lemma \<open>sort_key_perm\<close>
  below shows that the choice does not matter where no two elements compare equal.
\<close>

named_theorems go_simps \<open>unfolding of the small string and error helpers\<close>

type_synonym go_error = string

section \<open>Strings\<close>

text \<open>\<open>strings.Join\<close>.\<close>

fun join :: "string \<Rightarrow> string list \<Rightarrow> string" where
  "join sep [] = []"
| "join sep [x] = x"
| "join sep (x # y # xs) = x @ sep @ join sep (y # xs)"

text \<open>The inverse of \<^const>\<open>join\<close> for a separator of one byte: \<open>strings.Split\<close>.\<close>

fun split_on :: "char \<Rightarrow> string \<Rightarrow> string list" where
  "split_on c [] = [[]]"
| "split_on c (x # xs) =
     (if x = c then [] # split_on c xs
      else (case split_on c xs of [] \<Rightarrow> [[x]] | f # fs \<Rightarrow> (x # f) # fs))"

lemma split_on_not_Nil [simp]: "split_on c s \<noteq> []"
  by (induction s) (auto split: list.splits)

lemma split_on_none: "c \<notin> set s \<Longrightarrow> split_on c s = [s]"
  by (induction s) auto

lemma split_on_append_sep: "c \<notin> set a \<Longrightarrow> split_on c (a @ c # b) = a # split_on c b"
  by (induction a) auto

lemma split_on_join:
  "xs \<noteq> [] \<Longrightarrow> (\<And>x. x \<in> set xs \<Longrightarrow> c \<notin> set x) \<Longrightarrow> split_on c (join [c] xs) = xs"
proof (induction "[c]" xs rule: join.induct)
  case 1
  then show ?case by simp
next
  case (2 x)
  then show ?case by (simp add: split_on_none)
next
  case (3 x y xs)
  then show ?case by (simp add: split_on_append_sep)
qed

lemma join_inj:
  assumes "xs \<noteq> []" "ys \<noteq> []"
    and "\<And>x. x \<in> set xs \<Longrightarrow> c \<notin> set x" "\<And>y. y \<in> set ys \<Longrightarrow> c \<notin> set y"
  shows "join [c] xs = join [c] ys \<longleftrightarrow> xs = ys"
  using split_on_join [of xs c] split_on_join [of ys c] assms by metis

lemma set_join_subset: "set (join sep xs) \<subseteq> set sep \<union> (\<Union>x \<in> set xs. set x)"
  by (induction sep xs rule: join.induct) auto

lemma length_join:
  "xs \<noteq> [] \<Longrightarrow> length (join sep xs) = sum_list (map length xs) + (length xs - 1) * length sep"
  by (induction sep xs rule: join.induct) auto

lemma join_append:
  "xs \<noteq> [] \<Longrightarrow> ys \<noteq> [] \<Longrightarrow> join sep (xs @ ys) = join sep xs @ sep @ join sep ys"
proof (induction sep xs rule: join.induct)
  case (2 sep x)
  then show ?case by (cases ys) auto
qed auto

lemma join_Cons: "xs \<noteq> [] \<Longrightarrow> join sep (x # xs) = x @ sep @ join sep xs"
  by (cases xs) auto

lemma join_eq_Nil: "(\<And>x. x \<in> set xs \<Longrightarrow> x \<noteq> []) \<Longrightarrow> join sep xs = [] \<longleftrightarrow> xs = []"
  by (induction sep xs rule: join.induct) auto

lemma split_on_append:
  "split_on c (a @ c # b) = split_on c a @ split_on c b"
proof (induction a)
  case (Cons x a)
  then show ?case by (cases "split_on c a") (auto split: list.splits)
qed simp

text \<open>
  Numbers in a base from 2 to 16 with the digits of \<open>strconv\<close>: \<open>strconv.Itoa\<close> and
  \<open>%d\<close> are base 10, the fields of an IPv6 address base 16.
\<close>

definition hexdigits :: string where
  "hexdigits = ''0123456789abcdef''"

definition hexdigit :: "nat \<Rightarrow> char" where
  "hexdigit n = hexdigits ! n"

definition unhexdigit :: "char \<Rightarrow> nat" where
  "unhexdigit c = length (takeWhile (\<lambda>d. d \<noteq> c) hexdigits)"

function radix :: "nat \<Rightarrow> nat \<Rightarrow> string" where
  "radix b n = (if b < 2 \<or> n < b then [hexdigit n] else radix b (n div b) @ [hexdigit (n mod b)])"
  by pat_completeness auto
termination
  by (relation "measure snd") (auto simp: not_less intro!: div_less_dividend)

declare radix.simps [simp del]

lemma length_takeWhile_nth:
  "distinct xs \<Longrightarrow> n < length xs \<Longrightarrow> length (takeWhile (\<lambda>d. d \<noteq> xs ! n) xs) = n"
proof (induction xs arbitrary: n)
  case (Cons x xs)
  then show ?case by (cases n) auto
qed simp

lemma hexdigits_facts [simp]: "distinct hexdigits" "length hexdigits = 16"
  by (simp_all add: hexdigits_def)

lemma hexdigit_unhex: "n < 16 \<Longrightarrow> unhexdigit (hexdigit n) = n"
  by (simp add: unhexdigit_def hexdigit_def length_takeWhile_nth)

lemma hexdigit_in: "n < b \<Longrightarrow> b \<le> 16 \<Longrightarrow> hexdigit n \<in> set (take b hexdigits)"
  by (auto simp: hexdigit_def in_set_conv_nth intro!: exI [of _ n])

lemma radix_value:
  assumes "2 \<le> b" "b \<le> 16"
  shows "foldl (\<lambda>acc c. acc * b + unhexdigit c) 0 (radix b n) = n"
  using assms
proof (induction b n rule: radix.induct)
  case (1 b n)
  show ?case
  proof (cases "n < b")
    case True
    with 1 show ?thesis by (subst radix.simps) (simp add: hexdigit_unhex)
  next
    case False
    moreover have "n mod b < 16" using mod_less_divisor [of b n] "1.prems" by linarith
    ultimately show ?thesis using 1 by (subst radix.simps) (simp add: hexdigit_unhex)
  qed
qed

lemma radix_inj: "2 \<le> b \<Longrightarrow> b \<le> 16 \<Longrightarrow> radix b m = radix b n \<longleftrightarrow> m = n"
  using radix_value by metis

lemma radix_not_Nil [simp]: "radix b n \<noteq> []"
  by (subst radix.simps) simp

lemma radix_set:
  assumes "2 \<le> b" "b \<le> 16"
  shows "set (radix b n) \<subseteq> set (take b hexdigits)"
  using assms
proof (induction b n rule: radix.induct)
  case (1 b n)
  then have "n mod b < b" by simp
  with 1 show ?case by (subst radix.simps) (simp add: hexdigit_in)
qed

text \<open>\<open>strconv.Itoa\<close> and \<open>%d\<close>.\<close>

definition itoa :: "nat \<Rightarrow> string" where
  "itoa n = radix 10 n"

definition show_int :: "int \<Rightarrow> string" where
  "show_int i = (if i < 0 then ''-'' @ itoa (nat (- i)) else itoa (nat i))"

lemma itoa_inj [simp]: "itoa m = itoa n \<longleftrightarrow> m = n"
  by (simp add: itoa_def radix_inj)

lemma itoa_not_Nil [simp]: "itoa n \<noteq> []"
  by (simp add: itoa_def)

lemmas itoa_eval = itoa_def radix.simps hexdigit_def hexdigits_def

lemma itoa_digits: "set (itoa n) \<subseteq> set ''0123456789''"
  using radix_set [of 10 n] by (simp add: itoa_def hexdigits_def)

lemma itoa_no: "c \<notin> set ''0123456789'' \<Longrightarrow> c \<notin> set (itoa n)"
  using itoa_digits by blast

text \<open>\<open>strings.ToLower\<close> on ASCII.\<close>

definition lower_char :: "char \<Rightarrow> char" where
  "lower_char c =
     (let n = of_char c :: nat in if 65 \<le> n \<and> n \<le> 90 then char_of (n + 32) else c)"

definition ToLower :: "string \<Rightarrow> string" where
  "ToLower s = map lower_char s"

text \<open>\<open>strings.TrimSpace\<close>, on the ASCII white space.\<close>

definition is_space :: "char \<Rightarrow> bool" where
  "is_space c \<longleftrightarrow> (let n = of_char c :: nat in n = 32 \<or> (9 \<le> n \<and> n \<le> 13))"

definition TrimSpace :: "string \<Rightarrow> string" where
  "TrimSpace s = rev (dropWhile is_space (rev (dropWhile is_space s)))"

lemma TrimSpace_blank: "TrimSpace '' '' = []"
  by (simp add: TrimSpace_def is_space_def)

lemma dropWhile_hd: "s \<noteq> [] \<Longrightarrow> \<not> P (hd s) \<Longrightarrow> dropWhile P s = s"
  by (cases s) auto

lemma TrimSpace_id: "s \<noteq> [] \<Longrightarrow> \<not> is_space (hd s) \<Longrightarrow> \<not> is_space (last s) \<Longrightarrow> TrimSpace s = s"
  by (simp add: TrimSpace_def dropWhile_hd hd_rev)

lemma TrimSpace_right:
  "s \<noteq> [] \<Longrightarrow> \<not> is_space (hd s) \<Longrightarrow> \<not> is_space (last s) \<Longrightarrow> TrimSpace (s @ '' '') = s"
  by (simp add: TrimSpace_def dropWhile_hd hd_rev is_space_def)

lemma TrimSpace_left:
  "s \<noteq> [] \<Longrightarrow> \<not> is_space (hd s) \<Longrightarrow> \<not> is_space (last s) \<Longrightarrow> TrimSpace (CHR '' '' # s) = s"
  using TrimSpace_id [of s] by (simp add: TrimSpace_def is_space_def)

text \<open>\<open>strings.HasPrefix\<close>.\<close>

definition HasPrefix :: "string \<Rightarrow> string \<Rightarrow> bool" where
  "HasPrefix s pre \<longleftrightarrow> take (length pre) s = pre"

lemma HasPrefix_iff: "HasPrefix s pre \<longleftrightarrow> (\<exists>t. s = pre @ t)"
  by (metis HasPrefix_def append_eq_conv_conj)

lemma HasPrefix_Cons [simp]:
  "HasPrefix s []" "HasPrefix [] (c # p) = False" "HasPrefix (d # s) (c # p) \<longleftrightarrow> d = c \<and> HasPrefix s p"
  by (auto simp: HasPrefix_def)

lemma HasPrefix_append [simp]: "HasPrefix (a @ b) a" "HasPrefix (a @ x) (a @ y) \<longleftrightarrow> HasPrefix x y"
  by (auto simp: HasPrefix_iff)

text \<open>
  \<open>strconv.Quote\<close>, which is what \<open>%q\<close> writes, byte by byte. The bytes from 128 on are
  written as Go writes a byte that is not part of a valid UTF-8 sequence; the strings
  that reach it here are API object names and prefixes, which are ASCII.
\<close>

definition quote_char :: "char \<Rightarrow> string" where
  "quote_char c =
     (let n = of_char c :: nat in
      if n = 34 then [char_of (92::nat), c]
      else if n = 92 then [c, c]
      else if n = 7 then [char_of (92::nat), CHR ''a'']
      else if n = 8 then [char_of (92::nat), CHR ''b'']
      else if n = 9 then [char_of (92::nat), CHR ''t'']
      else if n = 10 then [char_of (92::nat), CHR ''n'']
      else if n = 11 then [char_of (92::nat), CHR ''v'']
      else if n = 12 then [char_of (92::nat), CHR ''f'']
      else if n = 13 then [char_of (92::nat), CHR ''r'']
      else if n < 32 \<or> 127 \<le> n then
        [char_of (92::nat), CHR ''x'', hexdigit (n div 16), hexdigit (n mod 16)]
      else [c])"

definition Quote :: "string \<Rightarrow> string" where
  "Quote s = CHR 0x22 # concat (map quote_char s) @ [CHR 0x22]"

text \<open>The control bytes the renderers write, as one-byte strings.\<close>

definition NL :: string where "NL = [CHR 0x0A]"
definition TAB :: string where "TAB = [CHR 0x09]"
definition QUOT :: string where "QUOT = [CHR 0x22]"

section \<open>Errors\<close>

fun bind_err :: "'e + 'a \<Rightarrow> ('a \<Rightarrow> 'e + 'b) \<Rightarrow> 'e + 'b" where
  "bind_err (Inl e) f = Inl e"
| "bind_err (Inr a) f = f a"

lemma bind_err_Inr: "bind_err m f = Inr b \<longleftrightarrow> (\<exists>a. m = Inr a \<and> f a = Inr b)"
  by (cases m) auto

lemma bind_err_Inl: "bind_err m f = Inl e \<longleftrightarrow> m = Inl e \<or> (\<exists>a. m = Inr a \<and> f a = Inl e)"
  by (cases m) auto

fun map_err :: "('e \<Rightarrow> 'f) \<Rightarrow> 'e + 'a \<Rightarrow> 'f + 'a" where
  "map_err f (Inl e) = Inl (f e)"
| "map_err f (Inr a) = Inr a"

lemma map_err_Inr [simp]: "map_err f m = Inr a \<longleftrightarrow> m = Inr a"
  by (cases m) auto

lemma map_err_Inl: "map_err f m = Inl e \<longleftrightarrow> (\<exists>e'. m = Inl e' \<and> e = f e')"
  by (cases m) auto

lemma bind_err_Inr_right: "bind_err m Inr = m"
  by (cases m) auto

lemma isl_bind_err: "isl (bind_err m f) \<longleftrightarrow> isl m \<or> isl (f (projr m))"
  by (cases m) auto

lemma isl_map_err [simp]: "isl (map_err f m) = isl m" "projr (map_err f (Inr a)) = a"
  by (cases m) auto

text \<open>A loop that appends a result per element and returns on the first error.\<close>

fun collect_err :: "('a \<Rightarrow> 'e + 'b) \<Rightarrow> 'a list \<Rightarrow> 'e + 'b list" where
  "collect_err f [] = Inr []"
| "collect_err f (x # xs) =
     bind_err (f x) (\<lambda>y. bind_err (collect_err f xs) (\<lambda>ys. Inr (y # ys)))"

lemma collect_err_Inr:
  "collect_err f xs = Inr ys \<longleftrightarrow> list_all2 (\<lambda>x y. f x = Inr y) xs ys"
proof (induction xs arbitrary: ys)
  case (Cons x xs)
  then show ?case by (cases ys) (auto simp: bind_err_Inr)
qed auto

lemma isl_collect_err: "isl (collect_err f xs) \<longleftrightarrow> list_ex (\<lambda>x. isl (f x)) xs"
  by (induction xs) (auto simp: isl_bind_err)

lemma collect_err_Inl: "collect_err f xs = Inl e \<Longrightarrow> \<exists>x \<in> set xs. f x = Inl e"
  by (induction xs) (auto simp: bind_err_Inl)

lemma collect_err_map: "(\<And>x. x \<in> set xs \<Longrightarrow> f x = Inr (g x)) \<Longrightarrow> collect_err f xs = Inr (map g xs)"
  by (induction xs) auto

lemma collect_err_ex:
  "collect_err f xs = Inr ys \<Longrightarrow> (\<exists>y \<in> set ys. P y) \<longleftrightarrow> (\<exists>x \<in> set xs. \<exists>y. f x = Inr y \<and> P y)"
  by (induction xs arbitrary: ys) (auto simp: bind_err_Inr)

text \<open>A loop that threads a state and returns on the first error.\<close>

fun fold_err :: "('a \<Rightarrow> 's \<Rightarrow> 'e + 's) \<Rightarrow> 'a list \<Rightarrow> 's \<Rightarrow> 'e + 's" where
  "fold_err f [] s = Inr s"
| "fold_err f (x # xs) s = bind_err (f x s) (fold_err f xs)"

lemma fold_err_Nil: "fold_err f [] = Inr"
  by (rule ext) simp

lemma fold_err_two: "fold_err f [x, y] s = bind_err (f x s) (f y)"
  by (cases "f x s") (simp_all add: fold_err_Nil bind_err_Inr_right)

lemma fold_err_invariant:
  assumes "fold_err f xs s = Inr t" and "P s"
    and "\<And>x s s'. x \<in> set xs \<Longrightarrow> P s \<Longrightarrow> f x s = Inr s' \<Longrightarrow> P s'"
  shows "P t"
  using assms by (induction xs arbitrary: s) (auto simp: bind_err_Inr)

lemma fold_err_append:
  "fold_err f (xs @ ys) s = bind_err (fold_err f xs s) (fold_err f ys)"
proof (induction xs arbitrary: s)
  case (Cons x xs)
  then show ?case by (cases "f x s") auto
qed simp

section \<open>Sorting\<close>

text \<open>
  Two lists with the same elements sort to the same list when no two different elements
  have the same key: what is rendered does not depend on the order of a listing.
\<close>

lemma sort_key_perm:
  assumes "mset xs = mset ys" and "inj_on f (set xs)"
  shows "sort_key f xs = sort_key f ys"
proof (rule properties_for_sort_key)
  show "mset (sort_key f ys) = mset xs" using assms(1) by simp
  show "sorted (map f (sort_key f ys))" by simp
  fix k assume "k \<in> set (sort_key f ys)"
  then have k: "k \<in> set xs" using assms(1) by (metis set_mset_mset set_sort)
  have *: "filter (\<lambda>x. f k = f x) zs = replicate (count (mset zs) k) k"
    if "set zs = set xs" for zs
  proof -
    have "filter (\<lambda>x. f k = f x) zs = filter (\<lambda>x. k = x) zs"
      using that k assms(2) by (intro filter_cong) (auto dest: inj_onD)
    also have "filter (\<lambda>x. k = x) zs = replicate (count (mset zs) k) k"
      by (induction zs) auto
    finally show ?thesis .
  qed
  have "set (sort_key f ys) = set xs" using assms(1) by (metis set_mset_mset set_sort)
  then show "filter (\<lambda>x. f k = f x) (sort_key f ys) = filter (\<lambda>x. f k = f x) xs"
    using * assms(1) by simp
qed

lemma sort_key_same_set:
  assumes "set xs = set ys" "distinct xs" "distinct ys" "inj_on f (set xs)"
  shows "sort_key f xs = sort_key f ys"
  using assms by (intro sort_key_perm) (simp_all add: set_eq_iff_mset_eq_distinct)

lemma distinct_remdups_adj_sorted:
  "sorted xs \<Longrightarrow> distinct (remdups_adj xs)"
  by (induction xs rule: remdups_adj.induct) (auto simp: order_antisym)

lemma remdups_adj_sort_same_set:
  fixes xs ys :: "'a::linorder list"
  assumes "set xs = set ys"
  shows "remdups_adj (sort xs) = remdups_adj (sort ys)"
proof -
  have "remdups_adj (sort zs) = sorted_list_of_set (set zs)" for zs :: "'a list"
    by (rule sorted_distinct_set_unique)
      (simp_all add: distinct_remdups_adj_sorted)
  then show ?thesis using assms by simp
qed

section \<open>Steps that may fail on a state\<close>

text \<open>
  A method that reads and writes its receiver, may return an error and returns a value:
  \<open>st_bind\<close> is one statement after another, \<open>st_each\<close> a loop over a slice that collects what
  each element gives, \<open>st_lift\<close> a call that may fail and touches no state.
\<close>

definition st_return :: "'a \<Rightarrow> 's \<Rightarrow> 'e + 'a \<times> 's" where
  "st_return x s = Inr (x, s)"

definition st_bind :: "('s \<Rightarrow> 'e + 'a \<times> 's) \<Rightarrow> ('a \<Rightarrow> 's \<Rightarrow> 'e + 'b \<times> 's) \<Rightarrow> 's \<Rightarrow> 'e + 'b \<times> 's" where
  "st_bind m f s = bind_err (m s) (\<lambda>(x, s'). f x s')"

definition st_lift :: "'e + 'a \<Rightarrow> 's \<Rightarrow> 'e + 'a \<times> 's" where
  "st_lift m s = bind_err m (\<lambda>x. Inr (x, s))"

fun st_each :: "('a \<Rightarrow> 's \<Rightarrow> 'e + 'b \<times> 's) \<Rightarrow> 'a list \<Rightarrow> 's \<Rightarrow> 'e + 'b list \<times> 's" where
  "st_each f [] = st_return []"
| "st_each f (x # xs) = st_bind (f x) (\<lambda>y. st_bind (st_each f xs) (\<lambda>ys. st_return (y # ys)))"

lemma st_bind_Inr:
  "st_bind m f s = Inr (y, s') \<longleftrightarrow> (\<exists>x s1. m s = Inr (x, s1) \<and> f x s1 = Inr (y, s'))"
  by (auto simp: st_bind_def bind_err_Inr)

lemma st_lift_Inr: "st_lift m s = Inr (y, s') \<longleftrightarrow> m = Inr y \<and> s' = s"
  by (auto simp: st_lift_def bind_err_Inr)

lemma st_return_Inr: "st_return x s = Inr (y, s') \<longleftrightarrow> y = x \<and> s' = s"
  by (auto simp: st_return_def)

lemmas st_Inr = st_bind_Inr st_lift_Inr st_return_Inr

end
