(* ===== verification/Go_Memory.thy ===== *)
theory Go_Memory
  imports Cni_Prelude
begin

text \<open>
  Memory, where it matters who shares it. A heap is a list of cells and an address a position in
  it, so that allocating is appending; a cell is an array, and what a pointer points at is an
  element of one. Copying in the manner of Go's generated \<open>DeepCopyInto\<close> is a function on a value and
  the heap; the locale \<open>copier\<close> is what it promises, and is closed under what the
  generated code is made of: arrays, pointers, and structs of several parts.
\<close>

section \<open>Pointers, slices and loops\<close>

record go_slice =
  sl_at :: nat
  sl_off :: nat
  sl_len :: nat

text \<open>A pointer to an element of an array; the elements of a slice. No pointer and no slice is \<open>nil\<close>.\<close>

type_synonym go_ptr = "nat \<times> nat"

definition slice_elems :: "('x \<Rightarrow> 'v list) \<Rightarrow> 'x list \<Rightarrow> go_slice \<Rightarrow> 'v list" where
  "slice_elems arr H sl = take (sl_len sl) (drop (sl_off sl) (arr (H ! sl_at sl)))"

definition deref :: "('x \<Rightarrow> 'v list) \<Rightarrow> 'x list \<Rightarrow> go_ptr \<Rightarrow> 'v" where
  "deref arr H p = arr (H ! fst p) ! snd p"

text \<open>
  \<open>for i := range *in { (*in)[i].DeepCopyInto(&(*out)[i]) }\<close>, where \<open>*out\<close> is the array at \<open>b\<close>;
  \<open>arr\<close> and \<open>cell\<close> read and make an array of the element's type.
\<close>

fun copy_loop ::
  "('v \<Rightarrow> 'x list \<Rightarrow> 'v \<times> 'x list) \<Rightarrow> ('x \<Rightarrow> 'v list) \<Rightarrow> ('v list \<Rightarrow> 'x) \<Rightarrow> nat \<Rightarrow> nat \<Rightarrow> 'v list \<Rightarrow> 'x list \<Rightarrow> 'x list" where
  "copy_loop f arr cell b i [] H = H"
| "copy_loop f arr cell b i (x # xs) H =
     (let (y, H1) = f x H
      in copy_loop f arr cell b (Suc i) xs (H1[b := cell ((arr (H1 ! b))[i := y])]))"

text \<open>A field that is a slice of structs: \<open>make\<close> and the loop, unless it is \<open>nil\<close>.\<close>

definition copy_slice ::
  "('v \<Rightarrow> 'x list \<Rightarrow> 'v \<times> 'x list) \<Rightarrow> ('x \<Rightarrow> 'v list) \<Rightarrow> ('v list \<Rightarrow> 'x) \<Rightarrow> 'v \<Rightarrow> go_slice option \<Rightarrow> 'x list \<Rightarrow>
    go_slice option \<times> 'x list" where
  "copy_slice f arr cell zero s H =
     (case s of
        None \<Rightarrow> (None, H)
      | Some sl \<Rightarrow>
          (let xs = slice_elems arr H sl; b = length H
           in (Some \<lparr>sl_at = b, sl_off = 0, sl_len = sl_len sl\<rparr>,
               copy_loop f arr cell b 0 xs (H @ [cell (replicate (sl_len sl) zero)]))))"

text \<open>A field that is a pointer, and \<open>DeepCopy\<close>: \<open>new\<close> and the copy into it, unless it is \<open>nil\<close>.\<close>

definition copy_ptr ::
  "('v \<Rightarrow> 'x list \<Rightarrow> 'v \<times> 'x list) \<Rightarrow> ('x \<Rightarrow> 'v list) \<Rightarrow> ('v list \<Rightarrow> 'x) \<Rightarrow> 'v \<Rightarrow> go_ptr option \<Rightarrow> 'x list \<Rightarrow>
    go_ptr option \<times> 'x list" where
  "copy_ptr f arr cell zero p H =
     (case p of
        None \<Rightarrow> (None, H)
      | Some q \<Rightarrow>
          (Some (length H, 0), copy_loop f arr cell (length H) 0 [deref arr H q] (H @ [cell [zero]])))"

text \<open>A copy of a value with no pointers in it, which is what \<open>copy\<close> and assignment do.\<close>

definition copy_plain :: "'v \<Rightarrow> 'x list \<Rightarrow> 'v \<times> 'x list" where
  "copy_plain v H = (v, H)"

section \<open>The contract\<close>

text \<open>
  \<open>agree S H H'\<close>: the cells of \<open>S\<close> are in \<open>H'\<close> what they are in \<open>H\<close>. A \<open>view\<close> of a type is the cells a
  value of it reaches, what it says, and that its pointers point at something. What it says depends on
  the cells it reaches only; a copy says the same, reaches none of the cells there were, and has
  changed none of them.
\<close>

definition agree :: "nat set \<Rightarrow> 'x list \<Rightarrow> 'x list \<Rightarrow> bool" where
  "agree S H H' \<longleftrightarrow> (\<forall>i \<in> S. i < length H' \<and> H' ! i = H ! i)"

text \<open>From \<open>H\<close> to \<open>H'\<close>, cells of \<open>W\<close> have been written and new ones allocated, and no more.\<close>

definition only_writes :: "nat set \<Rightarrow> 'x list \<Rightarrow> 'x list \<Rightarrow> bool" where
  "only_writes W H H' \<longleftrightarrow> length H \<le> length H' \<and> agree ({..<length H} - W) H H'"

lemma agree_mono: "agree S H H' \<Longrightarrow> T \<subseteq> S \<Longrightarrow> agree T H H'"
  by (auto simp: agree_def)

lemma agree_trans: "agree S H H1 \<Longrightarrow> agree S H1 H2 \<Longrightarrow> agree S H H2"
  by (simp add: agree_def)

lemma agree_append [simp]: "S \<subseteq> {..<length H} \<Longrightarrow> agree S H (H @ X)"
  by (auto simp: agree_def nth_append)

lemma agree_upd: "S \<subseteq> {..<length H} \<Longrightarrow> b \<notin> S \<Longrightarrow> agree S H (H[b := x])"
  unfolding agree_def by (metis length_list_update lessThan_iff nth_list_update_neq subsetD)

record ('v, 'x, 't) view =
  reach :: "'x list \<Rightarrow> 'v \<Rightarrow> nat set"
  reads :: "'x list \<Rightarrow> 'v \<Rightarrow> 't"
  valid :: "'x list \<Rightarrow> 'v \<Rightarrow> bool"

locale copier =
  fixes copy :: "'v \<Rightarrow> 'x list \<Rightarrow> 'v \<times> 'x list" and V :: "('v, 'x, 't) view"
  assumes bounded: "valid V H v \<Longrightarrow> reach V H v \<subseteq> {..<length H}"
    and local: "valid V H v \<Longrightarrow> agree (reach V H v) H H' \<Longrightarrow>
      valid V H' v \<and> reach V H' v = reach V H v \<and> reads V H' v = reads V H v"
    and copies: "valid V H v \<Longrightarrow> copy v H = (v', H') \<Longrightarrow>
      agree {..<length H} H H' \<and> valid V H' v' \<and> reads V H' v' = reads V H v \<and>
      reach V H' v' \<subseteq> {length H..<length H'}"
begin

lemma grows: "valid V H v \<Longrightarrow> copy v H = (v', H') \<Longrightarrow> length H \<le> length H'"
  using copies [of H v v' H'] by (cases "length H") (auto simp: agree_def lessThan_Suc)

lemma still:
  assumes "valid V H v" "agree {..<length H} H H'"
  shows "valid V H' v" "reach V H' v = reach V H v" "reads V H' v = reads V H v"
  using local [OF assms(1) agree_mono [OF assms(2) bounded [OF assms(1)]]] by blast+

text \<open>
  Whatever is written where a value does not reach, it says the same. So what is written where a
  copy reaches changes nothing there was before, and what is written where the original reaches
  does not change the copy.
\<close>

lemma unaffected:
  assumes "valid V H v" "only_writes W H H'" "reach V H v \<inter> W = {}"
  shows "valid V H' v \<and> reach V H' v = reach V H v \<and> reads V H' v = reads V H v"
  using assms bounded [OF assms(1)] by (intro local) (auto simp: only_writes_def agree_def)

lemma old_unaffected:
  assumes r: "valid V H r" and a: "agree {..<length H} H H'" "length H \<le> length H'"
    and w: "only_writes W H' H''" "W \<subseteq> {length H..}"
  shows "valid V H'' r \<and> reads V H'' r = reads V H r"
proof -
  note S = still [OF r a(1)]
  have "reach V H' r \<inter> W = {}" using S(2) bounded [OF r] w(2) by fastforce
  then show ?thesis using unaffected [OF S(1) w(1)] S(3) by simp
qed

lemma copy_independent:
  assumes v: "valid V H v" and c: "copy v H = (v', H')"
  shows "reads V H' v' = reads V H v"
    and "only_writes (reach V H' v') H' H'' \<Longrightarrow> valid V H r \<Longrightarrow> reads V H'' r = reads V H r"
    and "only_writes (reach V H v) H' H'' \<Longrightarrow> reads V H'' v' = reads V H v"
proof -
  note C = copies [OF v c] and G = grows [OF v c]
  show "reads V H' v' = reads V H v" using C by simp
  show "only_writes (reach V H' v') H' H'' \<Longrightarrow> valid V H r \<Longrightarrow> reads V H'' r = reads V H r"
    using C G by (intro old_unaffected [THEN conjunct2]) auto
  show "only_writes (reach V H v) H' H'' \<Longrightarrow> reads V H'' v' = reads V H v"
    using C bounded [OF v] unaffected [of H' v' "reach V H v" H''] by fastforce
qed

text \<open>The loop copies one element after the other, each into its place of the new array.\<close>

lemma copy_loop_copies:
  assumes "\<And>ys. arr (cell ys) = ys" "b < length H" "length (arr (H ! b)) = i + length xs"
    and "\<forall>x \<in> set xs. valid V H x \<and> b \<notin> reach V H x"
  shows "\<exists>zs. let H' = copy_loop copy arr cell b i xs H in
      agree ({..<length H} - {b}) H H' \<and> length H \<le> length H' \<and> arr (H' ! b) = take i (arr (H ! b)) @ zs \<and>
      list_all2 (\<lambda>x z. valid V H' z \<and> reads V H' z = reads V H x \<and> reach V H' z \<subseteq> {length H..<length H'}) xs zs"
  using assms(2-4)
proof (induction xs arbitrary: i H)
  case Nil
  then show ?case by (auto simp: agree_def intro!: exI [of _ "[]"])
next
  case (Cons x xs)
  obtain y H1 where c: "copy x H = (y, H1)" by (metis surj_pair)
  have okx: "valid V H x" "b \<notin> reach V H x" using Cons.prems(3) by simp_all
  note C = copies [OF okx(1) c] and G = grows [OF okx(1) c]
  let ?ys = "(arr (H1 ! b))[i := y]"
  let ?H2 = "H1[b := cell ?ys]"
  have b1: "H1 ! b = H ! b" "b < length H1" using C Cons.prems(1) by (auto simp: agree_def)
  have arr2: "arr (?H2 ! b) = ?ys" using b1 assms(1) by simp
  have ag2: "agree ({..<length H} - {b}) H ?H2"
    using C by (auto simp: agree_def nth_list_update)
  have rest: "valid V ?H2 z \<and> reach V ?H2 z = reach V H z \<and> reads V ?H2 z = reads V H z" if "z \<in> set xs" for z
    using that Cons.prems(3) bounded [of H z] agree_mono [OF ag2, of "reach V H z"] by (intro local) auto
  have len: "length (arr (?H2 ! b)) = Suc i + length xs" using arr2 b1 Cons.prems(2) by simp
  have okxs: "\<forall>z \<in> set xs. valid V ?H2 z \<and> b \<notin> reach V ?H2 z" using rest Cons.prems(3) by simp
  obtain zs where Z: "let H' = copy_loop copy arr cell b (Suc i) xs ?H2 in
      agree ({..<length ?H2} - {b}) ?H2 H' \<and> length ?H2 \<le> length H' \<and> arr (H' ! b) = take (Suc i) (arr (?H2 ! b)) @ zs \<and>
      list_all2 (\<lambda>x z. valid V H' z \<and> reads V H' z = reads V ?H2 x \<and> reach V H' z \<subseteq> {length ?H2..<length H'}) xs zs"
    using Cons.IH [of ?H2 "Suc i"] len okxs b1(2) by auto
  let ?H' = "copy_loop copy arr cell b (Suc i) xs ?H2"
  have ag': "agree ({..<length ?H2} - {b}) ?H2 ?H'" and le: "length ?H2 \<le> length ?H'"
    and arr': "arr (?H' ! b) = take (Suc i) ?ys @ zs"
    and all: "list_all2 (\<lambda>x z. valid V ?H' z \<and> reads V ?H' z = reads V ?H2 x \<and> reach V ?H' z \<subseteq> {length ?H2..<length ?H'}) xs zs"
    using Z arr2 by (simp_all add: Let_def)
  have y: "agree (reach V H1 y) H1 ?H'"
  proof -
    have "reach V H1 y \<subseteq> {..<length H1} - {b}" using C Cons.prems(1) by auto
    then show ?thesis using ag' by (auto simp: agree_def nth_list_update)
  qed
  have fst_ok: "valid V ?H' y \<and> reads V ?H' y = reads V H x \<and> reach V ?H' y \<subseteq> {length H..<length ?H'}"
    using local [OF _ y] C le by auto
  have "list_all2 (\<lambda>x z. valid V ?H' z \<and> reads V ?H' z = reads V H x \<and> reach V ?H' z \<subseteq> {length H..<length ?H'}) xs zs"
    using all G rest by (fastforce simp: list_all2_conv_all_nth)
  moreover have "take (Suc i) ?ys = take i (arr (H ! b)) @ [y]"
    using b1 Cons.prems(2) by (simp add: take_Suc_conv_app_nth)
  moreover have "agree ({..<length H} - {b}) H ?H'"
    by (rule agree_trans [OF ag2 agree_mono [OF ag']]) (use G in auto)
  ultimately show ?case
    using fst_ok arr' le G by (intro exI [of _ "y # zs"]) (simp add: c Let_def)
qed

text \<open>\<open>make\<close> or \<open>new\<close>, and the loop over what is to be in it.\<close>

lemma alloc_copies:
  assumes "\<And>ys. arr (cell ys) = ys" "\<forall>x \<in> set xs. valid V H x"
    and "H' = copy_loop copy arr cell (length H) 0 xs (H @ [cell (replicate (length xs) zero)])"
  shows "agree {..<length H} H H' \<and> length H < length H' \<and>
    list_all2 (\<lambda>x z. valid V H' z \<and> reads V H' z = reads V H x \<and> reach V H' z \<subseteq> {length H<..<length H'})
      xs (arr (H' ! length H))"
proof -
  let ?H0 = "H @ [cell (replicate (length xs) zero)]"
  have keep: "valid V ?H0 x \<and> reach V ?H0 x = reach V H x \<and> reads V ?H0 x = reads V H x" if "x \<in> set xs" for x
    using that assms(2) bounded [of H x] by (intro local) auto
  have "\<forall>x \<in> set xs. valid V ?H0 x \<and> length H \<notin> reach V ?H0 x"
    using keep assms(2) bounded by fastforce
  then obtain zs where zs: "agree ({..<Suc (length H)} - {length H}) ?H0 H'" "Suc (length H) \<le> length H'"
      "arr (H' ! length H) = zs"
      "list_all2 (\<lambda>x z. valid V H' z \<and> reads V H' z = reads V ?H0 x \<and> reach V H' z \<subseteq> {length H<..<length H'}) xs zs"
    using copy_loop_copies [OF assms(1), of "length H" ?H0 0 xs] assms(1,3)
    by (auto simp: Let_def atLeastSucLessThan_greaterThanLessThan)
  have "agree {..<length H} H H'"
    by (rule agree_trans [of _ _ ?H0]) (use zs(1) in \<open>auto intro: agree_mono\<close>)
  moreover have "list_all2 (\<lambda>x z. valid V H' z \<and> reads V H' z = reads V H x \<and> reach V H' z \<subseteq> {length H<..<length H'}) xs zs"
    using zs(4) keep by (fastforce simp: list_all2_conv_all_nth)
  ultimately show ?thesis using zs(2,3) by simp
qed

text \<open>\<open>DeepCopy\<close>: one new cell for what is pointed at, and what it points at behind that.\<close>

lemma copy_ptr_parts:
  assumes "\<And>ys. arr (cell ys) = ys" "valid V H (deref arr H p)"
  obtains H' z where "copy_ptr copy arr cell zero (Some p) H = (Some (length H, 0), H')"
    "agree {..<length H} H H'" "length H < length H'" "arr (H' ! length H) = [z]"
    "valid V H' z" "reads V H' z = reads V H (deref arr H p)" "reach V H' z \<subseteq> {length H<..<length H'}"
proof -
  let ?H' = "copy_loop copy arr cell (length H) 0 [deref arr H p] (H @ [cell [zero]])"
  have "agree {..<length H} H ?H' \<and> length H < length ?H' \<and>
      list_all2 (\<lambda>x z. valid V ?H' z \<and> reads V ?H' z = reads V H x \<and> reach V ?H' z \<subseteq> {length H<..<length ?H'})
        [deref arr H p] (arr (?H' ! length H))"
    using assms(2) by (intro alloc_copies [OF assms(1)]) simp_all
  then show thesis
    by (intro that [of ?H' "hd (arr (?H' ! length H))"])
      (auto simp: copy_ptr_def list_all2_Cons1 simp del: copy_loop.simps)
qed

end

section \<open>What copiers are made of\<close>

definition plain_view :: "('v, 'x, 'v) view" where
  "plain_view = \<lparr>reach = \<lambda>H v. {}, reads = \<lambda>H v. v, valid = \<lambda>H v. True\<rparr>"

definition slice_view :: "('x \<Rightarrow> 'v list) \<Rightarrow> ('v, 'x, 't) view \<Rightarrow> (go_slice option, 'x, 't list option) view" where
  "slice_view arr V =
     \<lparr>reach = \<lambda>H s. (case s of None \<Rightarrow> {}
        | Some sl \<Rightarrow> insert (sl_at sl) (\<Union>x \<in> set (slice_elems arr H sl). reach V H x)),
      reads = \<lambda>H s. map_option (\<lambda>sl. map (reads V H) (slice_elems arr H sl)) s,
      valid = \<lambda>H s. (case s of None \<Rightarrow> True
        | Some sl \<Rightarrow> sl_at sl < length H \<and> sl_off sl + sl_len sl \<le> length (arr (H ! sl_at sl)) \<and>
            (\<forall>x \<in> set (slice_elems arr H sl). valid V H x))\<rparr>"

definition ptr_view :: "('x \<Rightarrow> 'v list) \<Rightarrow> ('v, 'x, 't) view \<Rightarrow> (go_ptr option, 'x, 't option) view" where
  "ptr_view arr V =
     \<lparr>reach = \<lambda>H s. (case s of None \<Rightarrow> {} | Some p \<Rightarrow> insert (fst p) (reach V H (deref arr H p))),
      reads = \<lambda>H s. map_option (\<lambda>p. reads V H (deref arr H p)) s,
      valid = \<lambda>H s. (case s of None \<Rightarrow> True
        | Some p \<Rightarrow> fst p < length H \<and> snd p < length (arr (H ! fst p)) \<and> valid V H (deref arr H p))\<rparr>"

text \<open>A struct is read by its fields: \<open>get\<close> is the tuple of them.\<close>

definition pair_view :: "('v, 'x, 't) view \<Rightarrow> ('w, 'x, 'u) view \<Rightarrow> ('v \<times> 'w, 'x, 't \<times> 'u) view" where
  "pair_view V W =
     \<lparr>reach = \<lambda>H p. reach V H (fst p) \<union> reach W H (snd p),
      reads = \<lambda>H p. (reads V H (fst p), reads W H (snd p)),
      valid = \<lambda>H p. valid V H (fst p) \<and> valid W H (snd p)\<rparr>"

definition struct_view :: "('s \<Rightarrow> 'v) \<Rightarrow> ('v, 'x, 't) view \<Rightarrow> ('s, 'x, 't) view" where
  "struct_view get V =
     \<lparr>reach = \<lambda>H s. reach V H (get s), reads = \<lambda>H s. reads V H (get s), valid = \<lambda>H s. valid V H (get s)\<rparr>"

text \<open>Fields are copied one after the other, and the struct is made of the copies.\<close>

definition copy_pair ::
  "('v \<Rightarrow> 'x list \<Rightarrow> 'v \<times> 'x list) \<Rightarrow> ('w \<Rightarrow> 'x list \<Rightarrow> 'w \<times> 'x list) \<Rightarrow> 'v \<times> 'w \<Rightarrow> 'x list \<Rightarrow> ('v \<times> 'w) \<times> 'x list" where
  "copy_pair f g p H = (let (a, H1) = f (fst p) H; (b, H2) = g (snd p) H1 in ((a, b), H2))"

definition copy_struct ::
  "('s \<Rightarrow> 'v) \<Rightarrow> ('v \<Rightarrow> 's) \<Rightarrow> ('v \<Rightarrow> 'x list \<Rightarrow> 'v \<times> 'x list) \<Rightarrow> 's \<Rightarrow> 'x list \<Rightarrow> 's \<times> 'x list" where
  "copy_struct get build f s H = (let (v, H') = f (get s) H in (build v, H'))"

lemmas view_defs = plain_view_def slice_view_def ptr_view_def pair_view_def struct_view_def

lemma copier_plain: "copier copy_plain plain_view"
  by unfold_locales (auto simp: view_defs copy_plain_def agree_def)

lemma copier_struct:
  assumes "copier f V" "\<And>v. get (build v) = v"
  shows "copier (copy_struct get build f) (struct_view get V)"
proof unfold_locales
  fix H s assume v: "valid (struct_view get V) H s"
  show "reach (struct_view get V) H s \<subseteq> {..<length H}"
    using v copier.bounded [OF assms(1), of H "get s"] by (simp add: view_defs)
  fix H' assume "agree (reach (struct_view get V) H s) H H'"
  then show "valid (struct_view get V) H' s \<and> reach (struct_view get V) H' s = reach (struct_view get V) H s \<and>
      reads (struct_view get V) H' s = reads (struct_view get V) H s"
    using v copier.local [OF assms(1), of H "get s" H'] by (simp add: view_defs)
next
  fix H s s' H' assume "valid (struct_view get V) H s" and c: "copy_struct get build f s H = (s', H')"
  then show "agree {..<length H} H H' \<and> valid (struct_view get V) H' s' \<and>
      reads (struct_view get V) H' s' = reads (struct_view get V) H s \<and> reach (struct_view get V) H' s' \<subseteq> {length H..<length H'}"
    using copier.copies [OF assms(1), of H "get s" _ H'] assms(2)
    by (auto simp: view_defs copy_struct_def split: prod.splits)
qed

lemma copier_pair:
  assumes f: "copier f V" and g: "copier g W"
  shows "copier (copy_pair f g) (pair_view V W)"
proof unfold_locales
  fix H p assume v: "valid (pair_view V W) H p"
  show "reach (pair_view V W) H p \<subseteq> {..<length H}"
    using v copier.bounded [OF f, of H "fst p"] copier.bounded [OF g, of H "snd p"] by (simp add: view_defs)
  fix H' assume "agree (reach (pair_view V W) H p) H H'"
  then have "agree (reach V H (fst p)) H H'" "agree (reach W H (snd p)) H H'"
    by (auto simp: view_defs agree_def)
  then show "valid (pair_view V W) H' p \<and> reach (pair_view V W) H' p = reach (pair_view V W) H p \<and>
      reads (pair_view V W) H' p = reads (pair_view V W) H p"
    using v copier.local [OF f, of H "fst p" H'] copier.local [OF g, of H "snd p" H'] by (simp add: view_defs)
next
  fix H p q H' assume v: "valid (pair_view V W) H p" and c: "copy_pair f g p H = (q, H')"
  obtain a H1 b where 1: "f (fst p) H = (a, H1)" and 2: "g (snd p) H1 = (b, H')" and q: "q = (a, b)"
    using c by (auto simp: copy_pair_def split: prod.splits)
  have vp: "valid V H (fst p)" "valid W H (snd p)" using v by (simp_all add: view_defs)
  note A = copier.copies [OF f vp(1) 1] and GA = copier.grows [OF f vp(1) 1]
  have keep: "valid W H1 (snd p)" "reads W H1 (snd p) = reads W H (snd p)"
    using copier.still [OF g vp(2)] A by simp_all
  note B = copier.copies [OF g keep(1) 2] and GB = copier.grows [OF g keep(1) 2]
  have "valid V H' a \<and> reach V H' a = reach V H1 a \<and> reads V H' a = reads V H1 a"
    using copier.still [OF f, of H1 a H'] A B by simp
  moreover have "agree {..<length H} H H'"
    using A B GA agree_trans [of "{..<length H}" H H1 H'] agree_mono [of "{..<length H1}" H1 H' "{..<length H}"] by simp
  moreover have "reach V H1 a \<union> reach W H' b \<subseteq> {length H..<length H'}"
    using A B GA GB by fastforce
  ultimately show "agree {..<length H} H H' \<and> valid (pair_view V W) H' q \<and>
      reads (pair_view V W) H' q = reads (pair_view V W) H p \<and> reach (pair_view V W) H' q \<subseteq> {length H..<length H'}"
    using A B keep q by (simp add: view_defs)
qed

lemma copier_slice:
  assumes f: "copier f V" and ac: "\<And>ys. arr (cell ys) = ys"
  shows "copier (copy_slice f arr cell zero) (slice_view arr V)"
proof unfold_locales
  fix H s assume v: "valid (slice_view arr V) H s"
  show "reach (slice_view arr V) H s \<subseteq> {..<length H}"
    using v copier.bounded [OF f] by (fastforce simp: view_defs split: option.splits)
  fix H' assume a: "agree (reach (slice_view arr V) H s) H H'"
  show "valid (slice_view arr V) H' s \<and> reach (slice_view arr V) H' s = reach (slice_view arr V) H s \<and>
      reads (slice_view arr V) H' s = reads (slice_view arr V) H s"
  proof (cases s)
    case (Some sl)
    have at: "sl_at sl < length H'" "H' ! sl_at sl = H ! sl_at sl" using a Some by (auto simp: view_defs agree_def)
    have "valid V H' x \<and> reach V H' x = reach V H x \<and> reads V H' x = reads V H x"
      if "x \<in> set (slice_elems arr H sl)" for x
      using that a v Some by (intro copier.local [OF f]) (auto simp: view_defs agree_def)
    then show ?thesis using v Some at by (simp add: view_defs slice_elems_def)
  qed (simp add: view_defs)
next
  fix H s s' H' assume v: "valid (slice_view arr V) H s" and c: "copy_slice f arr cell zero s H = (s', H')"
  show "agree {..<length H} H H' \<and> valid (slice_view arr V) H' s' \<and>
      reads (slice_view arr V) H' s' = reads (slice_view arr V) H s \<and>
      reach (slice_view arr V) H' s' \<subseteq> {length H..<length H'}"
  proof (cases s)
    case None
    then show ?thesis using c by (auto simp: copy_slice_def view_defs agree_def)
  next
    case (Some sl)
    let ?xs = "slice_elems arr H sl"
    have len: "length ?xs = sl_len sl" and ok: "\<forall>x \<in> set ?xs. valid V H x"
      using v Some by (auto simp: view_defs slice_elems_def)
    have H': "H' = copy_loop f arr cell (length H) 0 ?xs (H @ [cell (replicate (length ?xs) zero)])"
      and s': "s' = Some \<lparr>sl_at = length H, sl_off = 0, sl_len = length ?xs\<rparr>"
      using c Some len by (auto simp: copy_slice_def Let_def)
    note A = copier.alloc_copies [OF f ac ok H']
    let ?zs = "arr (H' ! length H)"
    have zs: "length ?zs = length ?xs" using A by (simp add: list_all2_conv_all_nth)
    then have "slice_elems arr H' \<lparr>sl_at = length H, sl_off = 0, sl_len = length ?xs\<rparr> = ?zs"
      by (simp add: slice_elems_def)
    moreover have "map (reads V H') ?zs = map (reads V H) ?xs"
      using A by (auto simp: list_all2_conv_all_nth intro: nth_equalityI)
    moreover have "\<forall>z \<in> set ?zs. valid V H' z \<and> reach V H' z \<subseteq> {length H<..<length H'}"
      using A unfolding list_all2_conv_all_nth by (metis in_set_conv_nth)
    ultimately show ?thesis using A zs s' Some by (fastforce simp: view_defs)
  qed
qed

lemma copier_ptr:
  assumes f: "copier f V" and ac: "\<And>ys. arr (cell ys) = ys"
  shows "copier (copy_ptr f arr cell zero) (ptr_view arr V)"
proof unfold_locales
  fix H s assume v: "valid (ptr_view arr V) H s"
  show "reach (ptr_view arr V) H s \<subseteq> {..<length H}"
    using v copier.bounded [OF f] by (auto simp: view_defs split: option.splits)
  fix H' assume a: "agree (reach (ptr_view arr V) H s) H H'"
  show "valid (ptr_view arr V) H' s \<and> reach (ptr_view arr V) H' s = reach (ptr_view arr V) H s \<and>
      reads (ptr_view arr V) H' s = reads (ptr_view arr V) H s"
  proof (cases s)
    case (Some p)
    have at: "fst p < length H'" "H' ! fst p = H ! fst p" using a Some by (auto simp: view_defs agree_def)
    have "valid V H' (deref arr H p) \<and> reach V H' (deref arr H p) = reach V H (deref arr H p) \<and>
        reads V H' (deref arr H p) = reads V H (deref arr H p)"
      using a v Some by (intro copier.local [OF f]) (auto simp: view_defs agree_def)
    then show ?thesis using v Some at by (simp add: view_defs deref_def)
  qed (simp add: view_defs)
next
  fix H s s' H' assume v: "valid (ptr_view arr V) H s" and c: "copy_ptr f arr cell zero s H = (s', H')"
  show "agree {..<length H} H H' \<and> valid (ptr_view arr V) H' s' \<and>
      reads (ptr_view arr V) H' s' = reads (ptr_view arr V) H s \<and>
      reach (ptr_view arr V) H' s' \<subseteq> {length H..<length H'}"
  proof (cases s)
    case None
    then show ?thesis using c by (auto simp: copy_ptr_def view_defs agree_def)
  next
    case (Some p)
    have ok: "valid V H (deref arr H p)" using v Some by (simp add: view_defs)
    obtain z where "s' = Some (length H, 0)" "agree {..<length H} H H'" "length H < length H'" "arr (H' ! length H) = [z]"
        "valid V H' z" "reads V H' z = reads V H (deref arr H p)" "reach V H' z \<subseteq> {length H<..<length H'}"
      by (rule copier.copy_ptr_parts [OF f ac ok, where zero = zero]) (use c Some in auto)
    then show ?thesis using Some by (fastforce simp: view_defs deref_def)
  qed
qed

lemmas copier_intros = copier_plain copier_slice copier_ptr copier_pair copier_struct

end
