(* ===== verification/Api_V1alpha1.thy ===== *)
theory Api_V1alpha1
  imports Cni_Prelude
begin

text \<open>
  The \<open>NodeNetworkPolicy\<close> API object, \<open>internal/apis/v1alpha1/nodenetworkpolicy_types.go\<close>:
  the fields the daemon reads and the status it writes. A label selector and its
  matching belong to \<open>k8s.io/apimachinery\<close>; its type is the parameter \<open>'sel\<close>.
\<close>

type_synonym labels = "string \<Rightarrow> string option"

text \<open>\<open>metav1.LabelSelectorAsSelector\<close>: an error, or the predicate the selector is.\<close>

type_synonym 'sel as_selector = "'sel \<Rightarrow> go_error + (labels \<Rightarrow> bool)"

type_synonym mode = string
type_synonym policy_type = string

definition ModePermissive :: mode where "ModePermissive = ''Permissive''"
definition ModeEnforce :: mode where "ModeEnforce = ''Enforce''"

definition PolicyTypeIngress :: policy_type where "PolicyTypeIngress = ''Ingress''"
definition PolicyTypeEgress :: policy_type where "PolicyTypeEgress = ''Egress''"

text \<open>\<open>networkingv1.IPBlock\<close>.\<close>

record k8s_ipblock =
  ipb_CIDR :: string
  ipb_Except :: "string list"

record nnp_peer =
  nnp_IPBlock :: "k8s_ipblock option"

record nnp_port =
  nnp_Protocol :: string
  nnp_Port :: "int option"
  nnp_EndPort :: "int option"

record nnp_ingress_rule =
  ir_From :: "nnp_peer list"
  ir_Ports :: "nnp_port list"

record nnp_egress_rule =
  er_To :: "nnp_peer list"
  er_Ports :: "nnp_port list"

record 'sel nnp_spec =
  spec_Mode :: mode
  spec_NodeSelector :: 'sel
  spec_PolicyTypes :: "policy_type list"
  spec_Ingress :: "nnp_ingress_rule list"
  spec_Egress :: "nnp_egress_rule list"

record nnp_node_status =
  st_Name :: string
  st_ObservedGeneration :: int
  st_Mode :: mode
  st_Message :: string

record 'sel node_network_policy =
  nnp_Name :: string
  nnp_Generation :: int
  nnp_Spec :: "'sel nnp_spec"
  nnp_Status_Nodes :: "nnp_node_status list"

end
