(* ===== verification/Deep_Copy.thy ===== *)
theory Deep_Copy
  imports Go_Memory Api_V1alpha1
begin

text \<open>
  The generated deep copies, \<open>internal/apis/v1alpha1/zz_generated.deepcopy.go\<close>, on memory: the API
  structs as they lie there, with their pointers and slices, one definition for each \<open>DeepCopyInto\<close>,
  \<open>DeepCopy\<close> and \<open>DeepCopyObject\<close>, and that each of them is a copier. The deep copies of
  \<open>k8s.io\<close>'s own types are the parameter \<open>ext\<close>, their contract \<open>ext_ok\<close>.
\<close>

section \<open>The structs in memory\<close>

text \<open>\<open>metav1.TypeMeta\<close>.\<close>

record type_meta =
  tm_Kind :: string
  tm_APIVersion :: string

record hp_peer =
  hp_IPBlock :: "go_ptr option"

record hp_port =
  hp_Protocol :: string
  hp_Port :: "go_ptr option"
  hp_EndPort :: "go_ptr option"

record hp_ingress_rule =
  hp_From :: "go_slice option"
  hp_ingress_Ports :: "go_slice option"

record hp_egress_rule =
  hp_To :: "go_slice option"
  hp_egress_Ports :: "go_slice option"

record 's hp_spec =
  hp_Mode :: mode
  hp_NodeSelector :: 's
  hp_PolicyTypes :: "go_slice option"
  hp_Ingress :: "go_slice option"
  hp_Egress :: "go_slice option"

record hp_status =
  hp_Nodes :: "go_slice option"

record ('m, 's) hp_policy =
  hp_TypeMeta :: type_meta
  hp_ObjectMeta :: 'm
  hp_Spec :: "'s hp_spec"
  hp_Status :: hp_status

record 'l hp_policy_list =
  hp_list_TypeMeta :: type_meta
  hp_ListMeta :: 'l
  hp_Items :: "go_slice option"

text \<open>
  A cell is an array of one type. \<open>'m\<close>, \<open>'s\<close>, \<open>'b\<close> and \<open>'l\<close> are \<open>metav1.ObjectMeta\<close>, \<open>metav1.LabelSelector\<close>,
  \<open>networkingv1.IPBlock\<close> and \<open>metav1.ListMeta\<close>; \<open>'e\<close> is what they hold elsewhere in memory.
\<close>

datatype ('m, 's, 'b, 'l, 'e) cell =
    CInts "int list"
  | CBlocks "'b list"
  | CTypes "policy_type list"
  | CPeers "hp_peer list"
  | CPorts "hp_port list"
  | CIngress "hp_ingress_rule list"
  | CEgress "hp_egress_rule list"
  | CSpecs "'s hp_spec list"
  | CNodes "nnp_node_status list"
  | CStatuses "hp_status list"
  | CPolicies "('m, 's) hp_policy list"
  | CLists "'l hp_policy_list list"
  | CExt "'e list"

definition arr_ints :: "('m, 's, 'b, 'l, 'e) cell \<Rightarrow> int list" where
  "arr_ints c = (case c of CInts xs \<Rightarrow> xs | _ \<Rightarrow> [])"
definition arr_blocks :: "('m, 's, 'b, 'l, 'e) cell \<Rightarrow> 'b list" where
  "arr_blocks c = (case c of CBlocks xs \<Rightarrow> xs | _ \<Rightarrow> [])"
definition arr_types :: "('m, 's, 'b, 'l, 'e) cell \<Rightarrow> policy_type list" where
  "arr_types c = (case c of CTypes xs \<Rightarrow> xs | _ \<Rightarrow> [])"
definition arr_peers :: "('m, 's, 'b, 'l, 'e) cell \<Rightarrow> hp_peer list" where
  "arr_peers c = (case c of CPeers xs \<Rightarrow> xs | _ \<Rightarrow> [])"
definition arr_ports :: "('m, 's, 'b, 'l, 'e) cell \<Rightarrow> hp_port list" where
  "arr_ports c = (case c of CPorts xs \<Rightarrow> xs | _ \<Rightarrow> [])"
definition arr_ingress_rules :: "('m, 's, 'b, 'l, 'e) cell \<Rightarrow> hp_ingress_rule list" where
  "arr_ingress_rules c = (case c of CIngress xs \<Rightarrow> xs | _ \<Rightarrow> [])"
definition arr_egress_rules :: "('m, 's, 'b, 'l, 'e) cell \<Rightarrow> hp_egress_rule list" where
  "arr_egress_rules c = (case c of CEgress xs \<Rightarrow> xs | _ \<Rightarrow> [])"
definition arr_specs :: "('m, 's, 'b, 'l, 'e) cell \<Rightarrow> 's hp_spec list" where
  "arr_specs c = (case c of CSpecs xs \<Rightarrow> xs | _ \<Rightarrow> [])"
definition arr_nodes :: "('m, 's, 'b, 'l, 'e) cell \<Rightarrow> nnp_node_status list" where
  "arr_nodes c = (case c of CNodes xs \<Rightarrow> xs | _ \<Rightarrow> [])"
definition arr_statuses :: "('m, 's, 'b, 'l, 'e) cell \<Rightarrow> hp_status list" where
  "arr_statuses c = (case c of CStatuses xs \<Rightarrow> xs | _ \<Rightarrow> [])"
definition arr_policies :: "('m, 's, 'b, 'l, 'e) cell \<Rightarrow> ('m, 's) hp_policy list" where
  "arr_policies c = (case c of CPolicies xs \<Rightarrow> xs | _ \<Rightarrow> [])"
definition arr_policy_lists :: "('m, 's, 'b, 'l, 'e) cell \<Rightarrow> 'l hp_policy_list list" where
  "arr_policy_lists c = (case c of CLists xs \<Rightarrow> xs | _ \<Rightarrow> [])"
definition arr_exts :: "('m, 's, 'b, 'l, 'e) cell \<Rightarrow> 'e list" where
  "arr_exts c = (case c of CExt xs \<Rightarrow> xs | _ \<Rightarrow> [])"

lemma cell_arrays [simp]:
  "arr_ints (CInts xs) = xs" "arr_blocks (CBlocks bs) = bs" "arr_types (CTypes ts) = ts" "arr_peers (CPeers ps) = ps"
  "arr_ports (CPorts qs) = qs" "arr_ingress_rules (CIngress is) = is" "arr_egress_rules (CEgress es) = es"
  "arr_specs (CSpecs ss) = ss" "arr_nodes (CNodes ns) = ns" "arr_statuses (CStatuses us) = us"
  "arr_policies (CPolicies vs) = vs" "arr_policy_lists (CLists ls) = ls" "arr_exts (CExt ws) = ws"
  by (simp_all add: arr_ints_def arr_blocks_def arr_types_def arr_peers_def arr_ports_def arr_ingress_rules_def arr_egress_rules_def
      arr_specs_def arr_nodes_def arr_statuses_def arr_policies_def arr_policy_lists_def arr_exts_def)

section \<open>The deep copies of k8s.io\<close>

type_synonym ('v, 'm, 's, 'b, 'l, 'e) into = "'v \<Rightarrow> ('m, 's, 'b, 'l, 'e) cell list \<Rightarrow> 'v \<times> ('m, 's, 'b, 'l, 'e) cell list"

record ('m, 's, 'b, 'l, 'e) ext =
  ObjectMeta_DeepCopyInto :: "('m, 'm, 's, 'b, 'l, 'e) into"
  ObjectMeta_zero :: 'm
  LabelSelector_DeepCopyInto :: "('s, 'm, 's, 'b, 'l, 'e) into"
  LabelSelector_zero :: 's
  IPBlock_DeepCopyInto :: "('b, 'm, 's, 'b, 'l, 'e) into"
  IPBlock_zero :: 'b
  ListMeta_DeepCopyInto :: "('l, 'm, 's, 'b, 'l, 'e) into"
  ListMeta_zero :: 'l

section \<open>DeepCopyInto\<close>

text \<open>
  The value copied and the copy; \<open>*out = *in\<close> is the first step of each, and every field with a
  pointer in it is then overwritten.
\<close>

definition NodeStatus_DeepCopyInto :: "(nnp_node_status, 'm, 's, 'b, 'l, 'e) into" where
  "NodeStatus_DeepCopyInto v H = (v, H)"

definition Peer_DeepCopyInto :: "('m, 's, 'b, 'l, 'e) ext \<Rightarrow> (hp_peer, 'm, 's, 'b, 'l, 'e) into" where
  "Peer_DeepCopyInto L v H =
     (let out = v;
          (b, H1) = copy_ptr (IPBlock_DeepCopyInto L) arr_blocks CBlocks (IPBlock_zero L) (hp_IPBlock v) H
      in (out\<lparr>hp_IPBlock := b\<rparr>, H1))"

definition Port_DeepCopyInto :: "(hp_port, 'm, 's, 'b, 'l, 'e) into" where
  "Port_DeepCopyInto v H =
     (let out = v;
          (p, H1) = copy_ptr copy_plain arr_ints CInts 0 (hp_Port v) H;
          (e, H2) = copy_ptr copy_plain arr_ints CInts 0 (hp_EndPort v) H1
      in (out\<lparr>hp_Port := p, hp_EndPort := e\<rparr>, H2))"

definition peer_zero :: hp_peer where "peer_zero = \<lparr>hp_IPBlock = None\<rparr>"
definition port_zero :: hp_port where "port_zero = \<lparr>hp_Protocol = [], hp_Port = None, hp_EndPort = None\<rparr>"

definition IngressRule_DeepCopyInto :: "('m, 's, 'b, 'l, 'e) ext \<Rightarrow> (hp_ingress_rule, 'm, 's, 'b, 'l, 'e) into" where
  "IngressRule_DeepCopyInto L v H =
     (let out = v;
          (f, H1) = copy_slice (Peer_DeepCopyInto L) arr_peers CPeers peer_zero (hp_From v) H;
          (p, H2) = copy_slice Port_DeepCopyInto arr_ports CPorts port_zero (hp_ingress_Ports v) H1
      in (out\<lparr>hp_From := f, hp_ingress_Ports := p\<rparr>, H2))"

definition EgressRule_DeepCopyInto :: "('m, 's, 'b, 'l, 'e) ext \<Rightarrow> (hp_egress_rule, 'm, 's, 'b, 'l, 'e) into" where
  "EgressRule_DeepCopyInto L v H =
     (let out = v;
          (t, H1) = copy_slice (Peer_DeepCopyInto L) arr_peers CPeers peer_zero (hp_To v) H;
          (p, H2) = copy_slice Port_DeepCopyInto arr_ports CPorts port_zero (hp_egress_Ports v) H1
      in (out\<lparr>hp_To := t, hp_egress_Ports := p\<rparr>, H2))"

definition ingress_zero :: hp_ingress_rule where "ingress_zero = \<lparr>hp_From = None, hp_ingress_Ports = None\<rparr>"
definition egress_zero :: hp_egress_rule where "egress_zero = \<lparr>hp_To = None, hp_egress_Ports = None\<rparr>"

definition Spec_DeepCopyInto :: "('m, 's, 'b, 'l, 'e) ext \<Rightarrow> ('s hp_spec, 'm, 's, 'b, 'l, 'e) into" where
  "Spec_DeepCopyInto L v H =
     (let out = v;
          (s, H1) = LabelSelector_DeepCopyInto L (hp_NodeSelector v) H;
          (t, H2) = copy_slice copy_plain arr_types CTypes [] (hp_PolicyTypes v) H1;
          (i, H3) = copy_slice (IngressRule_DeepCopyInto L) arr_ingress_rules CIngress ingress_zero (hp_Ingress v) H2;
          (e, H4) = copy_slice (EgressRule_DeepCopyInto L) arr_egress_rules CEgress egress_zero (hp_Egress v) H3
      in (out\<lparr>hp_NodeSelector := s, hp_PolicyTypes := t, hp_Ingress := i, hp_Egress := e\<rparr>, H4))"

definition node_status_zero :: nnp_node_status where
  "node_status_zero = \<lparr>st_Name = [], st_ObservedGeneration = 0, st_Mode = [], st_Message = []\<rparr>"

definition Status_DeepCopyInto :: "(hp_status, 'm, 's, 'b, 'l, 'e) into" where
  "Status_DeepCopyInto v H =
     (let out = v;
          (n, H1) = copy_slice copy_plain arr_nodes CNodes node_status_zero (hp_Nodes v) H
      in (out\<lparr>hp_Nodes := n\<rparr>, H1))"

definition Policy_DeepCopyInto :: "('m, 's, 'b, 'l, 'e) ext \<Rightarrow> (('m, 's) hp_policy, 'm, 's, 'b, 'l, 'e) into" where
  "Policy_DeepCopyInto L v H =
     (let out = v\<lparr>hp_TypeMeta := hp_TypeMeta v\<rparr>;
          (m, H1) = ObjectMeta_DeepCopyInto L (hp_ObjectMeta v) H;
          (s, H2) = Spec_DeepCopyInto L (hp_Spec v) H1;
          (t, H3) = Status_DeepCopyInto (hp_Status v) H2
      in (out\<lparr>hp_ObjectMeta := m, hp_Spec := s, hp_Status := t\<rparr>, H3))"

definition spec_zero :: "('m, 's, 'b, 'l, 'e) ext \<Rightarrow> 's hp_spec" where
  "spec_zero L = \<lparr>hp_Mode = [], hp_NodeSelector = LabelSelector_zero L, hp_PolicyTypes = None, hp_Ingress = None, hp_Egress = None\<rparr>"
definition status_zero :: hp_status where "status_zero = \<lparr>hp_Nodes = None\<rparr>"
definition policy_zero :: "('m, 's, 'b, 'l, 'e) ext \<Rightarrow> ('m, 's) hp_policy" where
  "policy_zero L =
     \<lparr>hp_TypeMeta = \<lparr>tm_Kind = [], tm_APIVersion = []\<rparr>, hp_ObjectMeta = ObjectMeta_zero L, hp_Spec = spec_zero L,
      hp_Status = status_zero\<rparr>"

definition PolicyList_DeepCopyInto :: "('m, 's, 'b, 'l, 'e) ext \<Rightarrow> ('l hp_policy_list, 'm, 's, 'b, 'l, 'e) into" where
  "PolicyList_DeepCopyInto L v H =
     (let out = v\<lparr>hp_list_TypeMeta := hp_list_TypeMeta v\<rparr>;
          (m, H1) = ListMeta_DeepCopyInto L (hp_ListMeta v) H;
          (i, H2) = copy_slice (Policy_DeepCopyInto L) arr_policies CPolicies (policy_zero L) (hp_Items v) H1
      in (out\<lparr>hp_ListMeta := m, hp_Items := i\<rparr>, H2))"

definition list_zero :: "('m, 's, 'b, 'l, 'e) ext \<Rightarrow> 'l hp_policy_list" where
  "list_zero L = \<lparr>hp_list_TypeMeta = \<lparr>tm_Kind = [], tm_APIVersion = []\<rparr>, hp_ListMeta = ListMeta_zero L, hp_Items = None\<rparr>"

section \<open>DeepCopy and DeepCopyObject\<close>

definition NodeStatus_DeepCopy :: "(go_ptr option, 'm, 's, 'b, 'l, 'e) into" where
  "NodeStatus_DeepCopy = copy_ptr NodeStatus_DeepCopyInto arr_nodes CNodes node_status_zero"

definition Peer_DeepCopy :: "('m, 's, 'b, 'l, 'e) ext \<Rightarrow> (go_ptr option, 'm, 's, 'b, 'l, 'e) into" where
  "Peer_DeepCopy L = copy_ptr (Peer_DeepCopyInto L) arr_peers CPeers peer_zero"

definition Port_DeepCopy :: "(go_ptr option, 'm, 's, 'b, 'l, 'e) into" where
  "Port_DeepCopy = copy_ptr Port_DeepCopyInto arr_ports CPorts port_zero"

definition IngressRule_DeepCopy :: "('m, 's, 'b, 'l, 'e) ext \<Rightarrow> (go_ptr option, 'm, 's, 'b, 'l, 'e) into" where
  "IngressRule_DeepCopy L = copy_ptr (IngressRule_DeepCopyInto L) arr_ingress_rules CIngress ingress_zero"

definition EgressRule_DeepCopy :: "('m, 's, 'b, 'l, 'e) ext \<Rightarrow> (go_ptr option, 'm, 's, 'b, 'l, 'e) into" where
  "EgressRule_DeepCopy L = copy_ptr (EgressRule_DeepCopyInto L) arr_egress_rules CEgress egress_zero"

definition Spec_DeepCopy :: "('m, 's, 'b, 'l, 'e) ext \<Rightarrow> (go_ptr option, 'm, 's, 'b, 'l, 'e) into" where
  "Spec_DeepCopy L = copy_ptr (Spec_DeepCopyInto L) arr_specs CSpecs (spec_zero L)"

definition Status_DeepCopy :: "(go_ptr option, 'm, 's, 'b, 'l, 'e) into" where
  "Status_DeepCopy = copy_ptr Status_DeepCopyInto arr_statuses CStatuses status_zero"

definition Policy_DeepCopy :: "('m, 's, 'b, 'l, 'e) ext \<Rightarrow> (go_ptr option, 'm, 's, 'b, 'l, 'e) into" where
  "Policy_DeepCopy L = copy_ptr (Policy_DeepCopyInto L) arr_policies CPolicies (policy_zero L)"

definition PolicyList_DeepCopy :: "('m, 's, 'b, 'l, 'e) ext \<Rightarrow> (go_ptr option, 'm, 's, 'b, 'l, 'e) into" where
  "PolicyList_DeepCopy L = copy_ptr (PolicyList_DeepCopyInto L) arr_policy_lists CLists (list_zero L)"

text \<open>\<open>runtime.Object\<close>: an interface holds its type beside the pointer, and \<open>nil\<close> is the one that holds neither.\<close>

datatype runtime_object = PolicyObject go_ptr | PolicyListObject go_ptr

definition Policy_DeepCopyObject ::
  "('m, 's, 'b, 'l, 'e) ext \<Rightarrow> go_ptr option \<Rightarrow> ('m, 's, 'b, 'l, 'e) cell list \<Rightarrow>
    runtime_object option \<times> ('m, 's, 'b, 'l, 'e) cell list" where
  "Policy_DeepCopyObject L p H =
     (case Policy_DeepCopy L p H of (Some c, H') \<Rightarrow> (Some (PolicyObject c), H') | (None, H') \<Rightarrow> (None, H'))"

definition PolicyList_DeepCopyObject ::
  "('m, 's, 'b, 'l, 'e) ext \<Rightarrow> go_ptr option \<Rightarrow> ('m, 's, 'b, 'l, 'e) cell list \<Rightarrow>
    runtime_object option \<times> ('m, 's, 'b, 'l, 'e) cell list" where
  "PolicyList_DeepCopyObject L p H =
     (case PolicyList_DeepCopy L p H of (Some c, H') \<Rightarrow> (Some (PolicyListObject c), H') | (None, H') \<Rightarrow> (None, H'))"

section \<open>What the structs say\<close>

record ('m, 's, 'b, 'l, 'e, 'mt, 'st, 'bt, 'lt) ext_view =
  ev_ObjectMeta :: "('m, ('m, 's, 'b, 'l, 'e) cell, 'mt) view"
  ev_LabelSelector :: "('s, ('m, 's, 'b, 'l, 'e) cell, 'st) view"
  ev_IPBlock :: "('b, ('m, 's, 'b, 'l, 'e) cell, 'bt) view"
  ev_ListMeta :: "('l, ('m, 's, 'b, 'l, 'e) cell, 'lt) view"

text \<open>What the deep copies of \<open>k8s.io\<close> promise: they are copiers.\<close>

definition ext_ok :: "('m, 's, 'b, 'l, 'e) ext \<Rightarrow> ('m, 's, 'b, 'l, 'e, 'mt, 'st, 'bt, 'lt) ext_view \<Rightarrow> bool" where
  "ext_ok L E \<longleftrightarrow>
     copier (ObjectMeta_DeepCopyInto L) (ev_ObjectMeta E) \<and> copier (LabelSelector_DeepCopyInto L) (ev_LabelSelector E) \<and>
     copier (IPBlock_DeepCopyInto L) (ev_IPBlock E) \<and> copier (ListMeta_DeepCopyInto L) (ev_ListMeta E)"

definition "peer_view E = struct_view hp_IPBlock (ptr_view arr_blocks (ev_IPBlock E))"

definition "port_view =
  struct_view (\<lambda>v. (hp_Protocol v, hp_Port v, hp_EndPort v))
    (pair_view plain_view (pair_view (ptr_view arr_ints plain_view) (ptr_view arr_ints plain_view)))"

definition "ingress_view E =
  struct_view (\<lambda>v. (hp_From v, hp_ingress_Ports v))
    (pair_view (slice_view arr_peers (peer_view E)) (slice_view arr_ports port_view))"

definition "egress_view E =
  struct_view (\<lambda>v. (hp_To v, hp_egress_Ports v))
    (pair_view (slice_view arr_peers (peer_view E)) (slice_view arr_ports port_view))"

definition "spec_view E =
  struct_view (\<lambda>v. (hp_Mode v, hp_NodeSelector v, hp_PolicyTypes v, hp_Ingress v, hp_Egress v))
    (pair_view plain_view (pair_view (ev_LabelSelector E) (pair_view (slice_view arr_types plain_view)
      (pair_view (slice_view arr_ingress_rules (ingress_view E)) (slice_view arr_egress_rules (egress_view E))))))"

definition "status_view = struct_view hp_Nodes (slice_view arr_nodes plain_view)"

definition "policy_view E =
  struct_view (\<lambda>v. (hp_TypeMeta v, hp_ObjectMeta v, hp_Spec v, hp_Status v))
    (pair_view plain_view (pair_view (ev_ObjectMeta E) (pair_view (spec_view E) status_view)))"

definition "list_view E =
  struct_view (\<lambda>v. (hp_list_TypeMeta v, hp_ListMeta v, hp_Items v))
    (pair_view plain_view (pair_view (ev_ListMeta E) (slice_view arr_policies (policy_view E))))"

section \<open>Every deep copy is a copier\<close>

text \<open>Each \<open>DeepCopyInto\<close> copies the fields one after the other.\<close>

lemma NodeStatus_DeepCopyInto_plain: "NodeStatus_DeepCopyInto = copy_plain"
  by (rule ext)+ (simp add: NodeStatus_DeepCopyInto_def copy_plain_def)

lemmas into_struct = fun_eq_iff copy_struct_def copy_pair_def copy_plain_def

lemma Peer_DeepCopyInto_struct:
  "Peer_DeepCopyInto L = copy_struct hp_IPBlock hp_peer.make
     (copy_ptr (IPBlock_DeepCopyInto L) arr_blocks CBlocks (IPBlock_zero L))"
  by (auto simp: Peer_DeepCopyInto_def into_struct hp_peer.defs split: prod.splits)

lemma Port_DeepCopyInto_struct:
  "Port_DeepCopyInto = copy_struct (\<lambda>v. (hp_Protocol v, hp_Port v, hp_EndPort v)) (\<lambda>(a, b, c). hp_port.make a b c)
     (copy_pair copy_plain (copy_pair (copy_ptr copy_plain arr_ints CInts 0) (copy_ptr copy_plain arr_ints CInts 0)))"
  by (auto simp: Port_DeepCopyInto_def into_struct hp_port.defs split: prod.splits)

lemma IngressRule_DeepCopyInto_struct:
  "IngressRule_DeepCopyInto L =
     copy_struct (\<lambda>v. (hp_From v, hp_ingress_Ports v)) (\<lambda>(a, b). hp_ingress_rule.make a b)
       (copy_pair (copy_slice (Peer_DeepCopyInto L) arr_peers CPeers peer_zero)
         (copy_slice Port_DeepCopyInto arr_ports CPorts port_zero))"
  by (auto simp: IngressRule_DeepCopyInto_def into_struct hp_ingress_rule.defs split: prod.splits)

lemma EgressRule_DeepCopyInto_struct:
  "EgressRule_DeepCopyInto L =
     copy_struct (\<lambda>v. (hp_To v, hp_egress_Ports v)) (\<lambda>(a, b). hp_egress_rule.make a b)
       (copy_pair (copy_slice (Peer_DeepCopyInto L) arr_peers CPeers peer_zero)
         (copy_slice Port_DeepCopyInto arr_ports CPorts port_zero))"
  by (auto simp: EgressRule_DeepCopyInto_def into_struct hp_egress_rule.defs split: prod.splits)

lemma Spec_DeepCopyInto_struct:
  "Spec_DeepCopyInto L =
     copy_struct (\<lambda>v. (hp_Mode v, hp_NodeSelector v, hp_PolicyTypes v, hp_Ingress v, hp_Egress v)) (\<lambda>(a, b, c, d, e). hp_spec.make a b c d e)
       (copy_pair copy_plain (copy_pair (LabelSelector_DeepCopyInto L) (copy_pair (copy_slice copy_plain arr_types CTypes [])
         (copy_pair (copy_slice (IngressRule_DeepCopyInto L) arr_ingress_rules CIngress ingress_zero)
           (copy_slice (EgressRule_DeepCopyInto L) arr_egress_rules CEgress egress_zero)))))"
  by (auto simp: Spec_DeepCopyInto_def into_struct hp_spec.defs split: prod.splits)

lemma Status_DeepCopyInto_struct:
  "Status_DeepCopyInto = copy_struct hp_Nodes hp_status.make (copy_slice copy_plain arr_nodes CNodes node_status_zero)"
  by (auto simp: Status_DeepCopyInto_def into_struct hp_status.defs split: prod.splits)

lemma Policy_DeepCopyInto_struct:
  "Policy_DeepCopyInto L =
     copy_struct (\<lambda>v. (hp_TypeMeta v, hp_ObjectMeta v, hp_Spec v, hp_Status v)) (\<lambda>(a, b, c, d). hp_policy.make a b c d)
       (copy_pair copy_plain (copy_pair (ObjectMeta_DeepCopyInto L) (copy_pair (Spec_DeepCopyInto L) Status_DeepCopyInto)))"
  by (auto simp: Policy_DeepCopyInto_def into_struct hp_policy.defs split: prod.splits)

lemma PolicyList_DeepCopyInto_struct:
  "PolicyList_DeepCopyInto L =
     copy_struct (\<lambda>v. (hp_list_TypeMeta v, hp_ListMeta v, hp_Items v)) (\<lambda>(a, b, c). hp_policy_list.make a b c)
       (copy_pair copy_plain (copy_pair (ListMeta_DeepCopyInto L)
         (copy_slice (Policy_DeepCopyInto L) arr_policies CPolicies (policy_zero L))))"
  by (auto simp: PolicyList_DeepCopyInto_def into_struct hp_policy_list.defs split: prod.splits)

lemmas make_defs = hp_peer.defs hp_port.defs hp_ingress_rule.defs hp_egress_rule.defs hp_spec.defs hp_status.defs
  hp_policy.defs hp_policy_list.defs

text \<open>The ones that hold nothing of \<open>k8s.io\<close> keep the contract as they are.\<close>

interpretation node_status_copy: copier NodeStatus_DeepCopyInto plain_view
  by (simp add: NodeStatus_DeepCopyInto_plain copier_plain)

interpretation port_copy: copier Port_DeepCopyInto port_view
  unfolding Port_DeepCopyInto_struct port_view_def
  by (intro copier_intros) (auto simp: make_defs)

interpretation status_copy: copier Status_DeepCopyInto status_view
  unfolding Status_DeepCopyInto_struct status_view_def
  by (intro copier_intros) (auto simp: make_defs)

text \<open>The others keep it where the deep copies of \<open>k8s.io\<close> do.\<close>

lemma copier_Peer: "ext_ok L E \<Longrightarrow> copier (Peer_DeepCopyInto L) (peer_view E)"
  unfolding Peer_DeepCopyInto_struct peer_view_def
  by (intro copier_intros) (auto simp: make_defs ext_ok_def)

lemma copier_IngressRule: "ext_ok L E \<Longrightarrow> copier (IngressRule_DeepCopyInto L) (ingress_view E)"
  unfolding IngressRule_DeepCopyInto_struct ingress_view_def
  by (intro copier_intros copier_Peer port_copy.copier_axioms) (auto simp: make_defs)

lemma copier_EgressRule: "ext_ok L E \<Longrightarrow> copier (EgressRule_DeepCopyInto L) (egress_view E)"
  unfolding EgressRule_DeepCopyInto_struct egress_view_def
  by (intro copier_intros copier_Peer port_copy.copier_axioms) (auto simp: make_defs)

lemma copier_Spec: "ext_ok L E \<Longrightarrow> copier (Spec_DeepCopyInto L) (spec_view E)"
  unfolding Spec_DeepCopyInto_struct spec_view_def
  by (intro copier_intros copier_IngressRule copier_EgressRule) (auto simp: make_defs ext_ok_def)

lemma copier_Policy: "ext_ok L E \<Longrightarrow> copier (Policy_DeepCopyInto L) (policy_view E)"
  unfolding Policy_DeepCopyInto_struct policy_view_def
  by (intro copier_intros copier_Spec status_copy.copier_axioms) (auto simp: make_defs ext_ok_def)

lemma copier_PolicyList: "ext_ok L E \<Longrightarrow> copier (PolicyList_DeepCopyInto L) (list_view E)"
  unfolding PolicyList_DeepCopyInto_struct list_view_def
  by (intro copier_intros copier_Policy) (auto simp: make_defs ext_ok_def)

abbreviation "policy_ptr E \<equiv> ptr_view arr_policies (policy_view E)"
abbreviation "list_ptr E \<equiv> ptr_view arr_policy_lists (list_view E)"

lemma copier_Policy_DeepCopy: "ext_ok L E \<Longrightarrow> copier (Policy_DeepCopy L) (policy_ptr E)"
  unfolding Policy_DeepCopy_def by (intro copier_intros copier_Policy) simp_all

lemma copier_PolicyList_DeepCopy: "ext_ok L E \<Longrightarrow> copier (PolicyList_DeepCopy L) (list_ptr E)"
  unfolding PolicyList_DeepCopy_def by (intro copier_intros copier_PolicyList) simp_all

section \<open>A host for the deep copies of k8s.io\<close>

text \<open>
  One way to have the contract: an \<open>ObjectMeta\<close> of a name, a generation and a slice of finalizers, a
  selector and a \<open>ListMeta\<close> of a string, an \<open>IPBlock\<close> of a CIDR and its exceptions.
\<close>

type_synonym sample_meta = "string \<times> int \<times> go_slice option"
type_synonym sample_block = "string \<times> go_slice option"
type_synonym sample_cell = "(sample_meta, string, sample_block, string, string) cell"

definition sample_ext :: "(sample_meta, string, sample_block, string, string) ext" where
  "sample_ext =
     \<lparr>ObjectMeta_DeepCopyInto = copy_pair copy_plain (copy_pair copy_plain (copy_slice copy_plain arr_exts CExt [])),
      ObjectMeta_zero = ([], 0, None),
      LabelSelector_DeepCopyInto = copy_plain, LabelSelector_zero = [],
      IPBlock_DeepCopyInto = copy_pair copy_plain (copy_slice copy_plain arr_exts CExt []), IPBlock_zero = ([], None),
      ListMeta_DeepCopyInto = copy_plain, ListMeta_zero = []\<rparr>"

definition sample_view ::
  "(sample_meta, string, sample_block, string, string, string \<times> int \<times> string list option, string, string \<times> string list option, string) ext_view" where
  "sample_view =
     \<lparr>ev_ObjectMeta = pair_view plain_view (pair_view plain_view (slice_view arr_exts plain_view)),
      ev_LabelSelector = plain_view,
      ev_IPBlock = pair_view plain_view (slice_view arr_exts plain_view),
      ev_ListMeta = plain_view\<rparr>"

lemma sample_ext_ok: "ext_ok sample_ext sample_view"
  unfolding ext_ok_def sample_ext_def sample_view_def by (simp add: copier_intros)

text \<open>A list of one policy, which accepts TCP to 443 from 10.0.0.0/8 less 10.1.0.0/16.\<close>

definition ex_heap :: "sample_cell list" where
  "ex_heap =
     [CLists [\<lparr>hp_list_TypeMeta = \<lparr>tm_Kind = ''L'', tm_APIVersion = ''v1''\<rparr>, hp_ListMeta = ''7'',
        hp_Items = Some \<lparr>sl_at = 1, sl_off = 0, sl_len = 1\<rparr>\<rparr>],
      CPolicies [\<lparr>hp_TypeMeta = \<lparr>tm_Kind = ''P'', tm_APIVersion = ''v1''\<rparr>,
        hp_ObjectMeta = (''web'', 3, Some \<lparr>sl_at = 6, sl_off = 0, sl_len = 1\<rparr>),
        hp_Spec = \<lparr>hp_Mode = ModeEnforce, hp_NodeSelector = ''all'',
          hp_PolicyTypes = Some \<lparr>sl_at = 2, sl_off = 0, sl_len = 1\<rparr>,
          hp_Ingress = Some \<lparr>sl_at = 3, sl_off = 0, sl_len = 1\<rparr>, hp_Egress = None\<rparr>,
        hp_Status = \<lparr>hp_Nodes = None\<rparr>\<rparr>],
      CTypes [PolicyTypeIngress],
      CIngress [\<lparr>hp_From = Some \<lparr>sl_at = 4, sl_off = 0, sl_len = 1\<rparr>, hp_ingress_Ports = Some \<lparr>sl_at = 5, sl_off = 0, sl_len = 1\<rparr>\<rparr>],
      CPeers [\<lparr>hp_IPBlock = Some (7, 0)\<rparr>],
      CPorts [\<lparr>hp_Protocol = ''TCP'', hp_Port = Some (8, 0), hp_EndPort = None\<rparr>],
      CExt [''hold''],
      CBlocks [(''10.0.0.0/8'', Some \<lparr>sl_at = 9, sl_off = 0, sl_len = 1\<rparr>)],
      CInts [443],
      CExt [''10.1.0.0/16'']]"

definition
  "ex_list =
     Some (\<lparr>tm_Kind = ''L'', tm_APIVersion = ''v1''\<rparr>, ''7'',
       Some [(\<lparr>tm_Kind = ''P'', tm_APIVersion = ''v1''\<rparr>, (''web'', 3 :: int, Some [''hold'']),
         (ModeEnforce, ''all'', Some [PolicyTypeIngress],
           Some [(Some [Some (''10.0.0.0/8'', Some [''10.1.0.0/16''])], Some [(''TCP'', Some (443 :: int), None :: int option)])],
           None :: ((string \<times> string list option) option list option \<times> (string \<times> int option \<times> int option) list option) list option),
         None :: nnp_node_status list option)])"

lemmas api_views = peer_view_def port_view_def ingress_view_def egress_view_def spec_view_def status_view_def
  policy_view_def list_view_def sample_view_def

lemma ex_heap_valid:
  "valid (list_ptr sample_view) ex_heap (Some (0, 0))" "valid (policy_ptr sample_view) ex_heap (Some (1, 0))"
  by (simp_all add: api_views view_defs ex_heap_def slice_elems_def deref_def)

section \<open>A copy shares nothing\<close>

text \<open>
  C20: \<open>DeepCopyObject\<close> of a list of policies, down to the addresses, ports and exceptions of their
  rules: the copy is a list that says the same. Whatever is then written to any cell the copy
  reaches, every list there was before, the original among them, says what it said; and whatever is
  written to a cell the original reaches, the copy does. Of \<open>nil\<close> it is \<open>nil\<close>.
\<close>

theorem PolicyList_DeepCopyObject_independent:
  assumes "ext_ok L E" "valid (list_ptr E) H (Some p)"
  shows "(\<exists>q H'. PolicyList_DeepCopyObject L (Some p) H = (Some (PolicyListObject q), H') \<and>
      valid (list_ptr E) H' (Some q) \<and> reads (list_ptr E) H' (Some q) = reads (list_ptr E) H (Some p) \<and>
      (\<forall>H'' r. only_writes (reach (list_ptr E) H' (Some q)) H' H'' \<and> valid (list_ptr E) H r \<longrightarrow>
         reads (list_ptr E) H'' r = reads (list_ptr E) H r) \<and>
      (\<forall>H''. only_writes (reach (list_ptr E) H (Some p)) H' H'' \<longrightarrow>
         reads (list_ptr E) H'' (Some q) = reads (list_ptr E) H (Some p))) \<and>
    PolicyList_DeepCopyObject L None H = (None, H)"
proof -
  obtain q H' where c: "PolicyList_DeepCopy L (Some p) H = (Some q, H')"
    by (simp add: PolicyList_DeepCopy_def copy_ptr_def)
  note C = copier_PolicyList_DeepCopy [OF assms(1)]
  have "PolicyList_DeepCopyObject L (Some p) H = (Some (PolicyListObject q), H')"
    using c by (simp add: PolicyList_DeepCopyObject_def)
  moreover have "PolicyList_DeepCopyObject L None H = (None, H)"
    by (simp add: PolicyList_DeepCopyObject_def PolicyList_DeepCopy_def copy_ptr_def)
  ultimately show ?thesis
    using copier.copies [OF C assms(2) c] copier.copy_independent [OF C assms(2) c] by blast
qed

text \<open>The list of one policy: the cell of the copy is overwritten, and the original still says what it said.\<close>

theorem PolicyList_DeepCopyObject_independent_witness:
  "\<exists>q H'. PolicyList_DeepCopyObject sample_ext (Some (0, 0)) ex_heap = (Some (PolicyListObject q), H') \<and>
     reads (list_ptr sample_view) H' (Some q) = ex_list \<and>
     reads (list_ptr sample_view) (H'[fst q := CLists []]) (Some (0, 0)) = ex_list"
proof -
  obtain q H' where q: "PolicyList_DeepCopyObject sample_ext (Some (0, 0)) ex_heap = (Some (PolicyListObject q), H')"
    and r: "reads (list_ptr sample_view) H' (Some q) = reads (list_ptr sample_view) ex_heap (Some (0, 0))"
    and w: "\<And>H''. only_writes (reach (list_ptr sample_view) H' (Some q)) H' H'' \<Longrightarrow>
      reads (list_ptr sample_view) H'' (Some (0, 0)) = reads (list_ptr sample_view) ex_heap (Some (0, 0))"
    using PolicyList_DeepCopyObject_independent [OF sample_ext_ok ex_heap_valid(1)] ex_heap_valid(1) by blast
  have o: "reads (list_ptr sample_view) ex_heap (Some (0, 0)) = ex_list"
    by (simp add: api_views view_defs ex_heap_def ex_list_def deref_def slice_elems_def)
  have "only_writes (reach (list_ptr sample_view) H' (Some q)) H' (H'[fst q := CLists []])"
    by (auto simp: only_writes_def agree_def view_defs)
  from w [OF this] show ?thesis using q r o by auto
qed

end
