(* ===== verification/Netip.thy ===== *)
theory Netip
  imports Cni_Prelude
begin

text \<open>
  The part of Go's \<open>net/netip\<close> the program works with: addresses and prefixes as
  values, their families, their order, their masking and the text they print as. The
  text is what the renderers write into the table, so the lemmas here that printing is
  injective are what lets a statement about addresses be read off a table of strings.
\<close>

section \<open>Addresses\<close>

text \<open>
  \<open>netip.Addr\<close>: the zero value, an IPv4 address, or an IPv6 address with a zone, which is
  empty when there is none. An IPv4-mapped IPv6 address is an IPv6 address until
  \<open>Unmap\<close> is called on it.
\<close>

datatype addr = AddrZero | Addr4 "32 word" | Addr6 "128 word" string

fun Is4 :: "addr \<Rightarrow> bool" where
  "Is4 (Addr4 _) = True"
| "Is4 _ = False"

fun Is6 :: "addr \<Rightarrow> bool" where
  "Is6 (Addr6 _ _) = True"
| "Is6 _ = False"

definition Addr_IsValid :: "addr \<Rightarrow> bool" where
  "Addr_IsValid a \<longleftrightarrow> a \<noteq> AddrZero"

fun BitLen :: "addr \<Rightarrow> nat" where
  "BitLen AddrZero = 0"
| "BitLen (Addr4 _) = 32"
| "BitLen (Addr6 _ _) = 128"

fun Is4In6 :: "addr \<Rightarrow> bool" where
  "Is4In6 (Addr6 w _) = (drop_bit 32 w = 0xFFFF)"
| "Is4In6 _ = False"

fun Unmap :: "addr \<Rightarrow> addr" where
  "Unmap (Addr6 w z) = (if drop_bit 32 w = 0xFFFF then Addr4 (ucast w) else Addr6 w z)"
| "Unmap a = a"

fun withoutZone :: "addr \<Rightarrow> addr" where
  "withoutZone (Addr6 w _) = Addr6 w []"
| "withoutZone a = a"

text \<open>\<open>Addr.Compare\<close>: by bit length, then by value, then by zone.\<close>

fun addr_key :: "addr \<Rightarrow> nat \<times> nat \<times> string" where
  "addr_key AddrZero = (0, 0, [])"
| "addr_key (Addr4 w) = (32, unat w, [])"
| "addr_key (Addr6 w z) = (128, unat w, z)"

lemma addr_key_inj: "addr_key a = addr_key b \<longleftrightarrow> a = b"
  by (cases a; cases b) (auto dest: unsigned_word_eqI)

instantiation addr :: linorder
begin

definition less_eq_addr :: "addr \<Rightarrow> addr \<Rightarrow> bool" where
  "less_eq_addr a b \<longleftrightarrow> addr_key a \<le> addr_key b"

definition less_addr :: "addr \<Rightarrow> addr \<Rightarrow> bool" where
  "less_addr a b \<longleftrightarrow> addr_key a < addr_key b"

instance
  by standard (auto simp: less_eq_addr_def less_addr_def addr_key_inj order_less_le)

end

section \<open>The text of an address\<close>

text \<open>The \<open>k\<close> digits of a number in base \<open>B\<close>, the most significant first.\<close>

definition fields :: "nat \<Rightarrow> nat \<Rightarrow> nat \<Rightarrow> nat list" where
  "fields B k n = map (\<lambda>i. n div B ^ (k - 1 - i) mod B) [0..<k]"

lemma length_fields [simp]: "length (fields B k n) = k"
  by (simp add: fields_def)

lemma fields_Suc: "fields B (Suc k) n = fields B k (n div B) @ [n mod B]"
proof -
  have "n div B ^ (k - i) mod B = n div B div B ^ (k - 1 - i) mod B" if "i < k" for i
    using that by (simp add: div_mult2_eq [symmetric] Suc_diff_Suc flip: power_Suc)
  then show ?thesis by (simp add: fields_def)
qed

lemma fields_inj:
  assumes "0 < B" "m < B ^ k" "n < B ^ k" "fields B k m = fields B k n"
  shows "m = n"
  using assms
proof (induction k arbitrary: m n)
  case (Suc k)
  then have "fields B k (m div B) = fields B k (n div B)" and md: "m mod B = n mod B"
    by (simp_all add: fields_Suc)
  moreover have "m div B < B ^ k" "n div B < B ^ k"
    using Suc.prems by (simp_all add: less_mult_imp_div_less mult.commute)
  ultimately have "m div B = n div B" using Suc by blast
  with md show ?case by (metis mod_div_mult_eq)
qed simp

lemma fields_less: "0 < B \<Longrightarrow> x \<in> set (fields B k n) \<Longrightarrow> x < B"
  by (auto simp: fields_def)

definition string4 :: "32 word \<Rightarrow> string" where
  "string4 w = join ''.'' (map itoa (fields 256 4 (unat w)))"

text \<open>
  The loop of \<open>appendTo6\<close> that looks for the longest run of at least two zero groups;
  \<open>(255, 255)\<close> is no run.
\<close>

definition zero_run :: "nat list \<Rightarrow> nat \<Rightarrow> nat" where
  "zero_run gs i = length (takeWhile (\<lambda>g. g = 0) (drop i gs))"

definition longest_run :: "nat list \<Rightarrow> nat \<times> nat" where
  "longest_run gs =
     foldl (\<lambda>(zs, ze) i. let l = zero_run gs i
                        in if 2 \<le> l \<and> ze - zs < l then (i, i + l) else (zs, ze))
       (255, 255) [0..<8]"

definition hexes :: "nat list \<Rightarrow> string list" where
  "hexes = map (radix 16)"

definition string6_groups :: "nat list \<Rightarrow> string" where
  "string6_groups gs =
     (let (zs, ze) = longest_run gs
      in if zs < 8
         then join '':'' (hexes (take zs gs)) @ ''::'' @ join '':'' (hexes (drop ze gs))
         else join '':'' (hexes gs))"

definition string6 :: "128 word \<Rightarrow> string" where
  "string6 w = string6_groups (fields 65536 8 (unat w))"

definition zone_suffix :: "string \<Rightarrow> string" where
  "zone_suffix z = (if z = [] then [] else ''%'' @ z)"

text \<open>\<open>Addr.String\<close>.\<close>

fun Addr_String :: "addr \<Rightarrow> string" where
  "Addr_String AddrZero = ''invalid IP''"
| "Addr_String (Addr4 w) = string4 w"
| "Addr_String (Addr6 w z) =
     (if drop_bit 32 w = 0xFFFF then ''::ffff:'' @ string4 (ucast w) @ zone_suffix z
      else string6 w @ zone_suffix z)"

section \<open>Prefixes\<close>

text \<open>
  \<open>netip.Prefix\<close>: an address and a length; the length \<open>-1\<close> is what \<open>Bits\<close> says of a
  prefix that is not valid.
\<close>

datatype prefix = Prefix (Prefix_Addr: addr) (Bits: int)

definition prefix_zero :: prefix where
  "prefix_zero = Prefix AddrZero (-1)"

definition PrefixFrom :: "addr \<Rightarrow> int \<Rightarrow> prefix" where
  "PrefixFrom a b =
     Prefix (withoutZone a) (if a \<noteq> AddrZero \<and> 0 \<le> b \<and> b \<le> int (BitLen a) then b else -1)"

definition Prefix_IsValid :: "prefix \<Rightarrow> bool" where
  "Prefix_IsValid p \<longleftrightarrow> 0 \<le> Bits p"

fun mask_addr :: "nat \<Rightarrow> addr \<Rightarrow> addr" where
  "mask_addr b AddrZero = AddrZero"
| "mask_addr b (Addr4 w) = Addr4 (push_bit (32 - b) (drop_bit (32 - b) w))"
| "mask_addr b (Addr6 w z) = Addr6 (push_bit (128 - b) (drop_bit (128 - b) w)) []"

text \<open>\<open>Prefix.Masked\<close>: the zero prefix where \<open>Addr.Prefix\<close> fails.\<close>

definition Masked :: "prefix \<Rightarrow> prefix" where
  "Masked p =
     (let a = Prefix_Addr p; b = Bits p
      in if b < 0 \<or> a = AddrZero \<or> int (BitLen a) < b then prefix_zero
         else PrefixFrom (mask_addr (nat b) a) b)"

definition Prefix_String :: "prefix \<Rightarrow> string" where
  "Prefix_String p =
     (if Prefix_IsValid p then Addr_String (Prefix_Addr p) @ ''/'' @ itoa (nat (Bits p))
      else ''invalid Prefix'')"

text \<open>\<open>Prefix.Contains\<close>: an address without a zone, of the same family, whose leading bits agree.\<close>

definition Contains :: "prefix \<Rightarrow> addr \<Rightarrow> bool" where
  "Contains p a \<longleftrightarrow>
     Prefix_IsValid p \<and> withoutZone a = a \<and> a \<noteq> AddrZero \<and> BitLen (Prefix_Addr p) = BitLen a \<and>
     mask_addr (nat (Bits p)) (Prefix_Addr p) = mask_addr (nat (Bits p)) a"

text \<open>
  A value \<open>netip.PrefixFrom\<close> or \<open>netip.ParsePrefix\<close> can have returned: the address
  carries no zone and the length fits it.
\<close>

definition wf_prefix :: "prefix \<Rightarrow> bool" where
  "wf_prefix p \<longleftrightarrow> withoutZone (Prefix_Addr p) = Prefix_Addr p \<and>
     (0 \<le> Bits p \<longrightarrow> Prefix_Addr p \<noteq> AddrZero \<and> Bits p \<le> int (BitLen (Prefix_Addr p)))"

section \<open>Printing is injective\<close>

lemma zero_run_all_zero: "j < zero_run gs i \<Longrightarrow> gs ! (i + j) = 0"
proof -
  assume j: "j < zero_run gs i"
  then have "takeWhile (\<lambda>g. g = 0) (drop i gs) ! j = 0"
    unfolding zero_run_def by (meson nth_mem set_takeWhileD)
  moreover have "i + j < length gs"
    using j length_takeWhile_le [of "\<lambda>g. g = 0" "drop i gs"] by (auto simp: zero_run_def)
  ultimately show ?thesis using j by (simp add: zero_run_def takeWhile_nth)
qed

lemma zero_run_bound: "i \<le> length gs \<Longrightarrow> i + zero_run gs i \<le> length gs"
  using length_takeWhile_le [of "\<lambda>g. g = 0" "drop i gs"] by (simp add: zero_run_def)

text \<open>The run that is cut out is inside the address and holds zero groups only.\<close>

definition good_run :: "nat list \<Rightarrow> nat \<times> nat \<Rightarrow> bool" where
  "good_run gs = (\<lambda>(zs, ze). zs \<le> ze \<and> (zs < 8 \<longrightarrow> ze \<le> length gs \<and> (\<forall>i. zs \<le> i \<and> i < ze \<longrightarrow> gs ! i = 0)))"

lemma foldl_invariant:
  "P s \<Longrightarrow> (\<And>s x. x \<in> set xs \<Longrightarrow> P s \<Longrightarrow> P (f s x)) \<Longrightarrow> P (foldl f s xs)"
  by (induction xs arbitrary: s) auto

lemma longest_run_good:
  assumes "length gs = 8"
  shows "good_run gs (longest_run gs)"
  unfolding longest_run_def
proof (rule foldl_invariant)
  fix s :: "nat \<times> nat" and i :: nat
  assume i: "i \<in> set [0..<8]" and s: "good_run gs s"
  have "good_run gs (i, i + zero_run gs i)"
    using i assms zero_run_bound [of i gs] zero_run_all_zero [of _ gs i]
    by (auto simp: good_run_def dest!: le_Suc_ex)
  with s show "good_run gs ((\<lambda>(zs, ze) i. let l = zero_run gs i
      in if 2 \<le> l \<and> ze - zs < l then (i, i + l) else (zs, ze)) s i)"
    by (auto simp: Let_def split: prod.splits)
qed (simp add: good_run_def)

text \<open>Reading the groups back: the groups before the gap, zeros, the groups after it.\<close>

definition ungap :: "string list \<Rightarrow> string list" where
  "ungap fs =
     (if [] \<in> set fs then
        let h = takeWhile (\<lambda>f. f \<noteq> []) fs; t = rev (takeWhile (\<lambda>f. f \<noteq> []) (rev fs))
        in h @ replicate (8 - length h - length t) (radix 16 0) @ t
      else fs)"

lemma hexes_no_Nil: "[] \<notin> set (hexes gs)"
  by (auto simp: hexes_def dest: sym)

lemma hex_chars: "x \<in> set (hexes gs) \<Longrightarrow> set x \<subseteq> set hexdigits"
  using radix_set [of 16] by (fastforce simp: hexes_def hexdigits_def)

lemma hex_no_colon: "x \<in> set (hexes gs) \<Longrightarrow> CHR '':'' \<notin> set x"
  using hex_chars [of x gs] by (auto simp: hexdigits_def)

lemma split_on_hexes:
  "split_on CHR '':'' (join '':'' (hexes gs)) = (if gs = [] then [[]] else hexes gs)"
proof (cases "gs = []")
  case False
  then have "hexes gs \<noteq> []" by (simp add: hexes_def)
  with False show ?thesis by (simp add: split_on_join hex_no_colon)
qed (simp add: hexes_def)

lemma split_on_gap:
  "split_on CHR '':'' (join '':'' (hexes as) @ CHR '':'' # CHR '':'' # join '':'' (hexes bs)) =
     (if as = [] then [[]] else hexes as) @ [[]] @ (if bs = [] then [[]] else hexes bs)"
  using split_on_append [of "CHR '':''" "join '':'' (hexes as)" "CHR '':'' # join '':'' (hexes bs)"]
  by (simp add: split_on_hexes)

lemma takeWhile_hexes: "takeWhile (\<lambda>f. f \<noteq> []) (hexes gs @ [] # r) = hexes gs"
  using hexes_no_Nil [of gs] by (subst takeWhile_append2) auto

lemma rev_hexes: "rev (hexes gs) = hexes (rev gs)"
  by (simp add: hexes_def rev_map)

lemma ungap_split_gap:
  "ungap ((if as = [] then [[]] else hexes as) @ [[]] @ (if bs = [] then [[]] else hexes bs)) =
     hexes as @ replicate (8 - length as - length bs) (radix 16 0) @ hexes bs"
proof -
  have "takeWhile (\<lambda>f. f \<noteq> []) (hexes as @ [] # r) = hexes as" for r
    by (rule takeWhile_hexes)
  moreover have "takeWhile (\<lambda>f. f \<noteq> []) (rev (hexes bs) @ [] # r) = rev (hexes bs)" for r
    unfolding rev_hexes by (rule takeWhile_hexes)
  ultimately show ?thesis
    by (auto simp: ungap_def Let_def hexes_def)
qed

lemma zeros_replicate:
  assumes "zs \<le> ze" "ze \<le> length gs" "\<forall>i. zs \<le> i \<and> i < ze \<longrightarrow> gs ! i = 0"
  shows "gs = take zs gs @ replicate (ze - zs) 0 @ drop ze gs"
  using assms by (intro nth_equalityI) (auto simp: nth_append)

lemma ungap_string6:
  assumes "length gs = 8"
  shows "ungap (split_on CHR '':'' (string6_groups gs)) = hexes gs"
proof -
  obtain zs ze where run: "longest_run gs = (zs, ze)" by fastforce
  with longest_run_good [OF assms] have good: "good_run gs (zs, ze)" by simp
  show ?thesis
  proof (cases "zs < 8")
    case True
    with good have b: "zs \<le> ze" "ze \<le> 8" "\<forall>i. zs \<le> i \<and> i < ze \<longrightarrow> gs ! i = 0"
      using assms by (auto simp: good_run_def)
    have "hexes gs = hexes (take zs gs) @ replicate (ze - zs) (radix 16 0) @ hexes (drop ze gs)"
      using zeros_replicate [of zs ze gs] b assms
      by (metis (no_types) hexes_def map_append map_replicate)
    moreover have "8 - length (take zs gs) - length (drop ze gs) = ze - zs"
      using b assms by simp
    ultimately show ?thesis
      using True run ungap_split_gap [of "take zs gs" "drop ze gs"]
      by (simp add: string6_groups_def split_on_gap)
  next
    case False
    then show ?thesis
      using run assms hexes_no_Nil [of gs]
      by (auto simp: string6_groups_def split_on_hexes ungap_def)
  qed
qed

lemma string6_inj: "string6 v = string6 w \<longleftrightarrow> v = w"
proof
  assume "string6 v = string6 w"
  then have "hexes (fields 65536 8 (unat v)) = hexes (fields 65536 8 (unat w))"
    using ungap_string6 [of "fields 65536 8 (unat v)"] ungap_string6 [of "fields 65536 8 (unat w)"]
    by (simp add: string6_def)
  then have "fields 65536 8 (unat v) = fields 65536 8 (unat w)"
    by (simp add: hexes_def inj_map_eq_map inj_def radix_inj)
  then have "unat v = unat w"
    using unsigned_less [of v] unsigned_less [of w] by (intro fields_inj [of 65536 _ 8]) simp_all
  then show "v = w" by (rule unsigned_word_eqI)
qed simp

lemma string4_inj: "string4 v = string4 w \<longleftrightarrow> v = w"
proof
  assume "string4 v = string4 w"
  moreover have "fields 256 4 n \<noteq> []" for n by (simp add: fields_def upt_rec)
  ultimately have "map itoa (fields 256 4 (unat v)) = map itoa (fields 256 4 (unat w))"
    by (subst (asm) string4_def, subst (asm) string4_def, subst (asm) join_inj) (auto simp: itoa_no)
  then have "fields 256 4 (unat v) = fields 256 4 (unat w)"
    by (simp add: inj_map_eq_map inj_def)
  then have "unat v = unat w"
    using unsigned_less [of v] unsigned_less [of w] by (intro fields_inj [of 256 _ 4]) simp_all
  then show "v = w" by (rule unsigned_word_eqI)
qed simp

lemma string4_chars: "set (string4 w) \<subseteq> set ''.0123456789''"
  using set_join_subset [of "''.''" "map itoa (fields 256 4 (unat w))"] itoa_digits
  by (fastforce simp: string4_def)

lemma join_hexes_chars: "set (join '':'' (hexes gs)) \<subseteq> insert CHR '':'' (set hexdigits)"
  using set_join_subset [of "'':''" "hexes gs"] hex_chars [of _ gs] by fastforce

lemma string6_chars: "set (string6 w) \<subseteq> insert CHR '':'' (set hexdigits)"
  using join_hexes_chars
  by (auto simp: string6_def string6_groups_def Let_def split: prod.splits)

lemma join_has_sep: "1 < length xs \<Longrightarrow> c \<in> set (join [c] xs)"
  by (cases xs rule: list.exhaust, simp, rename_tac x ys, case_tac ys) auto

lemma string6_no_dot: "CHR ''.'' \<notin> set (string6 w)"
  using string6_chars [of w] by (auto simp: hexdigits_def)

lemma string6_colon: "CHR '':'' \<in> set (string6 w)"
  by (cases "longest_run (fields 65536 8 (unat w))")
    (simp add: string6_def string6_groups_def hexes_def join_has_sep)

text \<open>An address as it stands in a packet: valid, without a zone.\<close>

definition plain_addr :: "addr \<Rightarrow> bool" where
  "plain_addr a \<longleftrightarrow> a \<noteq> AddrZero \<and> withoutZone a = a"

lemma plain_addr_cases:
  assumes "plain_addr a"
  obtains w where "a = Addr4 w" | w where "a = Addr6 w []"
  using assms by (cases a) (auto simp: plain_addr_def)

lemma mapped_inj:
  fixes v w :: "128 word"
  assumes "drop_bit 32 v = drop_bit 32 w" and "(ucast v :: 32 word) = ucast w"
  shows "v = w"
proof -
  have "unat v mod 2 ^ 32 = unat w mod 2 ^ 32"
    using arg_cong [OF assms(2), of unat] by (simp add: unsigned_ucast_eq take_bit_eq_mod)
  moreover have "drop_bit 32 (unat v) = drop_bit 32 (unat w)"
    using assms(1) by (metis unat_drop_bit_eq)
  then have "unat v div 2 ^ 32 = unat w div 2 ^ 32"
    by (simp add: drop_bit_eq_div)
  ultimately have "unat v = unat w" by (metis div_mult_mod_eq)
  then show ?thesis by (rule unsigned_word_eqI)
qed

lemma Addr_String_v6_colon: "CHR '':'' \<in> set (Addr_String (Addr6 w z))"
  using string6_colon by simp

lemma Addr_String_v4_no_colon: "CHR '':'' \<notin> set (Addr_String (Addr4 w))"
  using string4_chars [of w] by auto

lemma string4_dot: "CHR ''.'' \<in> set (string4 w)"
  by (auto simp: string4_def intro!: join_has_sep)

lemma Addr_String_v6_inj: "Addr_String (Addr6 v []) = Addr_String (Addr6 w []) \<longleftrightarrow> v = w"
proof (cases "drop_bit 32 v = 0xFFFF \<longleftrightarrow> drop_bit 32 w = 0xFFFF")
  case True
  then show ?thesis using mapped_inj [of v w] by (auto simp: zone_suffix_def string6_inj string4_inj)
next
  case False
  have "CHR ''.'' \<in> set (Addr_String (Addr6 u [])) \<longleftrightarrow> drop_bit 32 u = 0xFFFF" for u
    using string6_no_dot [of u] string4_dot by (simp add: zone_suffix_def)
  with False show ?thesis by metis
qed

lemma Addr_String_inj:
  assumes "plain_addr a" "plain_addr b"
  shows "Addr_String a = Addr_String b \<longleftrightarrow> a = b"
  using assms Addr_String_v6_inj Addr_String_v6_colon Addr_String_v4_no_colon string4_inj
  by (elim plain_addr_cases) (metis Addr_String.simps(2) addr.inject)+

text \<open>The bytes an address or a prefix is written with: none that separates tokens in the table.\<close>

definition addr_chars :: "char set" where
  "addr_chars = set ''0123456789abcdef:.''"

lemma string4_addr_chars: "set (string4 w) \<subseteq> addr_chars"
proof -
  have "set ''.0123456789'' \<subseteq> addr_chars" by (simp add: addr_chars_def)
  with string4_chars show ?thesis by (rule order_trans)
qed

lemma string6_addr_chars: "set (string6 w) \<subseteq> addr_chars"
proof -
  have "insert CHR '':'' (set hexdigits) \<subseteq> addr_chars" by (simp add: addr_chars_def hexdigits_def)
  with string6_chars show ?thesis by (rule order_trans)
qed

lemma Addr_String_chars: "plain_addr a \<Longrightarrow> set (Addr_String a) \<subseteq> addr_chars"
proof (elim plain_addr_cases)
  fix w assume "a = Addr4 w"
  then show ?thesis using string4_addr_chars by simp
next
  fix w assume "a = Addr6 w []"
  then show ?thesis using string4_addr_chars string6_addr_chars
    by (simp add: zone_suffix_def) (simp add: addr_chars_def)
qed

lemma Addr_String_not_Nil: "Addr_String a \<noteq> []"
proof (cases a)
  case (Addr4 w)
  then show ?thesis using string4_dot [of w] by auto
next
  case (Addr6 w z)
  then show ?thesis using Addr_String_v6_colon [of w z] by force
qed simp

lemma Prefix_String_inj:
  assumes "wf_prefix p" "Prefix_IsValid p" "wf_prefix q" "Prefix_IsValid q"
  shows "Prefix_String p = Prefix_String q \<longleftrightarrow> p = q"
proof
  assume eq: "Prefix_String p = Prefix_String q"
  have pl: "plain_addr (Prefix_Addr p)" "plain_addr (Prefix_Addr q)"
    using assms by (auto simp: wf_prefix_def plain_addr_def Prefix_IsValid_def)
  have no: "CHR ''/'' \<notin> set (Addr_String (Prefix_Addr r))" if "plain_addr (Prefix_Addr r)" for r
    using Addr_String_chars [OF that] by (auto simp: addr_chars_def)
  have split: "split_on CHR ''/'' (Prefix_String r) = [Addr_String (Prefix_Addr r), itoa (nat (Bits r))]"
    if "plain_addr (Prefix_Addr r)" "Prefix_IsValid r" for r
    using that no [of r] by (simp add: Prefix_String_def split_on_append_sep split_on_none itoa_no)
  have "Addr_String (Prefix_Addr p) = Addr_String (Prefix_Addr q)" "nat (Bits p) = nat (Bits q)"
    using eq split [of p] split [of q] pl assms by auto
  then show "p = q"
    using pl assms by (intro prefix.expand) (auto simp: Addr_String_inj Prefix_IsValid_def)
qed simp

lemma Prefix_String_chars:
  assumes "wf_prefix p" "Prefix_IsValid p"
  shows "set (Prefix_String p) \<subseteq> insert CHR ''/'' addr_chars"
proof -
  have "plain_addr (Prefix_Addr p)"
    using assms by (auto simp: wf_prefix_def plain_addr_def Prefix_IsValid_def)
  from Addr_String_chars [OF this] show ?thesis
    using assms itoa_digits by (fastforce simp: Prefix_String_def addr_chars_def)
qed

section \<open>Masking\<close>

lemma clear_low_idem:
  "push_bit n (drop_bit n (push_bit n (drop_bit n w))) = push_bit n (drop_bit n (w :: 'a::len word))"
  by (rule bit_word_eqI) (auto simp: bit_simps)

lemma mask_addr_idem [simp]: "mask_addr n (mask_addr n a) = mask_addr n a"
  by (cases a) (simp_all add: clear_low_idem)

lemma mask_addr_facts [simp]:
  "BitLen (mask_addr n a) = BitLen a" "mask_addr n a = AddrZero \<longleftrightarrow> a = AddrZero"
  "withoutZone (mask_addr n a) = mask_addr n a" "Is4 (mask_addr n a) = Is4 a" "Is6 (mask_addr n a) = Is6 a"
  by (cases a; simp)+

lemma Masked_wf [simp]: "wf_prefix (Masked p)"
  by (auto simp: Masked_def wf_prefix_def PrefixFrom_def prefix_zero_def Let_def)

lemma PrefixFrom_wf [simp]: "wf_prefix (PrefixFrom a b)"
  by (cases a) (auto simp: wf_prefix_def PrefixFrom_def)

lemma Masked_valid:
  assumes "wf_prefix p" "Prefix_IsValid p"
  shows "Masked p = Prefix (mask_addr (nat (Bits p)) (Prefix_Addr p)) (Bits p)"
  using assms by (auto simp: Masked_def wf_prefix_def PrefixFrom_def Prefix_IsValid_def Let_def)

lemma Masked_idem:
  assumes "wf_prefix p" "Prefix_IsValid p"
  shows "Masked (Masked p) = Masked p" "Prefix_IsValid (Masked p)" "Prefix_Addr (Masked p) \<noteq> AddrZero"
    "Is4 (Prefix_Addr (Masked p)) = Is4 (Prefix_Addr p)" "Is6 (Prefix_Addr (Masked p)) = Is6 (Prefix_Addr p)"
proof -
  have v: "Prefix_IsValid (Masked p)"
    using assms by (simp add: Masked_valid Prefix_IsValid_def)
  then show "Masked (Masked p) = Masked p"
    using Masked_valid [OF Masked_wf v] Masked_valid [OF assms] by simp
  show "Prefix_Addr (Masked p) \<noteq> AddrZero"
    using assms by (auto simp: Masked_valid wf_prefix_def Prefix_IsValid_def)
qed (use assms in \<open>simp_all add: Masked_valid Prefix_IsValid_def\<close>)

text \<open>A masked prefix is the masking of any address it contains.\<close>

lemma Contains_masked:
  assumes "wf_prefix p" "Prefix_IsValid p" "Masked p = p" "plain_addr a"
  shows "Contains p a \<longleftrightarrow> (\<exists>n \<le> BitLen a. p = Masked (Prefix a (int n)))"
proof
  assume c: "Contains p a"
  have "p = Masked (Prefix a (Bits p))"
    using c assms Masked_valid [OF assms(1,2)]
    by (auto simp: Contains_def Masked_def PrefixFrom_def wf_prefix_def Prefix_IsValid_def plain_addr_def
        Let_def prefix.expand)
  moreover have "nat (Bits p) \<le> BitLen a" "int (nat (Bits p)) = Bits p"
    using c assms by (auto simp: Contains_def wf_prefix_def Prefix_IsValid_def)
  ultimately show "\<exists>n \<le> BitLen a. p = Masked (Prefix a (int n))" by metis
next
  assume "\<exists>n \<le> BitLen a. p = Masked (Prefix a (int n))"
  then show "Contains p a" using assms
    by (auto simp: Contains_def Masked_def PrefixFrom_def Prefix_IsValid_def plain_addr_def Let_def)
qed

end
