(* ===== verification/Nft_Model.thy ===== *)
theory Nft_Model
  imports Netip
begin

text \<open>
  The table as a value: \<open>internal/nftables/ruleset.go\<close> (the types and the text handed to
  \<^verbatim>\<open>nft -f\<close>) and \<open>internal/nftables/model.go\<close> (the accessors the policy renderers add to
  the table with). The locale \<open>named_table\<close> is the contract of the accessors, what a lookup
  returns after an append or a write through the pointer; it is interpreted for the sets and
  for the chains, and the renderers' proofs use it.
\<close>

section \<open>Types\<close>

record nft_set =
  set_Name :: string
  set_Type :: string
  set_Flags :: "string list"
  set_Elements :: "string list"
  set_Comment :: string

record base_chain =
  base_Type :: string
  base_Hook :: string
  base_Priority :: string
  base_Policy :: string

record nft_rule =
  rule_Match :: string
  rule_Verdict :: string
  rule_Comment :: string

record nft_chain =
  chain_Name :: string
  chain_Base :: "base_chain option"
  chain_Rules :: "nft_rule list"
  chain_Comment :: string

record ruleset =
  rs_Sets :: "nft_set list"
  rs_Chains :: "nft_chain list"

definition TableFamily :: string where "TableFamily = ''inet''"
definition TableName :: string where "TableName = ''cnidaria''"

section \<open>Accessors\<close>

text \<open>
  \<open>Ruleset.Set\<close> and \<open>Ruleset.Chain\<close> return a pointer to the first set or chain of that
  name. A write through the pointer is \<open>with_set\<close> or \<open>with_chain\<close>: the same search,
  with the element it finds changed in place.
\<close>

definition Ruleset_Set :: "ruleset \<Rightarrow> string \<Rightarrow> nft_set option" where
  "Ruleset_Set r name = find (\<lambda>s. set_Name s = name) (rs_Sets r)"

definition Ruleset_Chain :: "ruleset \<Rightarrow> string \<Rightarrow> nft_chain option" where
  "Ruleset_Chain r name = find (\<lambda>c. chain_Name c = name) (rs_Chains r)"

fun update_first :: "('a \<Rightarrow> bool) \<Rightarrow> ('a \<Rightarrow> 'a) \<Rightarrow> 'a list \<Rightarrow> 'a list" where
  "update_first P f [] = []"
| "update_first P f (x # xs) = (if P x then f x # xs else x # update_first P f xs)"

definition with_set :: "string \<Rightarrow> (nft_set \<Rightarrow> nft_set) \<Rightarrow> ruleset \<Rightarrow> ruleset" where
  "with_set name f r = r\<lparr>rs_Sets := update_first (\<lambda>s. set_Name s = name) f (rs_Sets r)\<rparr>"

definition with_chain :: "string \<Rightarrow> (nft_chain \<Rightarrow> nft_chain) \<Rightarrow> ruleset \<Rightarrow> ruleset" where
  "with_chain name f r = r\<lparr>rs_Chains := update_first (\<lambda>c. chain_Name c = name) f (rs_Chains r)\<rparr>"

text \<open>\<open>r.Sets = append(r.Sets, s)\<close> and \<open>r.Chains = append(r.Chains, c)\<close>.\<close>

definition add_set :: "nft_set \<Rightarrow> ruleset \<Rightarrow> ruleset" where
  "add_set s r = r\<lparr>rs_Sets := rs_Sets r @ [s]\<rparr>"

definition add_chain :: "nft_chain \<Rightarrow> ruleset \<Rightarrow> ruleset" where
  "add_chain c r = r\<lparr>rs_Chains := rs_Chains r @ [c]\<rparr>"

definition InsertBeforeLast :: "nft_rule list \<Rightarrow> nft_chain \<Rightarrow> nft_chain" where
  "InsertBeforeLast rules c =
     (if rules = [] then c
      else if chain_Rules c = [] then c\<lparr>chain_Rules := rules\<rparr>
      else c\<lparr>chain_Rules := butlast (chain_Rules c) @ rules @ [last (chain_Rules c)]\<rparr>)"

section \<open>Text\<close>

definition rulesetHeader :: string where
  "rulesetHeader =
     join NL
      [''# cnidaria's nftables table. Generated on every apply; edits here do not survive one.'',
       ''#'',
       ''# cnidaria owns this one table and nothing else in the ruleset, so the ruleset is never'',
       ''# flushed and no rule anybody else installed, kube-proxy's included, is touched'',
       ''# (ADR 0003). The two statements below add the table if it is not already there and'',
       ''# then remove it, so that the one that follows goes in whether or not a previous apply'',
       ''# left anything behind. nft runs the whole file as a single transaction, so the table'',
       ''# is never half replaced.'',
       '''', '''']"

definition commentMaxLen :: nat where "commentMaxLen = 128"

definition clipComment :: "string \<Rightarrow> string" where
  "clipComment comment =
     (if length comment \<le> commentMaxLen then comment
      else take (commentMaxLen - length ''...'') comment @ ''...'')"

definition Rule_String :: "nft_rule \<Rightarrow> string" where
  "Rule_String r =
     join '' ''
       ((if rule_Match r \<noteq> [] then [rule_Match r] else []) @ [''counter'', rule_Verdict r] @
        (if rule_Comment r \<noteq> [] then [''comment '' @ Quote (clipComment (rule_Comment r))] else []))"

definition Set_String :: "nft_set \<Rightarrow> string" where
  "Set_String s =
     (if set_Comment s \<noteq> [] then TAB @ ''# '' @ set_Comment s @ NL else []) @
     TAB @ ''set '' @ set_Name s @ '' {'' @ NL @ TAB @ TAB @ ''type '' @ set_Type s @ NL @
     (if set_Flags s \<noteq> [] then TAB @ TAB @ ''flags '' @ join '','' (set_Flags s) @ NL else []) @
     (if set_Elements s \<noteq> []
      then TAB @ TAB @ ''elements = { '' @ join '', '' (set_Elements s) @ '' }'' @ NL else []) @
     TAB @ ''}'' @ NL"

definition Base_String :: "base_chain \<Rightarrow> string" where
  "Base_String b =
     TAB @ TAB @ ''type '' @ base_Type b @ '' hook '' @ base_Hook b @ '' priority '' @
     base_Priority b @ ''; policy '' @ base_Policy b @ '';'' @ NL"

definition Chain_String :: "nft_chain \<Rightarrow> string" where
  "Chain_String c =
     (if chain_Comment c \<noteq> [] then TAB @ ''# '' @ chain_Comment c @ NL else []) @
     TAB @ ''chain '' @ chain_Name c @ '' {'' @ NL @
     (case chain_Base c of None \<Rightarrow> [] | Some b \<Rightarrow> Base_String b) @
     concat (map (\<lambda>r. TAB @ TAB @ Rule_String r @ NL) (chain_Rules c)) @
     TAB @ ''}'' @ NL"

definition Ruleset_String :: "ruleset \<Rightarrow> string" where
  "Ruleset_String r =
     rulesetHeader @
     ''table '' @ TableFamily @ '' '' @ TableName @ NL @
     ''delete table '' @ TableFamily @ '' '' @ TableName @ NL @ NL @
     ''table '' @ TableFamily @ '' '' @ TableName @ '' {'' @ NL @
     join NL (map Set_String (rs_Sets r) @ map Chain_String (rs_Chains r)) @
     ''}'' @ NL"

section \<open>Lookups\<close>

lemma find_append: "find P (xs @ ys) = (case find P xs of None \<Rightarrow> find P ys | Some x \<Rightarrow> Some x)"
  by (induction xs) auto

lemma find_update_first_same:
  "(\<And>x. P x \<Longrightarrow> P (f x)) \<Longrightarrow> find P (update_first P f xs) = map_option f (find P xs)"
  by (induction xs) auto

lemma find_update_first_other:
  "(\<And>x. P x \<Longrightarrow> \<not> Q x \<and> \<not> Q (f x)) \<Longrightarrow> find Q (update_first P f xs) = find Q xs"
  by (induction xs) auto

lemma map_update_first: "(\<And>x. P x \<Longrightarrow> g (f x) = g x) \<Longrightarrow> map g (update_first P f xs) = map g xs"
  by (induction xs) auto

lemma find_distinct:
  "distinct (map key xs) \<Longrightarrow> find (\<lambda>x. key x = k) xs = Some x \<longleftrightarrow> x \<in> set xs \<and> key x = k"
  by (induction xs) (auto simp: rev_image_eqI)

lemma find_None_key: "find (\<lambda>x. key x = k) xs = None \<longleftrightarrow> k \<notin> key ` set xs"
  by (auto simp: find_None_iff)

lemma Ruleset_Chain_add [simp]:
  "Ruleset_Chain (add_chain c r) n =
     (case Ruleset_Chain r n of None \<Rightarrow> if chain_Name c = n then Some c else None | Some c' \<Rightarrow> Some c')"
  by (auto simp: Ruleset_Chain_def add_chain_def find_append split: option.splits)

lemma Ruleset_Chain_add_set [simp]: "Ruleset_Chain (add_set s r) n = Ruleset_Chain r n"
  by (simp add: Ruleset_Chain_def add_set_def)

lemma Ruleset_Chain_with_set [simp]: "Ruleset_Chain (with_set m f r) n = Ruleset_Chain r n"
  by (simp add: Ruleset_Chain_def with_set_def)

lemma Ruleset_Chain_with_chain [simp]:
  "(\<And>c. chain_Name (f c) = chain_Name c) \<Longrightarrow>
     Ruleset_Chain (with_chain m f r) n = (if n = m then map_option f (Ruleset_Chain r n) else Ruleset_Chain r n)"
  by (auto simp: Ruleset_Chain_def with_chain_def find_update_first_same find_update_first_other)

lemma Ruleset_Set_add [simp]:
  "Ruleset_Set (add_set s r) n =
     (case Ruleset_Set r n of None \<Rightarrow> if set_Name s = n then Some s else None | Some s' \<Rightarrow> Some s')"
  by (auto simp: Ruleset_Set_def add_set_def find_append split: option.splits)

lemma Ruleset_Set_add_chain [simp]: "Ruleset_Set (add_chain c r) n = Ruleset_Set r n"
  by (simp add: Ruleset_Set_def add_chain_def)

lemma Ruleset_Set_with_chain [simp]: "Ruleset_Set (with_chain m f r) n = Ruleset_Set r n"
  by (simp add: Ruleset_Set_def with_chain_def)

lemma Ruleset_Set_with_set [simp]:
  "(\<And>s. set_Name (f s) = set_Name s) \<Longrightarrow>
     Ruleset_Set (with_set m f r) n = (if n = m then map_option f (Ruleset_Set r n) else Ruleset_Set r n)"
  by (auto simp: Ruleset_Set_def with_set_def find_update_first_same find_update_first_other)

locale named_table =
  fixes look :: "'r \<Rightarrow> string \<Rightarrow> 'x option"
    and add :: "'x \<Rightarrow> 'r \<Rightarrow> 'r"
    and upd :: "string \<Rightarrow> ('x \<Rightarrow> 'x) \<Rightarrow> 'r \<Rightarrow> 'r"
    and nm :: "'x \<Rightarrow> string"
  assumes look_add: "look (add x r) n =
      (case look r n of None \<Rightarrow> if nm x = n then Some x else None | Some y \<Rightarrow> Some y)"
    and look_upd: "(\<And>x. nm (f x) = nm x) \<Longrightarrow>
      look (upd m f r) n = (if n = m then map_option f (look r n) else look r n)"
begin

lemma look_fold_old: "look r n = Some x \<Longrightarrow> look (fold add xs r) n = Some x"
  by (induction xs arbitrary: r) (auto simp: look_add)

lemma look_fold_new: "look r n = None \<Longrightarrow> look (fold add xs r) n = find (\<lambda>x. nm x = n) xs"
  by (induction xs arbitrary: r) (auto simp: look_add look_fold_old)

lemma look_fold_mem:
  assumes "look r (nm x) = None" "distinct (map nm xs)" "x \<in> set xs"
  shows "look (fold add xs r) (nm x) = Some x"
  using assms by (simp add: look_fold_new find_distinct)

lemma look_fold_other: "n \<notin> nm ` set xs \<Longrightarrow> look (fold add xs r) n = look r n"
  by (cases "look r n") (auto simp: look_fold_old look_fold_new find_None_key)

end

interpretation chains: named_table Ruleset_Chain add_chain with_chain chain_Name
  by unfold_locales simp_all

interpretation sets: named_table Ruleset_Set add_set with_set set_Name
  by unfold_locales simp_all

lemma rs_Sets_add_chains [simp]: "rs_Sets (fold add_chain cs r) = rs_Sets r"
  by (induction cs arbitrary: r) (auto simp: add_chain_def)

lemma rs_Chains_add_chains [simp]: "rs_Chains (fold add_chain cs r) = rs_Chains r @ cs"
  by (induction cs arbitrary: r) (auto simp: add_chain_def)

lemma rs_frame [simp]:
  "rs_Sets (with_chain m f r) = rs_Sets r" "rs_Sets (add_chain c r) = rs_Sets r"
  "rs_Chains (with_set m g r) = rs_Chains r" "rs_Chains (add_set s r) = rs_Chains r"
  "rs_Chains (add_chain c r) = rs_Chains r @ [c]" "rs_Sets (add_set s r) = rs_Sets r @ [s]"
  by (simp_all add: with_chain_def with_set_def add_chain_def add_set_def)

lemma chain_Name_InsertBeforeLast [simp]:
  "chain_Name (InsertBeforeLast rules c) = chain_Name c" "chain_Base (InsertBeforeLast rules c) = chain_Base c"
  by (simp_all add: InsertBeforeLast_def)

lemma InsertBeforeLast_snoc:
  "chain_Rules c = rs @ [l] \<Longrightarrow> chain_Rules (InsertBeforeLast rules c) = rs @ rules @ [l]"
  by (simp add: InsertBeforeLast_def)

end
