(* ===== verification/Sha256.thy ===== *)
theory Sha256
  imports Cni_Prelude
begin

text \<open>
  SHA-256 of a byte string, which \<open>fold\<close> in the nftables renderer takes the tag of an
  over-long identifier from (\<open>crypto/sha256\<close>, FIPS 180-4), and its hexadecimal text
  (\<open>encoding/hex\<close>). What the proofs need of it is that the text has 64 hexadecimal
  digits.
\<close>

unbundle bit_operations_syntax

type_synonym w32 = "32 word"

text \<open>
  The constants, as the standard introduces them: the first 32 bits of the fractional parts
  of the cube roots, and for the initial state the square roots, of the first primes.
  \<open>root_floor k n b r\<close> settles the low \<open>b\<close> bits of the \<open>k\<close>-th root of \<open>n\<close>, the highest first.
\<close>

definition first_primes :: "nat list" where
  "first_primes =
    [2, 3, 5, 7, 11, 13, 17, 19, 23, 29, 31, 37, 41, 43, 47, 53,
     59, 61, 67, 71, 73, 79, 83, 89, 97, 101, 103, 107, 109, 113, 127, 131,
     137, 139, 149, 151, 157, 163, 167, 173, 179, 181, 191, 193, 197, 199, 211, 223,
     227, 229, 233, 239, 241, 251, 257, 263, 269, 271, 277, 281, 283, 293, 307, 311]"

fun root_floor :: "nat \<Rightarrow> nat \<Rightarrow> nat \<Rightarrow> nat \<Rightarrow> nat" where
  "root_floor k n 0 r = r"
| "root_floor k n (Suc b) r = root_floor k n b (if (r + 2 ^ b) ^ k \<le> n then r + 2 ^ b else r)"

definition root_fraction :: "nat \<Rightarrow> nat \<Rightarrow> w32" where
  "root_fraction k p = of_nat (root_floor k (p * 2 ^ (32 * k)) 40 0)"

definition sha_K :: "w32 list" where
  "sha_K = map (root_fraction 3) first_primes"

definition sha_H0 :: "w32 list" where
  "sha_H0 = map (root_fraction 2) (take 8 first_primes)"

definition sha_ssig0 :: "w32 \<Rightarrow> w32" where
  "sha_ssig0 x = word_rotr 7 x XOR word_rotr 18 x XOR drop_bit 3 x"

definition sha_ssig1 :: "w32 \<Rightarrow> w32" where
  "sha_ssig1 x = word_rotr 17 x XOR word_rotr 19 x XOR drop_bit 10 x"

definition sha_bsig0 :: "w32 \<Rightarrow> w32" where
  "sha_bsig0 x = word_rotr 2 x XOR word_rotr 13 x XOR word_rotr 22 x"

definition sha_bsig1 :: "w32 \<Rightarrow> w32" where
  "sha_bsig1 x = word_rotr 6 x XOR word_rotr 11 x XOR word_rotr 25 x"

definition sha_ch :: "w32 \<Rightarrow> w32 \<Rightarrow> w32 \<Rightarrow> w32" where
  "sha_ch x y z = (x AND y) XOR (NOT x AND z)"

definition sha_maj :: "w32 \<Rightarrow> w32 \<Rightarrow> w32 \<Rightarrow> w32" where
  "sha_maj x y z = (x AND y) XOR (x AND z) XOR (y AND z)"

text \<open>The message schedule, kept with the latest word first.\<close>

fun sha_sched :: "nat \<Rightarrow> w32 list \<Rightarrow> w32 list" where
  "sha_sched 0 r = rev r"
| "sha_sched (Suc n) r =
     sha_sched n ((sha_ssig1 (r ! 1) + r ! 6 + sha_ssig0 (r ! 14) + r ! 15) # r)"

fun sha_round :: "w32 list \<Rightarrow> w32 \<times> w32 \<Rightarrow> w32 list" where
  "sha_round [a, b, c, d, e, f, g, h] (k, w) =
     (let t1 = h + sha_bsig1 e + sha_ch e f g + k + w; t2 = sha_bsig0 a + sha_maj a b c
      in [t1 + t2, a, b, c, d + t1, e, f, g])"
| "sha_round s _ = s"

definition sha_block :: "w32 list \<Rightarrow> w32 list \<Rightarrow> w32 list" where
  "sha_block h ws = map2 (+) h (foldl sha_round h (zip sha_K (sha_sched 48 (rev ws))))"

fun be_words :: "nat list \<Rightarrow> w32 list" where
  "be_words (a # b # c # d # bs) =
     word_of_nat (((a * 256 + b) * 256 + c) * 256 + d) # be_words bs"
| "be_words _ = []"

fun be_bytes :: "nat \<Rightarrow> nat \<Rightarrow> nat list" where
  "be_bytes 0 n = []"
| "be_bytes (Suc k) n = be_bytes k (n div 256) @ [n mod 256]"

definition sha_pad :: "nat list \<Rightarrow> nat list" where
  "sha_pad m =
     m @ [128] @ replicate ((119 - length m mod 64) mod 64) 0 @ be_bytes 8 (8 * length m)"

function sha_blocks :: "w32 list \<Rightarrow> w32 list \<Rightarrow> w32 list" where
  "sha_blocks h ws = (if ws = [] then h else sha_blocks (sha_block h (take 16 ws)) (drop 16 ws))"
  by pat_completeness auto
termination
  by (relation "measure (\<lambda>(h, ws). length ws)") auto

declare sha_blocks.simps [simp del]

definition Sum256 :: "string \<Rightarrow> nat list" where
  "Sum256 s =
     concat (map (\<lambda>w. be_bytes 4 (unat w))
       (sha_blocks sha_H0 (be_words (sha_pad (map of_char s)))))"

definition EncodeToString :: "nat list \<Rightarrow> string" where
  "EncodeToString bs = concat (map (\<lambda>b. [hexdigit (b div 16), hexdigit (b mod 16)]) bs)"

section \<open>The length and the alphabet of the text\<close>

lemma length_sha_round: "length s = 8 \<Longrightarrow> length (sha_round s kw) = 8"
  by (cases "(s, kw)" rule: sha_round.cases) (auto simp: Let_def)

lemma length_sha_block: "length h = 8 \<Longrightarrow> length (sha_block h ws) = 8"
proof -
  assume h: "length h = 8"
  have "length (foldl sha_round s kws) = 8" if "length s = 8" for s kws
    using that by (induction kws arbitrary: s) (auto simp: length_sha_round)
  with h show ?thesis by (simp add: sha_block_def)
qed

lemma length_sha_blocks: "length h = 8 \<Longrightarrow> length (sha_blocks h ws) = 8"
proof (induction h ws rule: sha_blocks.induct)
  case (1 h ws)
  then show ?case by (subst sha_blocks.simps) (simp add: length_sha_block)
qed

lemma length_be_bytes: "length (be_bytes k n) = k"
  by (induction k arbitrary: n) auto

lemma be_bytes_less: "b \<in> set (be_bytes k n) \<Longrightarrow> b < 256"
  by (induction k arbitrary: n) auto

lemma length_sha_H0: "length sha_H0 = 8"
  by (simp add: sha_H0_def first_primes_def)

lemma length_Sum256: "length (Sum256 s) = 32"
proof -
  have "sum_list (map (length \<circ> (\<lambda>w. be_bytes 4 (unat w))) ws) = 4 * length ws" for ws :: "w32 list"
    by (induction ws) (auto simp: length_be_bytes)
  then show ?thesis
    by (simp add: Sum256_def length_concat length_sha_blocks length_sha_H0)
qed

lemma length_EncodeToString: "length (EncodeToString bs) = 2 * length bs"
  by (induction bs) (auto simp: EncodeToString_def)

lemma EncodeToString_chars:
  "(\<And>b. b \<in> set bs \<Longrightarrow> b < 256) \<Longrightarrow> set (EncodeToString bs) \<subseteq> set hexdigits"
  by (induction bs) (auto simp: EncodeToString_def hexdigit_def less_mult_imp_div_less)

lemma Sum256_bytes: "b \<in> set (Sum256 s) \<Longrightarrow> b < 256"
  by (auto simp: Sum256_def be_bytes_less)

lemma hex_Sum256:
  "length (EncodeToString (Sum256 s)) = 64" "set (EncodeToString (Sum256 s)) \<subseteq> set hexdigits"
  using EncodeToString_chars [of "Sum256 s"] Sum256_bytes
  by (auto simp: length_EncodeToString length_Sum256)

end
