(* ===== verification/Nft_Render.thy ===== *)
theory Nft_Render
  imports Nft_Model Sha256
begin

text \<open>
  \<open>internal/nftables/render.go\<close>: the skeleton of the table for one node, the safe rules,
  the masquerade, and the names given to what is rendered from Kubernetes objects.
\<close>

section \<open>Parameters\<close>

record port_range =
  From :: "16 word"
  To :: "16 word"

record safe_ports =
  SSH :: "16 word"
  Kubelet :: "16 word"
  APIServer :: "16 word"
  Etcd :: port_range
  NodePort :: port_range
  DNS :: "16 word"

record params =
  PodCIDRs :: "prefix list"
  ClusterPodCIDRs :: "prefix list"
  SafePorts :: safe_ports

definition DefaultSafePorts :: safe_ports where
  "DefaultSafePorts =
     \<lparr>SSH = 22, Kubelet = 10250, APIServer = 6443, Etcd = \<lparr>From = 2379, To = 2380\<rparr>,
      NodePort = \<lparr>From = 30000, To = 32767\<rparr>, DNS = 53\<rparr>"

definition PortRange_String :: "port_range \<Rightarrow> string" where
  "PortRange_String r =
     (if From r = To r then itoa (unat (From r))
      else itoa (unat (From r)) @ ''-'' @ itoa (unat (To r)))"

definition SetNodePodsV4 :: string where "SetNodePodsV4 = ''node_pods_v4''"
definition SetNodePodsV6 :: string where "SetNodePodsV6 = ''node_pods_v6''"
definition SetClusterPodsV4 :: string where "SetClusterPodsV4 = ''cluster_pods_v4''"
definition SetClusterPodsV6 :: string where "SetClusterPodsV6 = ''cluster_pods_v6''"
definition SetIsolatedEgressV4 :: string where "SetIsolatedEgressV4 = ''isolated_egress_v4''"
definition SetIsolatedEgressV6 :: string where "SetIsolatedEgressV6 = ''isolated_egress_v6''"
definition SetIsolatedIngressV4 :: string where "SetIsolatedIngressV4 = ''isolated_ingress_v4''"
definition SetIsolatedIngressV6 :: string where "SetIsolatedIngressV6 = ''isolated_ingress_v6''"

definition ChainEgress :: string where "ChainEgress = ''egress''"
definition ChainEgressDispatch :: string where "ChainEgressDispatch = ''egress_dispatch''"
definition ChainIngress :: string where "ChainIngress = ''ingress''"
definition ChainIngressDispatch :: string where "ChainIngressDispatch = ''ingress_dispatch''"
definition ChainInput :: string where "ChainInput = ''input''"
definition ChainOutput :: string where "ChainOutput = ''output''"
definition ChainPostrouting :: string where "ChainPostrouting = ''postrouting''"

lemmas set_name_defs =
  SetNodePodsV4_def SetNodePodsV6_def SetClusterPodsV4_def SetClusterPodsV6_def
  SetIsolatedEgressV4_def SetIsolatedEgressV6_def SetIsolatedIngressV4_def SetIsolatedIngressV6_def

lemmas chain_name_defs =
  ChainEgress_def ChainEgressDispatch_def ChainIngress_def ChainIngressDispatch_def
  ChainInput_def ChainOutput_def ChainPostrouting_def

definition safeICMPTypes :: string where
  "safeICMPTypes = ''echo-request, destination-unreachable, time-exceeded, parameter-problem''"

definition safeICMPv6Types :: string where
  "safeICMPv6Types =
     safeICMPTypes @ '', packet-too-big, '' @
     ''nd-router-solicit, nd-router-advert, nd-neighbor-solicit, nd-neighbor-advert, '' @
     ''mld-listener-query, mld-listener-report, mld-listener-done, mld2-listener-report''"

section \<open>Validation\<close>

text \<open>The loop over \<open>PodCIDRs\<close>, with \<open>sawV4\<close> and \<open>sawV6\<close>.\<close>

fun one_per_family :: "bool \<Rightarrow> bool \<Rightarrow> prefix list \<Rightarrow> go_error + unit" where
  "one_per_family v4 v6 [] = Inr ()"
| "one_per_family v4 v6 (c # cs) =
     (if \<not> Prefix_IsValid c then Inl (''invalid pod CIDR '' @ Quote (Prefix_String c))
      else if Is4 (Prefix_Addr c) \<and> \<not> v4 then one_per_family True v6 cs
      else if Is6 (Prefix_Addr c) \<and> \<not> v6 then one_per_family v4 True cs
      else Inl (''more than one pod CIDR for one address family: '' @ Prefix_String c))"

fun cluster_valid :: "prefix list \<Rightarrow> go_error + unit" where
  "cluster_valid [] = Inr ()"
| "cluster_valid (c # cs) =
     (if \<not> Prefix_IsValid c then Inl (''invalid cluster pod CIDR '' @ Quote (Prefix_String c))
      else cluster_valid cs)"

text \<open>
  The two loops over Go maps, whose order is not fixed: with several ports missing, any of
  them may be the one the message names. The model takes the order the map literal is
  written in.
\<close>

fun ports_set :: "(string \<times> 16 word) list \<Rightarrow> go_error + unit" where
  "ports_set [] = Inr ()"
| "ports_set ((name, port) # ps) =
     (if port = 0 then Inl (''safe port '' @ name @ '' is required'') else ports_set ps)"

fun ranges_set :: "(string \<times> port_range) list \<Rightarrow> go_error + unit" where
  "ranges_set [] = Inr ()"
| "ranges_set ((name, r) # rs) =
     (if From r = 0 \<or> To r < From r
      then Inl (''safe port range '' @ name @ '' is empty: '' @ PortRange_String r)
      else ranges_set rs)"

definition validate :: "params \<Rightarrow> go_error + unit" where
  "validate p =
     (if PodCIDRs p = [] then Inl ''at least one pod CIDR is required''
      else
       bind_err (one_per_family False False (PodCIDRs p)) (\<lambda>_.
       bind_err (cluster_valid (ClusterPodCIDRs p)) (\<lambda>_.
       bind_err (ports_set
         [(''ssh'', SSH (SafePorts p)), (''kubelet'', Kubelet (SafePorts p)),
          (''apiserver'', APIServer (SafePorts p)), (''dns'', DNS (SafePorts p))]) (\<lambda>_.
       ranges_set [(''etcd'', Etcd (SafePorts p)), (''nodeport'', NodePort (SafePorts p))]))))"

section \<open>The skeleton\<close>

definition prefix_key :: "prefix \<Rightarrow> addr \<times> int" where
  "prefix_key p = (Prefix_Addr p, Bits p)"

definition sorted_prefixes :: "prefix list \<Rightarrow> prefix list" where
  "sorted_prefixes ps = remdups_adj (sort_key prefix_key (map Masked ps))"

definition splitFamilies :: "prefix list \<Rightarrow> string list \<times> string list" where
  "splitFamilies ps =
     (map Prefix_String (filter (\<lambda>p. Is4 (Prefix_Addr p)) (sorted_prefixes ps)),
      map Prefix_String (filter (\<lambda>p. \<not> Is4 (Prefix_Addr p)) (sorted_prefixes ps)))"

definition prefixSet :: "string \<Rightarrow> string \<Rightarrow> string list \<Rightarrow> string \<Rightarrow> nft_set" where
  "prefixSet name typ elements comment =
     \<lparr>set_Name = name, set_Type = typ, set_Flags = [''interval''], set_Elements = elements,
      set_Comment = comment\<rparr>"

definition addrSet :: "string \<Rightarrow> string \<Rightarrow> string list \<Rightarrow> string \<Rightarrow> nft_set" where
  "addrSet name typ elements comment =
     \<lparr>set_Name = name, set_Type = typ, set_Flags = [], set_Elements = elements,
      set_Comment = comment\<rparr>"

definition rule :: "string \<Rightarrow> string \<Rightarrow> string \<Rightarrow> nft_rule" where
  "rule m v c = \<lparr>rule_Match = m, rule_Verdict = v, rule_Comment = c\<rparr>"

lemma rule_sel [simp]:
  "rule_Match (rule m v c) = m" "rule_Verdict (rule m v c) = v" "rule_Comment (rule m v c) = c"
  by (simp_all add: rule_def)

definition podChain ::
  "string \<Rightarrow> string \<Rightarrow> string \<Rightarrow> string \<Rightarrow> string \<Rightarrow> string \<Rightarrow> string \<Rightarrow> nft_chain" where
  "podChain name priority addr setV4 setV6 dispatch comment =
     \<lparr>chain_Name = name,
      chain_Base = Some \<lparr>base_Type = ''filter'', base_Hook = ''forward'',
                         base_Priority = priority, base_Policy = ''accept''\<rparr>,
      chain_Rules =
       [rule ''ct state established,related'' ''accept'' ''replies follow the connection'',
        rule ''icmpv6 type { nd-neighbor-solicit, nd-neighbor-advert }'' ''accept''
          ''neighbour discovery is not policy traffic'',
        rule (''ip '' @ addr @ '' @'' @ setV4) (''jump '' @ dispatch) (''isolated for '' @ name),
        rule (''ip6 '' @ addr @ '' @'' @ setV6) (''jump '' @ dispatch) (''isolated for '' @ name)],
      chain_Comment = comment\<rparr>"

definition dispatchChain :: "string \<Rightarrow> nft_chain" where
  "dispatchChain name =
     \<lparr>chain_Name = name, chain_Base = None,
      chain_Rules = [rule [] ''drop'' ''isolated pod, no policy accepted''],
      chain_Comment = ''One jump per NetworkPolicy goes ahead of the drop''\<rparr>"

definition safeRulesCommon :: "string \<Rightarrow> nft_rule list" where
  "safeRulesCommon iface =
     [rule ''ct state established,related'' ''accept'' ''safe: replies to what the node opened'',
      rule (iface @ '' '' @ QUOT @ ''lo'' @ QUOT) ''accept'' ''safe: loopback'',
      rule (''icmp type { '' @ safeICMPTypes @ '' }'') ''accept'' ''safe: icmp'',
      rule (''icmpv6 type { '' @ safeICMPv6Types @ '' }'') ''accept'' ''safe: icmpv6'']"

definition safePort :: "string \<Rightarrow> port_range \<Rightarrow> string \<Rightarrow> nft_rule" where
  "safePort proto port what =
     rule (proto @ '' dport '' @ PortRange_String port) ''accept'' (''safe: '' @ what)"

definition single :: "16 word \<Rightarrow> port_range" where
  "single port = \<lparr>From = port, To = port\<rparr>"

definition inputRules :: "safe_ports \<Rightarrow> nft_rule list" where
  "inputRules ports =
     safeRulesCommon ''iifname'' @
     [safePort ''tcp'' (single (SSH ports)) ''ssh'',
      safePort ''tcp'' (single (Kubelet ports)) ''kubelet'',
      safePort ''tcp'' (single (APIServer ports)) ''apiserver'',
      safePort ''tcp'' (Etcd ports) ''etcd'',
      safePort ''tcp'' (NodePort ports) ''nodeport'',
      safePort ''udp'' (NodePort ports) ''nodeport'']"

definition inputChain :: "safe_ports \<Rightarrow> nft_chain" where
  "inputChain ports =
     \<lparr>chain_Name = ChainInput,
      chain_Base = Some \<lparr>base_Type = ''filter'', base_Hook = ''input'',
                         base_Priority = ''filter'', base_Policy = ''accept''\<rparr>,
      chain_Rules = inputRules ports,
      chain_Comment =
        ''NodeNetworkPolicy ingress, behind the safe rules a policy cannot remove (ADR 0004)''\<rparr>"

definition outputRules :: "safe_ports \<Rightarrow> nft_rule list" where
  "outputRules ports =
     safeRulesCommon ''oifname'' @
     [safePort ''tcp'' (single (APIServer ports)) ''apiserver'',
      safePort ''tcp'' (Etcd ports) ''etcd'',
      safePort ''tcp'' (single (Kubelet ports)) ''kubelet'',
      safePort ''tcp'' (single (DNS ports)) ''dns'',
      safePort ''udp'' (single (DNS ports)) ''dns'',
      rule (''ip daddr @'' @ SetNodePodsV4) ''accept'' ''safe: this node's pods'',
      rule (''ip6 daddr @'' @ SetNodePodsV6) ''accept'' ''safe: this node's pods'']"

definition outputChain :: "safe_ports \<Rightarrow> nft_chain" where
  "outputChain ports =
     \<lparr>chain_Name = ChainOutput,
      chain_Base = Some \<lparr>base_Type = ''filter'', base_Hook = ''output'',
                         base_Priority = ''filter'', base_Policy = ''accept''\<rparr>,
      chain_Rules = outputRules ports,
      chain_Comment =
        ''NodeNetworkPolicy egress, behind the safe rules a policy cannot remove (ADR 0004)''\<rparr>"

definition postroutingChain :: nft_chain where
  "postroutingChain =
     \<lparr>chain_Name = ChainPostrouting,
      chain_Base = Some \<lparr>base_Type = ''nat'', base_Hook = ''postrouting'',
                         base_Priority = ''srcnat'', base_Policy = ''accept''\<rparr>,
      chain_Rules =
       [rule (''ip saddr @'' @ SetNodePodsV4 @ '' ip daddr != @'' @ SetClusterPodsV4)
          ''masquerade'' ''pod traffic leaving the cluster'',
        rule (''ip6 saddr @'' @ SetNodePodsV6 @ '' ip6 daddr != @'' @ SetClusterPodsV6)
          ''masquerade'' ''pod traffic leaving the cluster''],
      chain_Comment =
        ''Masquerade for pod traffic leaving the cluster's pod CIDRs (ADR 0001, ADR 0003)''\<rparr>"

definition Render_sets :: "params \<Rightarrow> nft_set list" where
  "Render_sets p =
     (let (nodeV4, nodeV6) = splitFamilies (PodCIDRs p);
          (clusterV4, clusterV6) = splitFamilies (ClusterPodCIDRs p)
      in [prefixSet SetNodePodsV4 ''ipv4_addr'' nodeV4 ''This node's pod CIDRs (node.spec.podCIDRs)'',
          prefixSet SetNodePodsV6 ''ipv6_addr'' nodeV6 [],
          prefixSet SetClusterPodsV4 ''ipv4_addr'' clusterV4
            ''Every node's pod CIDRs: traffic to these stays inside the cluster and is not masqueraded'',
          prefixSet SetClusterPodsV6 ''ipv6_addr'' clusterV6 [],
          addrSet SetIsolatedEgressV4 ''ipv4_addr'' []
            ''Pods selected by at least one NetworkPolicy of that policyType; filled by the NetworkPolicy renderer'',
          addrSet SetIsolatedEgressV6 ''ipv6_addr'' [] [],
          addrSet SetIsolatedIngressV4 ''ipv4_addr'' [] [],
          addrSet SetIsolatedIngressV6 ''ipv6_addr'' [] []])"

definition Render_chains :: "safe_ports \<Rightarrow> nft_chain list" where
  "Render_chains ports =
     [podChain ChainEgress ''filter'' ''saddr'' SetIsolatedEgressV4 SetIsolatedEgressV6
        ChainEgressDispatch ''NetworkPolicy egress, keyed on the source pod (ADR 0003)'',
      dispatchChain ChainEgressDispatch,
      podChain ChainIngress ''filter + 1'' ''daddr'' SetIsolatedIngressV4 SetIsolatedIngressV6
        ChainIngressDispatch ''NetworkPolicy ingress, keyed on the destination pod (ADR 0003)'',
      dispatchChain ChainIngressDispatch,
      inputChain ports,
      outputChain ports,
      postroutingChain]"

definition Render :: "params \<Rightarrow> go_error + ruleset" where
  "Render p =
     bind_err (map_err (\<lambda>e. ''nftables: '' @ e) (validate p)) (\<lambda>_.
       Inr \<lparr>rs_Sets = Render_sets p, rs_Chains = Render_chains (SafePorts p)\<rparr>)"

section \<open>Identifiers\<close>

text \<open>The regular expression \<^verbatim>\<open>^[A-Za-z0-9_.-]+$\<close>.\<close>

definition ident_char :: "char \<Rightarrow> bool" where
  "ident_char c \<longleftrightarrow>
     (let n = of_char c :: nat
      in (65 \<le> n \<and> n \<le> 90) \<or> (97 \<le> n \<and> n \<le> 122) \<or> (48 \<le> n \<and> n \<le> 57) \<or> n = 95 \<or> n = 46 \<or> n = 45)"

definition identifierPart :: "string \<Rightarrow> bool" where
  "identifierPart s \<longleftrightarrow> s \<noteq> [] \<and> list_all ident_char s"

definition identifierMaxLen :: nat where "identifierMaxLen = 255"
definition identifierHashLen :: nat where "identifierHashLen = 12"

definition fold_id :: "string \<Rightarrow> string" where
  "fold_id s =
     (let tag = take identifierHashLen (EncodeToString (Sum256 s))
      in take (identifierMaxLen - length tag - 1) s @ ''/'' @ tag)"

definition Identifier :: "string \<Rightarrow> string list \<Rightarrow> go_error + string" where
  "Identifier pre parts =
     (if parts = [] then Inl ''nftables: an identifier needs a name''
      else case find (\<lambda>part. \<not> identifierPart part) parts of
        Some part \<Rightarrow>
          Inl (''nftables: '' @ Quote part @
               '' cannot be used in an nftables name: letters, digits, _ . - only'')
      | None \<Rightarrow>
          (let s = pre @ join ''/'' parts
           in Inr (if identifierMaxLen < length s then fold_id s else s)))"

text \<open>What one identifier may hold: the characters of its parts and the separator.\<close>

definition id_char :: "char \<Rightarrow> bool" where
  "id_char c \<longleftrightarrow> ident_char c \<or> c = CHR ''/''"

lemma ident_char_hexdigits: "list_all ident_char hexdigits"
  by (simp add: hexdigits_def ident_char_def)

lemma ident_char_slash: "\<not> ident_char CHR ''/''"
  by (simp add: ident_char_def)

lemma Identifier_Inr:
  "Identifier pre parts = Inr s \<longleftrightarrow>
     parts \<noteq> [] \<and> list_all identifierPart parts \<and>
     s = (let n = pre @ join ''/'' parts in if 255 < length n then fold_id n else n)"
  by (auto simp: Identifier_def identifierMaxLen_def Let_def list_all_iff find_None_iff
      split: option.splits dest: find_Some_iff [THEN iffD1])

lemma fold_id_tag: "length (take identifierHashLen (EncodeToString (Sum256 s))) = 12"
  by (simp add: identifierHashLen_def hex_Sum256)

lemma length_fold_id: "242 \<le> length s \<Longrightarrow> length (fold_id s) = 255"
  using fold_id_tag [of s] by (simp add: fold_id_def identifierMaxLen_def Let_def)

lemma take_fold_id: "n \<le> 242 \<Longrightarrow> 242 \<le> length s \<Longrightarrow> take n (fold_id s) = take n s"
  using fold_id_tag [of s] by (simp add: fold_id_def identifierMaxLen_def Let_def min_absorb1)

lemma fold_id_chars: "list_all id_char s \<Longrightarrow> list_all id_char (fold_id s)"
proof -
  assume s: "list_all id_char s"
  have "set (take identifierHashLen (EncodeToString (Sum256 s))) \<subseteq> set hexdigits"
    using hex_Sum256(2) set_take_subset by (rule order_trans [rotated])
  then have "list_all id_char (take identifierHashLen (EncodeToString (Sum256 s)))"
    using ident_char_hexdigits by (auto simp: list_all_iff id_char_def)
  moreover have "list_all id_char (take n s)" for n
    using s by (auto simp: list_all_iff dest: in_set_takeD)
  ultimately show ?thesis
    by (simp add: fold_id_def Let_def id_char_def)
qed

lemma identifierPart_chars: "identifierPart x \<Longrightarrow> list_all id_char x"
  by (auto simp: identifierPart_def id_char_def list_all_iff)

lemma identifierPart_no_slash: "identifierPart x \<Longrightarrow> CHR ''/'' \<notin> set x"
  using ident_char_slash by (auto simp: identifierPart_def list_all_iff)

lemma join_id_chars: "list_all identifierPart parts \<Longrightarrow> list_all id_char (join ''/'' parts)"
  using set_join_subset [of "''/''" parts] identifierPart_chars
  by (fastforce simp: list_all_iff id_char_def)

lemma join_parts_inj:
  "list_all identifierPart xs \<Longrightarrow> list_all identifierPart ys \<Longrightarrow> xs \<noteq> [] \<Longrightarrow> ys \<noteq> [] \<Longrightarrow>
     join ''/'' xs = join ''/'' ys \<longleftrightarrow> xs = ys"
  using join_inj [of xs ys "CHR ''/''"] identifierPart_no_slash by (auto simp: list_all_iff)

lemma Identifier_chars:
  "Identifier pre parts = Inr s \<Longrightarrow> list_all id_char pre \<Longrightarrow> s \<noteq> [] \<and> list_all id_char s"
proof -
  assume a: "Identifier pre parts = Inr s" "list_all id_char pre"
  let ?n = "pre @ join ''/'' parts"
  have p: "parts \<noteq> []" "list_all identifierPart parts" and s: "s = (if 255 < length ?n then fold_id ?n else ?n)"
    using a(1) by (auto simp: Identifier_Inr Let_def)
  have "join ''/'' parts \<noteq> []"
    using p join_eq_Nil [of parts "''/''"] by (auto simp: list_all_iff identifierPart_def)
  moreover have "list_all id_char ?n"
    using a(2) join_id_chars [OF p(2)] by simp
  ultimately show ?thesis
    using fold_id_chars [of ?n] length_fold_id [of ?n] by (cases "255 < length ?n") (auto simp: s)
qed

lemma Identifier_prefix: "Identifier pre parts = Inr s \<Longrightarrow> length pre \<le> 242 \<Longrightarrow> HasPrefix s pre"
  by (auto simp: Identifier_Inr HasPrefix_def Let_def take_fold_id split: if_splits)

text \<open>
  C27: a name \<open>Identifier\<close> returns is one nft reads back as a single identifier: at most 255
  bytes, over letters, digits and \<^verbatim>\<open>_ . - /\<close> whenever its prefix is, and it still starts
  with the prefix that says what kind of object it names, folded or not.
\<close>

theorem Identifier_readable:
  assumes "Identifier pre parts = Inr s" and "list_all id_char pre" and "length pre \<le> 242"
  shows "length s \<le> 255 \<and> list_all id_char s \<and> HasPrefix s pre \<and> length pre < length s"
proof -
  let ?n = "pre @ join ''/'' parts"
  have p: "parts \<noteq> []" "list_all identifierPart parts" and s: "s = (if 255 < length ?n then fold_id ?n else ?n)"
    using assms(1) by (auto simp: Identifier_Inr Let_def)
  have chars: "list_all id_char ?n"
    using assms(2) join_id_chars [OF p(2)] by simp
  have "join ''/'' parts \<noteq> []"
    using p join_eq_Nil [of parts "''/''"] by (auto simp: list_all_iff identifierPart_def)
  then show ?thesis
    using assms(3) chars fold_id_chars [OF chars] length_fold_id [of ?n] take_fold_id [of "length pre" ?n]
    by (cases "255 < length ?n") (simp_all add: s HasPrefix_def)
qed

theorem Identifier_readable_witness:
  "length ''netpol_in_a/b'' \<le> 255 \<and> list_all id_char ''netpol_in_a/b'' \<and>
   HasPrefix ''netpol_in_a/b'' ''netpol_in_'' \<and> length ''netpol_in_'' < length ''netpol_in_a/b''"
  by (rule Identifier_readable [of _ "[''a'', ''b'']"])
     (simp_all add: Identifier_def identifierPart_def ident_char_def id_char_def identifierMaxLen_def)

text \<open>
  C28: two objects whose names fit the limit never share an identifier of the same kind: the
  parts are recovered from the name, the separator being a character no part may hold.
\<close>

theorem Identifier_inj:
  assumes "Identifier pre xs = Inr s" and "Identifier pre ys = Inr t" and "xs \<noteq> ys"
    and "length (pre @ join ''/'' xs) \<le> 255" and "length (pre @ join ''/'' ys) \<le> 255"
  shows "s \<noteq> t"
  using assms join_parts_inj [of xs ys] by (auto simp: Identifier_Inr Let_def)

theorem Identifier_inj_witness: "''p_a/b'' \<noteq> ''p_a_b''"
  by (rule Identifier_inj [of "''p_''" "[''a'', ''b'']" _ "[''a_b'']"])
     (simp_all add: Identifier_def identifierPart_def ident_char_def identifierMaxLen_def)

end
