(* ===== verification/Nft_Semantics.thy ===== *)
theory Nft_Semantics
  imports Nft_Render
begin

text \<open>
  What a rendered table says about a packet. nft and the kernel are not part of the
  program, so how a match text is evaluated is a parameter \<open>ev\<close> of every statement, and
  the locale \<open>nft_matcher\<close> holds what \<^verbatim>\<open>nft(8)\<close> documents of the few forms the renderers
  write: an address against a set or a prefix, the negation of one, a protocol, a
  destination port, and a handful of fixed texts (connection tracking, ICMP types,
  interfaces, the log limiter) whose truth is a fact about the packet.

  \<open>walk\<close> is the documented order of evaluation that the renderers' comments appeal to: the
  rules of a chain from the top, the first accepting or dropping verdict is final for the
  hook, a jump comes back to the rule after it when the chain it enters runs out, and the
  policy of a base chain takes what falls off its end.
\<close>

section \<open>Packets and match texts\<close>

record packet =
  pkt_src :: addr
  pkt_dst :: addr
  pkt_l4 :: string
  pkt_dport :: "16 word"
  pkt_facts :: "string \<Rightarrow> bool"

datatype fam = V4 | V6
datatype side = Saddr | Daddr

fun fam_text :: "fam \<Rightarrow> string" where
  "fam_text V4 = ''ip''"
| "fam_text V6 = ''ip6''"

fun side_text :: "side \<Rightarrow> string" where
  "side_text Saddr = ''saddr''"
| "side_text Daddr = ''daddr''"

text \<open>The conditions a rule is a conjunction of, and their text.\<close>

datatype atom =
    InSet fam side string
  | NotInSet fam side string
  | InPrefix fam side string
  | NoneOf fam side "string list"
  | L4Proto string
  | DPort string "16 word"
  | DPortRange string "16 word" "16 word"

fun atom_text :: "atom \<Rightarrow> string" where
  "atom_text (InSet f s x) = fam_text f @ '' '' @ side_text s @ '' @'' @ x"
| "atom_text (NotInSet f s x) = fam_text f @ '' '' @ side_text s @ '' != @'' @ x"
| "atom_text (InPrefix f s c) = fam_text f @ '' '' @ side_text s @ '' '' @ c"
| "atom_text (NoneOf f s cs) = fam_text f @ '' '' @ side_text s @ '' != { '' @ join '', '' cs @ '' }''"
| "atom_text (L4Proto q) = ''meta l4proto '' @ q"
| "atom_text (DPort q a) = q @ '' dport '' @ itoa (unat a)"
| "atom_text (DPortRange q a b) = q @ '' dport '' @ itoa (unat a) @ ''-'' @ itoa (unat b)"

definition atoms_text :: "atom list \<Rightarrow> string" where
  "atoms_text as = join '' '' (map atom_text as)"

text \<open>
  A set name is an identifier nft reads back; a prefix is written with the characters of an address and a
  slash; the protocols are the three that have ports.
\<close>

definition name_token :: "string \<Rightarrow> bool" where
  "name_token x \<longleftrightarrow> x \<noteq> [] \<and> list_all id_char x"

definition prefix_token :: "string \<Rightarrow> bool" where
  "prefix_token c \<longleftrightarrow> c \<noteq> [] \<and> set c \<subseteq> insert CHR ''/'' addr_chars"

definition port_protocols :: "string list" where
  "port_protocols = [''tcp'', ''udp'', ''sctp'']"

fun wf_atom :: "atom \<Rightarrow> bool" where
  "wf_atom (InSet f s x) = name_token x"
| "wf_atom (NotInSet f s x) = name_token x"
| "wf_atom (InPrefix f s c) = prefix_token c"
| "wf_atom (NoneOf f s cs) = (cs \<noteq> [] \<and> list_all prefix_token cs)"
| "wf_atom (L4Proto q) = (q \<in> set port_protocols)"
| "wf_atom (DPort q a) = (q \<in> set port_protocols)"
| "wf_atom (DPortRange q a b) = (q \<in> set port_protocols \<and> a \<le> b)"

lemma name_token_no_space: "name_token x \<Longrightarrow> CHR '' '' \<notin> set x"
  by (auto simp: name_token_def id_char_def ident_char_def list_all_iff)

text \<open>No condition begins or ends with white space, so a conjunction survives trimming.\<close>

lemma id_char_not_space: "id_char c \<Longrightarrow> \<not> is_space c"
  by (auto simp: id_char_def ident_char_def is_space_def Let_def)

lemma prefix_char_id: "c \<in> insert CHR ''/'' addr_chars \<Longrightarrow> \<not> is_space c"
  by (auto simp: addr_chars_def is_space_def)

lemma last_itoa_not_space: "\<not> is_space (last (itoa n))"
proof -
  have "last (itoa n) \<in> set ''0123456789''"
    using itoa_digits itoa_not_Nil last_in_set by blast
  then show ?thesis by (auto simp: is_space_def)
qed

lemma last_name_not_space: "name_token x \<Longrightarrow> x \<noteq> [] \<and> \<not> is_space (last x)"
  using last_in_set [of x] id_char_not_space by (simp add: name_token_def list_all_iff)

lemma last_prefix_not_space: "prefix_token c \<Longrightarrow> c \<noteq> [] \<and> \<not> is_space (last c)"
  using last_in_set [of c] prefix_char_id [of "last c"] unfolding prefix_token_def by blast

lemma protocol_not_space:
  "q \<in> set port_protocols \<Longrightarrow> q \<noteq> [] \<and> \<not> is_space (hd q) \<and> \<not> is_space (last q)"
  by (auto simp: port_protocols_def is_space_def)

lemma fam_text_start: "fam_text f \<noteq> []" "hd (fam_text f) = CHR ''i''"
  by (cases f; simp)+

lemma text_not_space: "\<not> is_space CHR ''i''" "\<not> is_space CHR ''m''" "\<not> is_space CHR ''}''"
  by (simp_all add: is_space_def)

lemma atom_text_trimmed:
  assumes "wf_atom a"
  shows "atom_text a \<noteq> [] \<and> \<not> is_space (hd (atom_text a)) \<and> \<not> is_space (last (atom_text a))"
  using assms
  by (cases a)
     (simp_all add: fam_text_start text_not_space last_name_not_space last_prefix_not_space
       protocol_not_space last_itoa_not_space)

lemma join_trimmed:
  assumes "xs \<noteq> []" "\<And>x. x \<in> set xs \<Longrightarrow> x \<noteq> [] \<and> \<not> is_space (hd x) \<and> \<not> is_space (last x)"
  shows "join sep xs \<noteq> [] \<and> \<not> is_space (hd (join sep xs)) \<and> \<not> is_space (last (join sep xs))"
  using assms by (induction sep xs rule: join.induct) auto

lemma TrimSpace_atoms:
  assumes "list_all wf_atom as" "list_all wf_atom bs"
  shows "TrimSpace (atoms_text as @ '' '' @ atoms_text bs) = atoms_text (as @ bs)"
proof -
  have t: "cs \<noteq> [] \<Longrightarrow> atoms_text cs \<noteq> [] \<and> \<not> is_space (hd (atoms_text cs)) \<and> \<not> is_space (last (atoms_text cs))"
    if "list_all wf_atom cs" for cs
    unfolding atoms_text_def using that atom_text_trimmed
    by (intro join_trimmed) (auto simp: list_all_iff)
  show ?thesis
    using t [OF assms(1)] t [OF assms(2)]
    by (cases "as = []"; cases "bs = []")
       (simp_all add: atoms_text_def join_append TrimSpace_id TrimSpace_left TrimSpace_right TrimSpace_blank)
qed

text \<open>
  An element of a set, or a range in a rule, denotes the address it is the text of, or
  every address under the prefix it is the text of.
\<close>

definition denotes :: "string \<Rightarrow> addr \<Rightarrow> bool" where
  "denotes e a \<longleftrightarrow>
     e = Addr_String a \<or>
     list_ex (\<lambda>n. e = Prefix_String (Masked (Prefix a (int n)))) [0..<Suc (BitLen a)]"

lemma denotes_alt:
  "denotes e a \<longleftrightarrow>
     e = Addr_String a \<or> (\<exists>n \<le> BitLen a. e = Prefix_String (Masked (Prefix a (int n))))"
  by (auto simp: denotes_def list_ex_iff less_Suc_eq_le simp del: upt_Suc)

lemma denotes_Addr:
  assumes "plain_addr x" "plain_addr a"
  shows "denotes (Addr_String x) a \<longleftrightarrow> x = a"
proof -
  have "CHR ''/'' \<notin> set (Addr_String x)"
    using Addr_String_chars [OF assms(1)] by (auto simp: addr_chars_def)
  moreover have "CHR ''/'' \<in> set (Prefix_String (Masked (Prefix a (int n))))" if "n \<le> BitLen a" for n
    using that assms(2)
    by (auto simp: Prefix_String_def Masked_def PrefixFrom_def Prefix_IsValid_def plain_addr_def Let_def)
  ultimately show ?thesis
    using assms by (auto simp: denotes_alt Addr_String_inj)
qed

lemma denotes_Prefix:
  assumes "wf_prefix p" "Prefix_IsValid p" "Masked p = p" "plain_addr a"
  shows "denotes (Prefix_String p) a \<longleftrightarrow> Contains p a"
proof -
  have "CHR ''/'' \<notin> set (Addr_String a)"
    using Addr_String_chars [OF assms(4)] by (auto simp: addr_chars_def)
  moreover have "CHR ''/'' \<in> set (Prefix_String p)"
    using assms(2) by (simp add: Prefix_String_def)
  ultimately have ne: "Prefix_String p \<noteq> Addr_String a" by metis
  have "Prefix_String p = Prefix_String (Masked (Prefix a (int n))) \<longleftrightarrow> p = Masked (Prefix a (int n))"
    if "n \<le> BitLen a" for n
  proof (rule Prefix_String_inj)
    show "Prefix_IsValid (Masked (Prefix a (int n)))"
      using that assms(4)
      by (auto simp: Masked_def PrefixFrom_def Prefix_IsValid_def plain_addr_def Let_def)
  qed (use assms in simp_all)
  then show ?thesis
    using ne Contains_masked [OF assms] by (auto simp: denotes_alt)
qed

definition set_has :: "nft_set list \<Rightarrow> string \<Rightarrow> addr \<Rightarrow> bool" where
  "set_has S x a \<longleftrightarrow>
     (case find (\<lambda>s. set_Name s = x) S of
        None \<Rightarrow> False
      | Some s \<Rightarrow> list_ex (\<lambda>e. denotes e a) (set_Elements s))"

fun pkt_addr :: "side \<Rightarrow> packet \<Rightarrow> addr" where
  "pkt_addr Saddr p = pkt_src p"
| "pkt_addr Daddr p = pkt_dst p"

fun of_fam :: "fam \<Rightarrow> addr \<Rightarrow> bool" where
  "of_fam V4 a = Is4 a"
| "of_fam V6 a = Is6 a"

fun holds :: "nft_set list \<Rightarrow> packet \<Rightarrow> atom \<Rightarrow> bool" where
  "holds S p (InSet f s x) = (of_fam f (pkt_addr s p) \<and> set_has S x (pkt_addr s p))"
| "holds S p (NotInSet f s x) = (of_fam f (pkt_addr s p) \<and> \<not> set_has S x (pkt_addr s p))"
| "holds S p (InPrefix f s c) = (of_fam f (pkt_addr s p) \<and> denotes c (pkt_addr s p))"
| "holds S p (NoneOf f s cs) =
     (of_fam f (pkt_addr s p) \<and> \<not> list_ex (\<lambda>c. denotes c (pkt_addr s p)) cs)"
| "holds S p (L4Proto q) = (pkt_l4 p = q)"
| "holds S p (DPort q a) = (pkt_l4 p = q \<and> pkt_dport p = a)"
| "holds S p (DPortRange q a b) = (pkt_l4 p = q \<and> a \<le> pkt_dport p \<and> pkt_dport p \<le> b)"

text \<open>A \<open>PortRange\<close> is written as one port where its ends are the same.\<close>

definition range_atom :: "string \<Rightarrow> port_range \<Rightarrow> atom" where
  "range_atom q r = (if From r = To r then DPort q (From r) else DPortRange q (From r) (To r))"

lemma range_atom_text: "atom_text (range_atom q r) = q @ '' dport '' @ PortRange_String r"
  by (simp add: range_atom_def PortRange_String_def)

lemma range_atom_holds:
  "holds S p (range_atom q r) \<longleftrightarrow> pkt_l4 p = q \<and> From r \<le> pkt_dport p \<and> pkt_dport p \<le> To r"
  by (auto simp: range_atom_def)

lemma range_atom_wf:
  "q \<in> set port_protocols \<Longrightarrow> From r \<le> To r \<Longrightarrow> wf_atom (range_atom q r)"
  by (simp add: range_atom_def)

text \<open>The fixed texts.\<close>

definition established_text :: string where
  "established_text = ''ct state established,related''"

definition nd_text :: string where
  "nd_text = ''icmpv6 type { nd-neighbor-solicit, nd-neighbor-advert }''"

definition lo_text :: "string \<Rightarrow> string" where
  "lo_text iface = iface @ '' '' @ QUOT @ ''lo'' @ QUOT"

definition icmp_text :: string where
  "icmp_text = ''icmp type { '' @ safeICMPTypes @ '' }''"

definition icmpv6_text :: string where
  "icmpv6_text = ''icmpv6 type { '' @ safeICMPv6Types @ '' }''"

definition limit_text :: string where
  "limit_text = ''limit rate 10/second''"

definition fact_texts :: "string list" where
  "fact_texts =
     [established_text, nd_text, lo_text ''iifname'', lo_text ''oifname'', icmp_text, icmpv6_text,
      limit_text]"

text \<open>What nft documents of the texts the renderers write.\<close>

locale nft_matcher =
  fixes ev :: "nft_set list \<Rightarrow> packet \<Rightarrow> string \<Rightarrow> bool"
  assumes ev_atoms: "list_all wf_atom as \<Longrightarrow> ev S p (atoms_text as) = list_all (holds S p) as"
    and ev_fact: "t \<in> set fact_texts \<Longrightarrow> ev S p t = pkt_facts p t"
begin

lemma ev_any: "ev S p [] = True"
  using ev_atoms [of "[]"] by (simp add: atoms_text_def)

lemma ev_one: "wf_atom a \<Longrightarrow> ev S p (atom_text a) = holds S p a"
  using ev_atoms [of "[a]"] by (simp add: atoms_text_def)

end

section \<open>Evaluating a chain\<close>

datatype nft_verdict = VAccept | VDrop | VMasquerade | VJump string | VContinue

definition verdict_of :: "string \<Rightarrow> nft_verdict" where
  "verdict_of v =
     (if v = ''accept'' then VAccept
      else if v = ''drop'' then VDrop
      else if v = ''masquerade'' then VMasquerade
      else if HasPrefix v ''jump '' then VJump (drop 5 v)
      else VContinue)"

text \<open>
  \<open>Refused\<close> is a jump to a chain the table does not have, or past the sixteen levels of
  the kernel's jump stack: a table nft does not load.
\<close>

datatype outcome = Accepted | Dropped | Masqueraded | Fell | Refused

fun walk :: "nat \<Rightarrow> (string \<Rightarrow> bool) \<Rightarrow> ruleset \<Rightarrow> nft_rule list \<Rightarrow> outcome" where
  "walk d m r [] = Fell"
| "walk d m r (x # xs) =
     (if \<not> m (rule_Match x) then walk d m r xs
      else case verdict_of (rule_Verdict x) of
        VAccept \<Rightarrow> Accepted
      | VDrop \<Rightarrow> Dropped
      | VMasquerade \<Rightarrow> Masqueraded
      | VContinue \<Rightarrow> walk d m r xs
      | VJump c \<Rightarrow>
          (case d of
             0 \<Rightarrow> Refused
           | Suc d' \<Rightarrow>
               (case Ruleset_Chain r c of
                  None \<Rightarrow> Refused
                | Some ch \<Rightarrow>
                    (case walk d' m r (chain_Rules ch) of
                       Fell \<Rightarrow> walk d m r xs
                     | out \<Rightarrow> out))))"

definition jump_stack :: nat where "jump_stack = 16"

lemma jump_stack_Suc: "\<exists>k. jump_stack = Suc (Suc k)"
  by (rule exI [of _ 14]) (simp add: jump_stack_def)

text \<open>One base chain, with its policy \<open>accept\<close>; and the forward hook, at which the egress
  chain runs at priority \<open>filter\<close> and the ingress chain after it at \<open>filter + 1\<close>: an accept
  ends one chain, a drop ends the packet.\<close>

definition hook :: "(nft_set list \<Rightarrow> packet \<Rightarrow> string \<Rightarrow> bool) \<Rightarrow> ruleset \<Rightarrow> string \<Rightarrow> packet \<Rightarrow> outcome" where
  "hook ev r name p =
     (case Ruleset_Chain r name of
        None \<Rightarrow> Accepted
      | Some c \<Rightarrow>
          (case walk jump_stack (ev (rs_Sets r) p) r (chain_Rules c) of Fell \<Rightarrow> Accepted | out \<Rightarrow> out))"

definition forward_hook ::
  "(nft_set list \<Rightarrow> packet \<Rightarrow> string \<Rightarrow> bool) \<Rightarrow> ruleset \<Rightarrow> packet \<Rightarrow> outcome" where
  "forward_hook ev r p =
     (case hook ev r ChainEgress p of Accepted \<Rightarrow> hook ev r ChainIngress p | out \<Rightarrow> out)"

text \<open>
  The same off the declarations of the base chains, as the kernel goes by them: at a hook the chains
  of type \<open>filter\<close> that are declared there run in the order of their priorities, given by name and
  offset as in \<^verbatim>\<open>nft(8)\<close>, and a packet no rule of a chain decides is left to the chain's policy.
\<close>

definition bases :: "ruleset \<Rightarrow> (string \<times> base_chain) list" where
  "bases r = List.map_filter (\<lambda>c. map_option (Pair (chain_Name c)) (chain_Base c)) (rs_Chains r)"

definition priority_of :: "string \<Rightarrow> int" where
  "priority_of s =
     (let name = takeWhile (\<lambda>c. c \<noteq> CHR '' '') s; offset = drop (length name) s
      in (case map_of [(''raw'', -300), (''mangle'', -150), (''dstnat'', -100), (''filter'', 0), (''security'', 50), (''srcnat'', 100)] name of
            Some k \<Rightarrow> k | None \<Rightarrow> 0) +
         (if HasPrefix offset '' + '' then foldl (\<lambda>n c. 10 * n + (of_char c - 48)) 0 (drop 3 offset) else 0))"

definition base_run ::
  "(nft_set list \<Rightarrow> packet \<Rightarrow> string \<Rightarrow> bool) \<Rightarrow> ruleset \<Rightarrow> packet \<Rightarrow> string \<times> base_chain \<Rightarrow> outcome" where
  "base_run ev r p = (\<lambda>(name, b).
     case Ruleset_Chain r name of
       None \<Rightarrow> Refused
     | Some c \<Rightarrow>
         (case walk jump_stack (ev (rs_Sets r) p) r (chain_Rules c) of
            Fell \<Rightarrow> if base_Policy b = ''accept'' then Accepted else Dropped
          | out \<Rightarrow> out))"

fun run_bases ::
  "(nft_set list \<Rightarrow> packet \<Rightarrow> string \<Rightarrow> bool) \<Rightarrow> ruleset \<Rightarrow> packet \<Rightarrow> (string \<times> base_chain) list \<Rightarrow> outcome" where
  "run_bases ev r p [] = Accepted"
| "run_bases ev r p (x # xs) = (case base_run ev r p x of Accepted \<Rightarrow> run_bases ev r p xs | out \<Rightarrow> out)"

definition at_hook :: "(nft_set list \<Rightarrow> packet \<Rightarrow> string \<Rightarrow> bool) \<Rightarrow> ruleset \<Rightarrow> string \<Rightarrow> packet \<Rightarrow> outcome" where
  "at_hook ev r h p =
     run_bases ev r p (sort_key (\<lambda>(name, b). priority_of (base_Priority b))
       (filter (\<lambda>(name, b). base_Type b = ''filter'' \<and> base_Hook b = h) (bases r)))"

lemma bases_add_chain [simp]: "chain_Base c = None \<Longrightarrow> bases (add_chain c r) = bases r"
  by (simp add: bases_def add_chain_def List.map_filter_def)

lemma bases_with_chain:
  assumes "\<And>c. chain_Name (f c) = chain_Name c" "\<And>c. chain_Base (f c) = chain_Base c"
  shows "bases (with_chain n f r) = bases r"
proof -
  have "List.map_filter (\<lambda>c. map_option (Pair (chain_Name c)) (chain_Base c)) (update_first Q f cs) =
      List.map_filter (\<lambda>c. map_option (Pair (chain_Name c)) (chain_Base c)) cs" for Q cs
    using assms by (induction cs) (auto simp: map_filter_simps split: option.splits)
  then show ?thesis by (simp add: bases_def with_chain_def)
qed

lemma bases_cong: "rs_Chains r = rs_Chains r' \<Longrightarrow> bases r = bases r'"
  by (simp add: bases_def)

lemma base_run_accept:
  "base_Policy b = ''accept'' \<Longrightarrow> Ruleset_Chain r n \<noteq> None \<Longrightarrow> base_run ev r p (n, b) = hook ev r n p"
  by (auto simp: base_run_def hook_def split: outcome.splits)

lemma verdict_simps [simp]:
  "verdict_of ''accept'' = VAccept"
  "verdict_of ''drop'' = VDrop"
  "verdict_of ''masquerade'' = VMasquerade"
  "verdict_of ''continue'' = VContinue"
  "verdict_of (CHR ''j'' # CHR ''u'' # CHR ''m'' # CHR ''p'' # CHR '' '' # c) = VJump c"
  by (simp_all add: verdict_of_def HasPrefix_def)

lemma walk_append:
  "walk d m r (xs @ ys) = (case walk d m r xs of Fell \<Rightarrow> walk d m r ys | out \<Rightarrow> out)"
  by (induction xs) (auto split: nft_verdict.splits nat.splits option.splits outcome.splits)

lemma walk_jump:
  assumes "m (rule_Match x)" "rule_Verdict x = ''jump '' @ c" "Ruleset_Chain r c = Some ch"
  shows "walk (Suc d) m r (x # xs) =
    (case walk d m r (chain_Rules ch) of Fell \<Rightarrow> walk (Suc d) m r xs | out \<Rightarrow> out)"
  using assms by simp

text \<open>A list of rules that only accept: accepted where one of them matches.\<close>

definition accepts_only :: "nft_rule list \<Rightarrow> bool" where
  "accepts_only rs \<longleftrightarrow> list_all (\<lambda>x. rule_Verdict x = ''accept'') rs"

lemma walk_accepts:
  "accepts_only rs \<Longrightarrow>
     walk d m r rs = (if list_ex (\<lambda>x. m (rule_Match x)) rs then Accepted else Fell)"
  by (induction rs) (auto simp: accepts_only_def)

text \<open>A list of jumps into chains that only accept.\<close>

lemma walk_jumps:
  assumes "\<And>x. x \<in> set js \<Longrightarrow> \<exists>ch. rule_Verdict x = ''jump '' @ c x \<and> Ruleset_Chain r (c x) = Some ch \<and>
             accepts_only (chain_Rules ch) \<and> (list_ex (\<lambda>y. m (rule_Match y)) (chain_Rules ch) \<longleftrightarrow> ok x)"
  shows "walk (Suc d) m r js = (if \<exists>x \<in> set js. m (rule_Match x) \<and> ok x then Accepted else Fell)"
  using assms
proof (induction js)
  case (Cons x js)
  then obtain ch where x: "rule_Verdict x = ''jump '' @ c x" "Ruleset_Chain r (c x) = Some ch"
    "accepts_only (chain_Rules ch)" "list_ex (\<lambda>y. m (rule_Match y)) (chain_Rules ch) \<longleftrightarrow> ok x"
    by auto
  have "walk (Suc d) m r js = (if \<exists>x \<in> set js. m (rule_Match x) \<and> ok x then Accepted else Fell)"
    using Cons by simp
  then show ?case using x by (auto simp: walk_accepts)
qed simp

section \<open>The skeleton of the table\<close>

lemma Render_Inr:
  assumes "Render p = Inr r"
  shows "validate p = Inr ()" "rs_Sets r = Render_sets p" "rs_Chains r = Render_chains (SafePorts p)"
  using assms by (auto simp: Render_def bind_err_Inr)

lemma chain_names_Render:
  "map chain_Name (Render_chains ports) =
     [ChainEgress, ChainEgressDispatch, ChainIngress, ChainIngressDispatch, ChainInput, ChainOutput,
      ChainPostrouting]"
  by (simp add: Render_chains_def podChain_def dispatchChain_def inputChain_def outputChain_def
      postroutingChain_def)

lemma set_names_Render:
  "map set_Name (Render_sets p) =
     [SetNodePodsV4, SetNodePodsV6, SetClusterPodsV4, SetClusterPodsV6, SetIsolatedEgressV4,
      SetIsolatedEgressV6, SetIsolatedIngressV4, SetIsolatedIngressV6]"
  by (simp add: Render_sets_def prefixSet_def addrSet_def split: prod.splits)

lemma Render_Chain:
  assumes "Render p = Inr r"
  shows "Ruleset_Chain r ChainInput = Some (inputChain (SafePorts p))"
    and "Ruleset_Chain r ChainOutput = Some (outputChain (SafePorts p))"
    and "Ruleset_Chain r ChainEgressDispatch = Some (dispatchChain ChainEgressDispatch)"
    and "Ruleset_Chain r ChainIngressDispatch = Some (dispatchChain ChainIngressDispatch)"
  by (simp_all add: Render_Inr [OF assms] Ruleset_Chain_def Render_chains_def podChain_def
      dispatchChain_def inputChain_def outputChain_def chain_name_defs)

text \<open>
  A table with the base chains of the skeleton: the egress chain ahead of the ingress chain at the forward
  hook, one chain at each of the other two, all with the policy \<open>accept\<close>.
\<close>

lemma skeleton_bases:
  assumes "Render p = Inr r"
  shows "bases r =
    [(ChainEgress, \<lparr>base_Type = ''filter'', base_Hook = ''forward'', base_Priority = ''filter'', base_Policy = ''accept''\<rparr>),
     (ChainIngress, \<lparr>base_Type = ''filter'', base_Hook = ''forward'', base_Priority = ''filter + 1'', base_Policy = ''accept''\<rparr>),
     (ChainInput, \<lparr>base_Type = ''filter'', base_Hook = ''input'', base_Priority = ''filter'', base_Policy = ''accept''\<rparr>),
     (ChainOutput, \<lparr>base_Type = ''filter'', base_Hook = ''output'', base_Priority = ''filter'', base_Policy = ''accept''\<rparr>),
     (ChainPostrouting, \<lparr>base_Type = ''nat'', base_Hook = ''postrouting'', base_Priority = ''srcnat'', base_Policy = ''accept''\<rparr>)]"
  by (simp add: bases_def map_filter_simps Render_Inr [OF assms] Render_chains_def podChain_def dispatchChain_def inputChain_def
      outputChain_def postroutingChain_def)

lemma skeleton_hooks:
  assumes "Render prm = Inr r0" "bases r = bases r0"
    and "\<forall>n \<in> {ChainEgress, ChainIngress, ChainInput, ChainOutput}. Ruleset_Chain r n \<noteq> None"
  shows "at_hook ev r ''forward'' p = forward_hook ev r p" "at_hook ev r ''input'' p = hook ev r ChainInput p"
    "at_hook ev r ''output'' p = hook ev r ChainOutput p"
proof -
  have "priority_of ''filter'' = 0" "priority_of ''filter + 1'' = 1" by (simp_all add: priority_of_def HasPrefix_def)
  then show "at_hook ev r ''forward'' p = forward_hook ev r p" "at_hook ev r ''input'' p = hook ev r ChainInput p"
    "at_hook ev r ''output'' p = hook ev r ChainOutput p"
    using assms(3)
    by (auto simp: at_hook_def assms(2) skeleton_bases [OF assms(1)] base_run_accept forward_hook_def split: outcome.splits)
qed

section \<open>Packets and protocols as the policies name them\<close>

definition l4_name :: "string \<Rightarrow> string" where
  "l4_name q = (if q = [] then ''tcp'' else ToLower q)"

lemma ToLower_protocols: "ToLower ''TCP'' = ''tcp''" "ToLower ''UDP'' = ''udp''" "ToLower ''SCTP'' = ''sctp''"
  by code_simp+

definition plain_packet :: "packet \<Rightarrow> bool" where
  "plain_packet p \<longleftrightarrow> plain_addr (pkt_src p) \<and> plain_addr (pkt_dst p)"

lemma plain_packet_addr: "plain_packet p \<Longrightarrow> plain_addr (pkt_addr s p)"
  by (cases s) (simp_all add: plain_packet_def)

definition prefix_fam :: "prefix \<Rightarrow> fam" where
  "prefix_fam p = (if Is6 (Prefix_Addr p) then V6 else V4)"

lemma Contains_fam: "Contains p a \<Longrightarrow> of_fam (prefix_fam p) a"
  by (cases a; cases "Prefix_Addr p") (auto simp: Contains_def prefix_fam_def)

section \<open>The safe rules\<close>

text \<open>
  The traffic a NodeNetworkPolicy cannot cut, said of the packet: replies, loopback, the
  ICMP the node needs, and the ports of what runs the node and the cluster.
\<close>

definition in_range :: "port_range \<Rightarrow> packet \<Rightarrow> bool" where
  "in_range r p \<longleftrightarrow> From r \<le> pkt_dport p \<and> pkt_dport p \<le> To r"

definition safe_common :: "string \<Rightarrow> packet \<Rightarrow> bool" where
  "safe_common iface p \<longleftrightarrow>
     pkt_facts p established_text \<or> pkt_facts p (lo_text iface) \<or> pkt_facts p icmp_text \<or>
     pkt_facts p icmpv6_text"

definition safe_input :: "safe_ports \<Rightarrow> packet \<Rightarrow> bool" where
  "safe_input ports p \<longleftrightarrow>
     safe_common ''iifname'' p \<or>
     (pkt_l4 p = ''tcp'' \<and>
       (pkt_dport p \<in> {SSH ports, Kubelet ports, APIServer ports} \<or> in_range (Etcd ports) p)) \<or>
     ((pkt_l4 p = ''tcp'' \<or> pkt_l4 p = ''udp'') \<and> in_range (NodePort ports) p)"

definition safe_output :: "safe_ports \<Rightarrow> prefix list \<Rightarrow> packet \<Rightarrow> bool" where
  "safe_output ports podCIDRs p \<longleftrightarrow>
     safe_common ''oifname'' p \<or>
     (pkt_l4 p = ''tcp'' \<and> (pkt_dport p \<in> {APIServer ports, Kubelet ports} \<or> in_range (Etcd ports) p)) \<or>
     ((pkt_l4 p = ''tcp'' \<or> pkt_l4 p = ''udp'') \<and> pkt_dport p = DNS ports) \<or>
     (\<exists>c \<in> set podCIDRs. Contains c (pkt_dst p))"

lemma ranges_valid:
  "validate prm = Inr () \<Longrightarrow> From (Etcd (SafePorts prm)) \<le> To (Etcd (SafePorts prm)) \<and>
     From (NodePort (SafePorts prm)) \<le> To (NodePort (SafePorts prm))"
  by (auto simp: validate_def bind_err_Inr not_less split: if_splits)

lemma safe_rules_accept:
  "accepts_only (chain_Rules (inputChain ports))" "accepts_only (chain_Rules (outputChain ports))"
  by (simp_all add: accepts_only_def inputChain_def outputChain_def inputRules_def outputRules_def
      safeRulesCommon_def safePort_def)

lemma port_texts: "''tcp'' \<in> set port_protocols" "''udp'' \<in> set port_protocols"
  by (simp_all add: port_protocols_def)

lemma Contains_Masked: "wf_prefix c \<Longrightarrow> Prefix_IsValid c \<Longrightarrow> Contains (Masked c) a = Contains c a"
  by (simp add: Masked_valid Contains_def Prefix_IsValid_def)

lemma sorted_prefixes_set: "set (sorted_prefixes ps) = Masked ` set ps"
  by (simp add: sorted_prefixes_def)

lemma Contains_Is4: "Contains p a \<Longrightarrow> Is4 (Prefix_Addr p) = Is4 a \<and> Is6 a = (\<not> Is4 a)"
  by (cases a; cases "Prefix_Addr p") (auto simp: Contains_def)

text \<open>A rendered prefix set holds the addresses under the CIDRs it was rendered from.\<close>

lemma splitFamilies_has:
  assumes "list_all (\<lambda>c. wf_prefix c \<and> Prefix_IsValid c) ps" "plain_addr a"
  shows "Is4 a \<Longrightarrow> list_ex (\<lambda>e. denotes e a) (fst (splitFamilies ps)) \<longleftrightarrow> (\<exists>c \<in> set ps. Contains c a)"
    and "Is6 a \<Longrightarrow> list_ex (\<lambda>e. denotes e a) (snd (splitFamilies ps)) \<longleftrightarrow> (\<exists>c \<in> set ps. Contains c a)"
proof -
  have den: "denotes (Prefix_String (Masked c)) a \<longleftrightarrow> Contains c a" if "c \<in> set ps" for c
    using that assms denotes_Prefix [of "Masked c" a] Masked_idem [of c] Contains_Masked [of c a]
    by (auto simp: list_all_iff)
  have fam: "Contains c a \<Longrightarrow> Is4 (Prefix_Addr (Masked c)) = Is4 a \<and> Is6 a = (\<not> Is4 a)" if "c \<in> set ps" for c
    using that assms(1) Masked_idem(4) [of c] Contains_Is4 [of c a] by (auto simp: list_all_iff)
  show "Is4 a \<Longrightarrow> list_ex (\<lambda>e. denotes e a) (fst (splitFamilies ps)) \<longleftrightarrow> (\<exists>c \<in> set ps. Contains c a)"
    "Is6 a \<Longrightarrow> list_ex (\<lambda>e. denotes e a) (snd (splitFamilies ps)) \<longleftrightarrow> (\<exists>c \<in> set ps. Contains c a)"
    using den fam by (auto simp: splitFamilies_def list_ex_iff sorted_prefixes_set)
qed

lemma set_has_Set: "set_has (rs_Sets r) n a =
    (case Ruleset_Set r n of None \<Rightarrow> False | Some s \<Rightarrow> list_ex (\<lambda>e. denotes e a) (set_Elements s))"
  by (simp add: set_has_def Ruleset_Set_def)

text \<open>A table that still holds the node's own pod CIDRs as the skeleton rendered them.\<close>

definition node_pods_kept :: "params \<Rightarrow> ruleset \<Rightarrow> bool" where
  "node_pods_kept prm r \<longleftrightarrow>
     map_option set_Elements (Ruleset_Set r SetNodePodsV4) = Some (fst (splitFamilies (PodCIDRs prm))) \<and>
     map_option set_Elements (Ruleset_Set r SetNodePodsV6) = Some (snd (splitFamilies (PodCIDRs prm)))"

lemma Render_node_pods: "Render prm = Inr r \<Longrightarrow> node_pods_kept prm r"
  by (auto simp: node_pods_kept_def Ruleset_Set_def Render_Inr Render_sets_def prefixSet_def addrSet_def
      set_name_defs split: prod.splits)

definition wf_params :: "params \<Rightarrow> bool" where
  "wf_params prm \<longleftrightarrow> list_all wf_prefix (PodCIDRs prm) \<and> list_all wf_prefix (ClusterPodCIDRs prm)"

lemma one_per_family_valid: "one_per_family a b cs = Inr () \<Longrightarrow> list_all Prefix_IsValid cs"
  by (induction a b cs rule: one_per_family.induct) (auto split: if_splits)

lemma cluster_valid_valid: "cluster_valid cs = Inr () \<Longrightarrow> list_all Prefix_IsValid cs"
  by (induction cs) (auto split: if_splits)

lemma validate_prefixes:
  assumes "validate prm = Inr ()" "wf_params prm"
  shows "list_all (\<lambda>c. wf_prefix c \<and> Prefix_IsValid c) (PodCIDRs prm)"
    "list_all (\<lambda>c. wf_prefix c \<and> Prefix_IsValid c) (ClusterPodCIDRs prm)"
  using assms
  by (auto simp: validate_def wf_params_def bind_err_Inr list_all_iff split: if_splits
      dest!: one_per_family_valid cluster_valid_valid)

lemma node_pods_has:
  assumes "node_pods_kept prm r" "validate prm = Inr ()" "wf_params prm" "plain_addr a"
  shows "(Is4 a \<and> set_has (rs_Sets r) SetNodePodsV4 a) \<or> (Is6 a \<and> set_has (rs_Sets r) SetNodePodsV6 a) \<longleftrightarrow>
    (\<exists>c \<in> set (PodCIDRs prm). Contains c a)"
proof -
  obtain s4 s6 where "Ruleset_Set r SetNodePodsV4 = Some s4" "set_Elements s4 = fst (splitFamilies (PodCIDRs prm))"
    "Ruleset_Set r SetNodePodsV6 = Some s6" "set_Elements s6 = snd (splitFamilies (PodCIDRs prm))"
    using assms(1) by (auto simp: node_pods_kept_def)
  moreover have "Is4 a \<or> Is6 a" using assms(4) by (auto elim: plain_addr_cases)
  ultimately show ?thesis
    using splitFamilies_has [OF validate_prefixes(1) [OF assms(2,3)] assms(4)] by (auto simp: set_has_Set)
qed

lemma safeRulesCommon_matches:
  "map rule_Match (safeRulesCommon iface) = [established_text, lo_text iface, icmp_text, icmpv6_text]"
  by (simp add: safeRulesCommon_def established_text_def lo_text_def icmp_text_def icmpv6_text_def)

lemma safePort_match: "rule_Match (safePort q r w) = atom_text (range_atom q r)"
  by (simp add: safePort_def range_atom_text)

lemma node_pods_match:
  "''ip daddr @'' @ SetNodePodsV4 = atom_text (InSet V4 Daddr SetNodePodsV4)"
  "''ip6 daddr @'' @ SetNodePodsV6 = atom_text (InSet V6 Daddr SetNodePodsV6)"
  by simp_all

context nft_matcher
begin

lemma common_ev:
  assumes "iface \<in> {''iifname'', ''oifname''}"
  shows "list_ex (\<lambda>x. ev S p (rule_Match x)) (safeRulesCommon iface) = safe_common iface p"
proof -
  have "list_ex (\<lambda>x. ev S p (rule_Match x)) (safeRulesCommon iface) =
      list_ex (ev S p) (map rule_Match (safeRulesCommon iface))"
    by (simp add: list_ex_iff)
  then show ?thesis
    using assms by (auto simp: safeRulesCommon_matches safe_common_def ev_fact fact_texts_def)
qed

lemma safePort_ev:
  assumes "q \<in> set port_protocols" "From r \<le> To r"
  shows "ev S p (rule_Match (safePort q r w)) \<longleftrightarrow> pkt_l4 p = q \<and> in_range r p"
  unfolding safePort_match using ev_one [OF range_atom_wf [OF assms]] by (simp add: range_atom_holds in_range_def)

lemma single_le: "From (single n) \<le> To (single n)"
  by (simp add: single_def)

lemma in_range_single: "in_range (single n) p \<longleftrightarrow> pkt_dport p = n"
  by (auto simp: in_range_def single_def)

lemma inputRules_ev:
  assumes "validate prm = Inr ()"
  shows "list_ex (\<lambda>x. ev S p (rule_Match x)) (inputRules (SafePorts prm)) = safe_input (SafePorts prm) p"
  using ranges_valid [OF assms]
  by (auto simp: inputRules_def common_ev safe_input_def safePort_ev port_texts in_range_single single_le)

lemma outputRules_ev:
  assumes "validate prm = Inr ()" "wf_params prm" "node_pods_kept prm r" "plain_addr (pkt_dst p)"
  shows "list_ex (\<lambda>x. ev (rs_Sets r) p (rule_Match x)) (outputRules (SafePorts prm)) =
    safe_output (SafePorts prm) (PodCIDRs prm) p"
proof -
  have "name_token SetNodePodsV4" "name_token SetNodePodsV6"
    by (simp_all add: name_token_def set_name_defs id_char_def ident_char_def)
  then have "ev (rs_Sets r) p (''ip daddr @'' @ SetNodePodsV4) \<or> ev (rs_Sets r) p (''ip6 daddr @'' @ SetNodePodsV6) \<longleftrightarrow>
      (\<exists>c \<in> set (PodCIDRs prm). Contains c (pkt_dst p))"
    using node_pods_has [OF assms(3,1,2,4)] unfolding node_pods_match by (simp add: ev_one del: atom_text.simps)
  then show ?thesis
    using ranges_valid [OF assms(1)]
    by (auto simp: outputRules_def common_ev safe_output_def safePort_ev port_texts in_range_single single_le)
qed

end

end
