(* ===== verification/Nft_Reader.thy ===== *)
theory Nft_Reader
  imports Nft_Semantics
begin

text \<open>
  A reader of the match texts: it cuts a text at its spaces and reads the conditions back,
  in the grammar \<^verbatim>\<open>nft(8)\<close> gives for the forms the renderers use. It instantiates the locale
  \<open>nft_matcher\<close>, which shows that the laws stated there hold together, and it is what the
  witnesses of the statements about packets are evaluated with.
\<close>

fun commas :: "string list \<Rightarrow> string list" where
  "commas [] = []"
| "commas [c] = [c]"
| "commas (c # d # cs) = (c @ '','') # commas (d # cs)"

fun atom_tokens :: "atom \<Rightarrow> string list" where
  "atom_tokens (InSet f s x) = [fam_text f, side_text s, CHR ''@'' # x]"
| "atom_tokens (NotInSet f s x) = [fam_text f, side_text s, ''!='', CHR ''@'' # x]"
| "atom_tokens (InPrefix f s c) = [fam_text f, side_text s, c]"
| "atom_tokens (NoneOf f s cs) = [fam_text f, side_text s, ''!='', ''{''] @ commas cs @ [''}'']"
| "atom_tokens (L4Proto q) = [''meta'', ''l4proto'', q]"
| "atom_tokens (DPort q a) = [q, ''dport'', itoa (unat a)]"
| "atom_tokens (DPortRange q a b) = [q, ''dport'', itoa (unat a) @ ''-'' @ itoa (unat b)]"

definition read_fam :: "string \<Rightarrow> fam option" where
  "read_fam t = (if t = ''ip'' then Some V4 else if t = ''ip6'' then Some V6 else None)"

definition read_side :: "string \<Rightarrow> side" where
  "read_side t = (if t = ''saddr'' then Saddr else Daddr)"

definition uncomma :: "string \<Rightarrow> string" where
  "uncomma t = takeWhile (\<lambda>c. c \<noteq> CHR '','') t"

definition read_nat :: "string \<Rightarrow> nat" where
  "read_nat t = foldl (\<lambda>acc c. acc * 10 + unhexdigit c) 0 t"

definition read_port :: "string \<Rightarrow> string \<Rightarrow> atom" where
  "read_port q t =
     (case split_on CHR ''-'' t of
        x # y # _ \<Rightarrow> DPortRange q (word_of_nat (read_nat x)) (word_of_nat (read_nat y))
      | _ \<Rightarrow> DPort q (word_of_nat (read_nat t)))"

lemma length_after_brace: "length (dropWhile P xs) - Suc 0 < Suc (Suc (Suc (Suc (length xs))))"
  using length_dropWhile_le [of P xs] by linarith

function read_atoms :: "string list \<Rightarrow> atom list option" where
  "read_atoms [] = Some []"
| "read_atoms [a] = None"
| "read_atoms [a, b] = None"
| "read_atoms (a # b # c # rest) =
     (case read_fam a of
        Some f \<Rightarrow>
          (if c = ''!='' then
             (case rest of
                [] \<Rightarrow> None
              | t # rest' \<Rightarrow>
                  if t = ''{'' then
                    map_option (Cons (NoneOf f (read_side b) (map uncomma (takeWhile (\<lambda>t. t \<noteq> ''}'') rest'))))
                      (read_atoms (drop 1 (dropWhile (\<lambda>t. t \<noteq> ''}'') rest')))
                  else map_option (Cons (NotInSet f (read_side b) (drop 1 t))) (read_atoms rest'))
           else if take 1 c = ''@'' then
             map_option (Cons (InSet f (read_side b) (drop 1 c))) (read_atoms rest)
           else map_option (Cons (InPrefix f (read_side b) c)) (read_atoms rest))
      | None \<Rightarrow>
          (if a = ''meta'' then map_option (Cons (L4Proto c)) (read_atoms rest)
           else map_option (Cons (read_port a c)) (read_atoms rest)))"
  by pat_completeness auto
termination
  by (relation "measure length") (auto simp: length_after_brace)

definition read_match :: "nft_set list \<Rightarrow> packet \<Rightarrow> string \<Rightarrow> bool" where
  "read_match S p t =
     (if t \<in> set fact_texts then pkt_facts p t
      else if t = [] then True
      else case read_atoms (split_on CHR '' '' t) of
        None \<Rightarrow> False
      | Some as \<Rightarrow> list_all (holds S p) as)"

section \<open>Reading back what is written\<close>

lemma join_commas: "join '' '' (commas cs) = join '', '' cs"
proof (induction cs rule: commas.induct)
  case (3 c d cs)
  then show ?case by (cases cs) auto
qed auto

lemma commas_eq_Nil [simp]: "commas cs = [] \<longleftrightarrow> cs = []"
  by (cases cs rule: commas.cases) auto

lemma atom_text_tokens: "wf_atom a \<Longrightarrow> atom_text a = join '' '' (atom_tokens a)"
proof (cases a)
  case (NoneOf f s cs)
  moreover assume "wf_atom a"
  ultimately show ?thesis
    using join_append [of "commas cs" "[''}'']" "'' ''"]
    by (simp add: join_Cons join_commas)
qed simp_all

lemma atom_tokens_not_Nil [simp]: "atom_tokens a \<noteq> []"
  by (cases a) auto

lemma atoms_text_tokens:
  "list_all wf_atom as \<Longrightarrow> atoms_text as = join '' '' (concat (map atom_tokens as))"
proof (induction as)
  case (Cons a as)
  show ?case
  proof (cases "as = []")
    case False
    then have "concat (map atom_tokens as) \<noteq> []" by (cases as) auto
    with Cons False show ?thesis
      by (simp add: atoms_text_def join_Cons join_append atom_text_tokens)
  qed (use Cons in \<open>simp add: atoms_text_def atom_text_tokens\<close>)
qed (simp add: atoms_text_def)

lemma prefix_token_chars:
  assumes "prefix_token c"
  shows "CHR '' '' \<notin> set c" "CHR '','' \<notin> set c" "CHR ''}'' \<notin> set c" "CHR ''@'' \<notin> set c" "CHR ''!'' \<notin> set c"
    "c \<noteq> []"
proof -
  have sub: "set c \<subseteq> insert CHR ''/'' addr_chars" and c: "c \<noteq> []"
    using assms by (auto simp: prefix_token_def)
  have "x \<notin> set c" if "x \<notin> insert CHR ''/'' addr_chars" for x using that sub by blast
  with c show "CHR '' '' \<notin> set c" "CHR '','' \<notin> set c" "CHR ''}'' \<notin> set c" "CHR ''@'' \<notin> set c"
    "CHR ''!'' \<notin> set c" "c \<noteq> []"
    by (simp_all add: addr_chars_def)
qed

lemma commas_tokens:
  assumes "list_all prefix_token cs" "t \<in> set (commas cs)"
  shows "CHR '' '' \<notin> set t" "t \<noteq> ''}''"
  using assms
  by (induction cs rule: commas.induct) (auto dest: prefix_token_chars)

lemma uncomma_commas: "list_all prefix_token cs \<Longrightarrow> map uncomma (commas cs) = cs"
proof (induction cs rule: commas.induct)
  case (2 c)
  then show ?case by (auto simp: uncomma_def takeWhile_eq_all_conv dest: prefix_token_chars)
next
  case (3 c d cs)
  then have "CHR '','' \<notin> set c" by (auto dest: prefix_token_chars)
  then have "uncomma (c @ '','') = c"
    unfolding uncomma_def by (subst takeWhile_append2) auto
  with 3 show ?case by simp
qed simp

lemma keyword_no_space [simp]:
  "CHR '' '' \<notin> set (fam_text f)" "CHR '' '' \<notin> set (side_text s)"
  by (cases f; simp) (cases s; simp)

lemma atom_tokens_no_space: "wf_atom a \<Longrightarrow> t \<in> set (atom_tokens a) \<Longrightarrow> CHR '' '' \<notin> set t"
proof (cases a)
  case (NoneOf f s cs)
  moreover assume "wf_atom a" "t \<in> set (atom_tokens a)"
  ultimately show ?thesis by (auto dest: commas_tokens)
qed (auto simp: port_protocols_def itoa_no dest: prefix_token_chars name_token_no_space)

lemma split_on_atoms_text:
  "list_all wf_atom as \<Longrightarrow> as \<noteq> [] \<Longrightarrow> split_on CHR '' '' (atoms_text as) = concat (map atom_tokens as)"
proof -
  assume as: "list_all wf_atom as" "as \<noteq> []"
  then have "concat (map atom_tokens as) \<noteq> []" by (cases as) auto
  moreover have "CHR '' '' \<notin> set t" if "t \<in> set (concat (map atom_tokens as))" for t
    using that as atom_tokens_no_space by (auto simp: list_all_iff)
  ultimately show ?thesis
    unfolding atoms_text_tokens [OF as(1)] by (rule split_on_join)
qed

lemma read_nat_itoa: "read_nat (itoa n) = n"
  using radix_value [of 10 n] by (simp add: read_nat_def itoa_def)

lemma read_port_text:
  "read_port q (itoa (unat a)) = DPort q a"
  "read_port q (itoa (unat a) @ CHR ''-'' # itoa (unat b)) = DPortRange q a b"
  by (simp_all add: read_port_def split_on_none split_on_append_sep itoa_no read_nat_itoa)

lemma read_fam_text [simp]: "read_fam (fam_text f) = Some f"
  by (cases f) (simp_all add: read_fam_def)

lemma read_side_text [simp]: "read_side (side_text s) = s"
  by (cases s) (simp_all add: read_side_def)

lemma read_fam_protocol: "q \<in> set port_protocols \<Longrightarrow> read_fam q = None \<and> q \<noteq> ''meta''"
  by (auto simp: port_protocols_def read_fam_def)

lemma read_fam_meta: "read_fam ''meta'' = None"
  by (simp add: read_fam_def)

lemma takeWhile_commas:
  assumes "list_all prefix_token cs"
  shows "takeWhile (\<lambda>t. t \<noteq> ''}'') (commas cs @ ''}'' # rest) = commas cs"
    and "dropWhile (\<lambda>t. t \<noteq> ''}'') (commas cs @ ''}'' # rest) = ''}'' # rest"
  using commas_tokens [OF assms] by (simp_all add: takeWhile_append2 dropWhile_append2)

lemma read_atom_tokens:
  "wf_atom a \<Longrightarrow> read_atoms (atom_tokens a @ rest) = map_option (Cons a) (read_atoms rest)"
proof (cases a)
  case (InPrefix f s c)
  moreover assume "wf_atom a"
  ultimately have "prefix_token c" by simp
  then have "c \<noteq> ''!=''" "take 1 c \<noteq> ''@''" by (cases c; auto dest: prefix_token_chars)+
  with InPrefix show ?thesis by simp
next
  case (NoneOf f s cs)
  moreover assume "wf_atom a"
  ultimately show ?thesis by (simp add: takeWhile_commas uncomma_commas)
next
  case (L4Proto q)
  then show ?thesis by (simp add: read_fam_meta)
next
  case (DPort q x)
  moreover assume "wf_atom a"
  ultimately show ?thesis by (simp add: read_fam_protocol read_port_text)
next
  case (DPortRange q x y)
  moreover assume "wf_atom a"
  ultimately show ?thesis by (simp add: read_fam_protocol read_port_text)
qed simp_all

lemma read_atoms_tokens: "list_all wf_atom as \<Longrightarrow> read_atoms (concat (map atom_tokens as)) = Some as"
  by (induction as) (simp_all add: read_atom_tokens)

text \<open>No fixed text begins like a list of conditions does.\<close>

definition first_tokens :: "string list" where
  "first_tokens = [''ip'', ''ip6'', ''meta'', ''tcp'', ''udp'', ''sctp'']"

lemma hd_atom_tokens: "wf_atom a \<Longrightarrow> hd (atom_tokens a) \<in> set first_tokens"
proof -
  assume "wf_atom a"
  moreover have "fam_text f \<in> {''ip'', ''ip6''}" for f by (cases f) auto
  ultimately show ?thesis by (cases a) (auto simp: first_tokens_def port_protocols_def)
qed

lemma fact_first_token: "t \<in> set fact_texts \<Longrightarrow> hd (split_on CHR '' '' t) \<notin> set first_tokens"
  by (auto simp: fact_texts_def established_text_def nd_text_def lo_text_def icmp_text_def
      icmpv6_text_def limit_text_def first_tokens_def QUOT_def)

lemma atoms_text_not_fact: "list_all wf_atom as \<Longrightarrow> atoms_text as \<notin> set fact_texts"
proof (cases as)
  case Nil
  then show ?thesis
    by (simp add: atoms_text_def fact_texts_def established_text_def nd_text_def lo_text_def
        icmp_text_def icmpv6_text_def limit_text_def)
next
  case (Cons a as')
  assume wf: "list_all wf_atom as"
  then have "hd (split_on CHR '' '' (atoms_text as)) = hd (atom_tokens a)"
    using Cons by (simp add: split_on_atoms_text)
  with wf Cons hd_atom_tokens show ?thesis using fact_first_token by fastforce
qed

lemma atoms_text_eq_Nil: "list_all wf_atom as \<Longrightarrow> atoms_text as = [] \<longleftrightarrow> as = []"
  by (metis atoms_text_def join.simps(1) list.simps(8) atom_tokens_not_Nil concat.simps
      list.exhaust read_atoms.simps(2) read_atoms_tokens split_on.simps(1) split_on_atoms_text
      option.distinct(1))

interpretation reader: nft_matcher read_match
proof
  fix as S p
  assume wf: "list_all wf_atom as"
  show "read_match S p (atoms_text as) = list_all (holds S p) as"
  proof (cases "as = []")
    case True
    then show ?thesis using atoms_text_not_fact [OF wf] by (simp add: read_match_def atoms_text_def)
  next
    case False
    with wf show ?thesis
      using atoms_text_not_fact [OF wf] atoms_text_eq_Nil [OF wf]
      by (simp add: read_match_def split_on_atoms_text read_atoms_tokens)
  qed
next
  fix t S p
  assume "t \<in> set fact_texts"
  then show "read_match S p t = pkt_facts p t" by (simp add: read_match_def)
qed

end
