(* ===== verification/Netpol.thy ===== *)
theory Netpol
  imports Api_V1alpha1 Nft_Reader
begin

text \<open>
  \<open>internal/netpol\<close>: the NetworkPolicies of the cluster, rendered into the table for the
  pods of one node. The types are those of \<open>netpol.go\<close>; the functions those of
  \<open>render.go\<close>, each as a step on the builder it is a method of. On an error the
  builder's table is dropped, as the caller drops it.

  Reading a label selector is a library's: \<open>asel\<close> stands for
  \<open>metav1.LabelSelectorAsSelector\<close> and \<open>everything\<close> for \<open>labels.Everything()\<close>.
\<close>

section \<open>Input (netpol.go)\<close>

record named_port =
  np_PortName :: string
  np_PortNumber :: "16 word"
  np_PortProtocol :: string

record pod =
  pod_Namespace :: string
  pod_Name :: string
  pod_NodeName :: string
  pod_Labels :: labels
  pod_IPs :: "addr list"
  pod_HostNetwork :: bool
  pod_Terminated :: bool
  pod_Ports :: "named_port list"

record namespace =
  ns_Name :: string
  ns_Labels :: labels

record ip_block =
  blk_CIDR :: prefix
  blk_Except :: "prefix list"

record 'sel peer =
  peer_PodSelector :: "'sel option"
  peer_NamespaceSelector :: "'sel option"
  peer_IPBlock :: "ip_block option"

record np_port =
  port_Protocol :: string
  port_Number :: "16 word"
  port_Name :: string
  port_EndPort :: "16 word"

record 'sel np_rule =
  rule_Peers :: "'sel peer list"
  rule_Ports :: "np_port list"

record 'sel network_policy =
  pol_Namespace :: string
  pol_Name :: string
  pol_PodSelector :: 'sel
  pol_PolicyTypes :: "policy_type list"
  pol_Ingress :: "'sel np_rule list"
  pol_Egress :: "'sel np_rule list"

record 'sel np_params =
  np_NodeName :: string
  np_Pods :: "pod list"
  np_Namespaces :: "namespace list"
  np_Policies :: "'sel network_policy list"

definition ProtocolTCP :: string where "ProtocolTCP = ''TCP''"

definition governs :: "'sel network_policy \<Rightarrow> policy_type \<Rightarrow> bool" where
  "governs p t =
     (if pol_PolicyTypes p = []
      then (if t = PolicyTypeEgress then pol_Egress p \<noteq> [] else t = PolicyTypeIngress)
      else t \<in> set (pol_PolicyTypes p))"

definition pol_rules :: "'sel network_policy \<Rightarrow> policy_type \<Rightarrow> 'sel np_rule list" where
  "pol_rules p t = (if t = PolicyTypeEgress then pol_Egress p else pol_Ingress p)"

section \<open>The builder and the directions\<close>

record builder =
  bld_ruleset :: ruleset
  bld_nodeName :: string
  bld_namespaces :: "string \<Rightarrow> namespace option"
  bld_pods :: "pod list"
  bld_isolated :: "policy_type \<Rightarrow> addr list"

type_synonym 'a build = "builder \<Rightarrow> go_error + 'a \<times> builder"

record dir =
  dir_typ :: policy_type
  dir_tag :: string
  dir_chainPrefix :: string
  dir_dispatch :: string
  dir_peerAddr :: string
  dir_selfAddr :: string
  dir_isolatedV4 :: string
  dir_isolatedV6 :: string

definition np_ingress :: dir where
  "np_ingress =
     \<lparr>dir_typ = PolicyTypeIngress, dir_tag = ''in'', dir_chainPrefix = ''ingress_'',
      dir_dispatch = ChainIngressDispatch, dir_peerAddr = ''saddr'', dir_selfAddr = ''daddr'',
      dir_isolatedV4 = SetIsolatedIngressV4, dir_isolatedV6 = SetIsolatedIngressV6\<rparr>"

definition np_egress :: dir where
  "np_egress =
     \<lparr>dir_typ = PolicyTypeEgress, dir_tag = ''eg'', dir_chainPrefix = ''egress_'',
      dir_dispatch = ChainEgressDispatch, dir_peerAddr = ''daddr'', dir_selfAddr = ''saddr'',
      dir_isolatedV4 = SetIsolatedEgressV4, dir_isolatedV6 = SetIsolatedEgressV6\<rparr>"

section \<open>Matches\<close>

datatype family = familyBoth | familyV4 | familyV6

record match =
  m_fam :: family
  m_expr :: string

definition any_match :: match where
  "any_match = \<lparr>m_fam = familyBoth, m_expr = []\<rparr>"

definition match_and :: "match \<Rightarrow> match \<Rightarrow> match option" where
  "match_and m other =
     (if m_fam m \<noteq> m_fam other \<and> m_fam m \<noteq> familyBoth \<and> m_fam other \<noteq> familyBoth then None
      else
       (let fam = (if m_fam m = m_fam other then m_fam m
                   else if m_fam m = familyBoth then m_fam other else m_fam m)
        in Some \<lparr>m_fam = fam,
                 m_expr = (if m_expr m = [] then m_expr other
                           else if m_expr other = [] then m_expr m
                           else m_expr m @ '' '' @ m_expr other)\<rparr>))"

record podAddrs =
  pa_v4 :: string
  pa_v6 :: string

definition pa_matches :: "podAddrs \<Rightarrow> (string \<Rightarrow> string \<Rightarrow> string) \<Rightarrow> match list" where
  "pa_matches a expr =
     (if pa_v4 a \<noteq> [] then [\<lparr>m_fam = familyV4, m_expr = expr ''ip'' (pa_v4 a)\<rparr>] else []) @
     (if pa_v6 a \<noteq> [] then [\<lparr>m_fam = familyV6, m_expr = expr ''ip6'' (pa_v6 a)\<rparr>] else [])"

section \<open>Pods and selectors\<close>

definition pod_key :: "pod \<Rightarrow> string" where
  "pod_key p = pod_Namespace p @ ''/'' @ pod_Name p"

definition own_addrs :: "pod \<Rightarrow> addr list" where
  "own_addrs p = map Unmap (filter Addr_IsValid (pod_IPs p))"

definition usablePods :: "pod list \<Rightarrow> pod list" where
  "usablePods pods =
     sort_key pod_key
       (map (\<lambda>p. p\<lparr>pod_IPs := own_addrs p\<rparr>)
         (filter (\<lambda>p. \<not> (pod_HostNetwork p \<or> pod_Terminated p) \<and> own_addrs p \<noteq> []) pods))"

definition asSelector :: "'sel as_selector \<Rightarrow> 'sel \<Rightarrow> go_error + (labels \<Rightarrow> bool)" where
  "asSelector asel s = map_err (\<lambda>e. ''label selector: '' @ e) (asel s)"

definition peerPods ::
  "'sel as_selector \<Rightarrow> (labels \<Rightarrow> bool) \<Rightarrow> builder \<Rightarrow> string \<Rightarrow> 'sel peer \<Rightarrow> go_error + pod list" where
  "peerPods asel everything b policyNamespace p =
     bind_err (case peer_PodSelector p of
                 None \<Rightarrow> Inr everything
               | Some s \<Rightarrow> asSelector asel s) (\<lambda>podSelector.
     bind_err (case peer_NamespaceSelector p of
                 None \<Rightarrow> Inr (\<lambda>n. n = policyNamespace)
               | Some s \<Rightarrow>
                   bind_err (asSelector asel s) (\<lambda>namespaceSelector.
                     Inr (\<lambda>n. case bld_namespaces b n of
                                None \<Rightarrow> False
                              | Some ns \<Rightarrow> namespaceSelector (ns_Labels ns)))) (\<lambda>covered.
       Inr (filter (\<lambda>pod. covered (pod_Namespace pod) \<and> podSelector (pod_Labels pod)) (bld_pods b))))"

section \<open>Sets of pods\<close>

definition addSet :: "string \<Rightarrow> string list \<Rightarrow> string list \<Rightarrow> string \<Rightarrow> string \<Rightarrow> string build" where
  "addSet pre parts addrs typ fam b =
     (if addrs = [] then Inr ([], b)
      else
       bind_err (Identifier pre (parts @ [fam])) (\<lambda>name.
         Inr (name, b\<lparr>bld_ruleset := add_set
                \<lparr>set_Name = name, set_Type = typ, set_Flags = [],
                 set_Elements = remdups_adj (sort addrs), set_Comment = []\<rparr> (bld_ruleset b)\<rparr>)))"

definition pod_strings :: "(addr \<Rightarrow> bool) \<Rightarrow> pod list \<Rightarrow> string list" where
  "pod_strings P pods = map Addr_String (filter P (concat (map pod_IPs pods)))"

definition podSets :: "string \<Rightarrow> string list \<Rightarrow> pod list \<Rightarrow> podAddrs build" where
  "podSets pre parts pods =
     st_bind (addSet pre parts (pod_strings Is4 pods) ''ipv4_addr'' ''v4'') (\<lambda>v4.
     st_bind (addSet pre parts (pod_strings (\<lambda>a. \<not> Is4 a) pods) ''ipv6_addr'' ''v6'') (\<lambda>v6.
       st_return \<lparr>pa_v4 = v4, pa_v6 = v6\<rparr>))"

section \<open>Peers\<close>

definition ipBlockMatch :: "dir \<Rightarrow> ip_block \<Rightarrow> match" where
  "ipBlockMatch d block =
     (let v6 = Is6 (Prefix_Addr (blk_CIDR block));
          pre = (if v6 then ''ip6'' else ''ip'');
          expr = pre @ '' '' @ dir_peerAddr d @ '' '' @ Prefix_String (blk_CIDR block)
      in \<lparr>m_fam = (if v6 then familyV6 else familyV4),
          m_expr =
            (if blk_Except block = [] then expr
             else expr @ '' '' @ pre @ '' '' @ dir_peerAddr d @ '' != { '' @
                  join '', '' (map Prefix_String (blk_Except block)) @ '' }'')\<rparr>)"

definition np_peer ::
  "'sel as_selector \<Rightarrow> (labels \<Rightarrow> bool) \<Rightarrow> 'sel network_policy \<Rightarrow> dir \<Rightarrow> nat \<Rightarrow> nat \<Rightarrow> 'sel peer \<Rightarrow>
     (match list \<times> pod list) build" where
  "np_peer asel everything policy d i j p b =
     (case peer_IPBlock p of
        Some block \<Rightarrow> Inr (([ipBlockMatch d block], []), b)
      | None \<Rightarrow>
          if peer_PodSelector p = None \<and> peer_NamespaceSelector p = None
          then Inr (([any_match], bld_pods b), b)
          else
           st_bind (st_lift (peerPods asel everything b (pol_Namespace policy) p)) (\<lambda>pods.
           st_bind (podSets ''peer_''
                     [pol_Namespace policy, pol_Name policy, dir_tag d @ itoa i @ ''.'' @ itoa j] pods) (\<lambda>addrs.
             st_return (pa_matches addrs (\<lambda>fam set. fam @ '' '' @ dir_peerAddr d @ '' @'' @ set), pods))) b)"

section \<open>Ports\<close>

definition samePortProtocol :: "string \<Rightarrow> string \<Rightarrow> bool" where
  "samePortProtocol a b \<longleftrightarrow> (if a = [] then ProtocolTCP else a) = (if b = [] then ProtocolTCP else b)"

text \<open>\<open>byNumber\<close>: the pods that declare the port, with the number each gives it, in the order read.\<close>

definition declared_ports :: "np_port \<Rightarrow> pod list \<Rightarrow> (16 word \<times> pod) list" where
  "declared_ports port receivers =
     concat (map (\<lambda>pod. map (\<lambda>dp. (np_PortNumber dp, pod))
       (filter (\<lambda>dp. np_PortName dp = port_Name port \<and>
                     samePortProtocol (np_PortProtocol dp) (port_Protocol port)) (pod_Ports pod))) receivers)"

definition port_pods :: "16 word \<Rightarrow> (16 word \<times> pod) list \<Rightarrow> pod list" where
  "port_pods n ds = map snd (filter (\<lambda>x. fst x = n) ds)"

definition namedPort ::
  "'sel network_policy \<Rightarrow> dir \<Rightarrow> nat \<Rightarrow> nat \<Rightarrow> nat \<Rightarrow> np_port \<Rightarrow> string \<Rightarrow> pod list \<Rightarrow> match list build" where
  "namedPort policy d i j k port proto receivers =
     (let byNumber = declared_ports port receivers;
          numbers = sort (remdups (map fst byNumber));
          name = dir_tag d @ itoa i @ ''.'' @ itoa j @ ''.'' @ itoa k
      in st_bind (st_each (\<lambda>number.
             st_bind (podSets ''port_''
                 [pol_Namespace policy, pol_Name policy, name, itoa (unat number)]
                 (port_pods number byNumber)) (\<lambda>addrs.
               st_return (pa_matches addrs (\<lambda>fam set.
                 fam @ '' daddr @'' @ set @ '' '' @ proto @ '' dport '' @ itoa (unat number))))) numbers)
           (\<lambda>mss. st_return (concat mss)))"

definition port_proto :: "np_port \<Rightarrow> string" where
  "port_proto port = (if port_Protocol port = [] then ToLower ProtocolTCP else ToLower (port_Protocol port))"

definition np_port_match ::
  "'sel network_policy \<Rightarrow> dir \<Rightarrow> nat \<Rightarrow> nat \<Rightarrow> pod list \<Rightarrow> nat \<times> np_port \<Rightarrow> match list build" where
  "np_port_match policy d i j receivers = (\<lambda>(k, port).
     let proto = port_proto port; one = (\<lambda>e. st_return [\<lparr>m_fam = familyBoth, m_expr = e\<rparr>])
     in if port_Name port \<noteq> [] then namedPort policy d i j k port proto receivers
        else if port_Number port = 0 then one (''meta l4proto '' @ proto)
        else if port_Number port < port_EndPort port
        then one (proto @ '' dport '' @ itoa (unat (port_Number port)) @ ''-'' @ itoa (unat (port_EndPort port)))
        else if port_EndPort port \<noteq> 0 \<and> port_EndPort port < port_Number port
        then st_lift (Inl (''endPort '' @ itoa (unat (port_EndPort port)) @ '' is below port '' @
               itoa (unat (port_Number port))))
        else one (proto @ '' dport '' @ itoa (unat (port_Number port))))"

definition np_ports ::
  "'sel network_policy \<Rightarrow> dir \<Rightarrow> nat \<Rightarrow> nat \<Rightarrow> np_port list \<Rightarrow> pod list \<Rightarrow> match list build" where
  "np_ports policy d i j ports receivers =
     (if ports = [] then st_return [any_match]
      else st_bind (st_each (np_port_match policy d i j receivers) (enumerate 0 ports))
             (\<lambda>mss. st_return (concat mss)))"

section \<open>Policies\<close>

definition policy_comment :: "'sel network_policy \<Rightarrow> string" where
  "policy_comment policy = pol_Namespace policy @ ''/'' @ pol_Name policy"

definition combos :: "match list \<Rightarrow> match list \<Rightarrow> match list" where
  "combos ps qs = concat (map (\<lambda>pm. List.map_filter (match_and pm) qs) ps)"

definition np_entry ::
  "'sel as_selector \<Rightarrow> (labels \<Rightarrow> bool) \<Rightarrow> 'sel network_policy \<Rightarrow> dir \<Rightarrow> pod list \<Rightarrow> nat \<Rightarrow> np_port list \<Rightarrow>
     nat \<times> 'sel peer \<Rightarrow> match list build" where
  "np_entry asel everything policy d selected i ports = (\<lambda>(j, p).
     st_bind (np_peer asel everything policy d i j p) (\<lambda>(peerMatches, pods).
     let receivers = (if dir_typ d = PolicyTypeEgress then pods else selected)
     in st_bind (np_ports policy d i j ports receivers) (\<lambda>portMatches.
       st_return (combos peerMatches portMatches))))"

definition any_peer :: "'sel peer" where
  "any_peer = \<lparr>peer_PodSelector = None, peer_NamespaceSelector = None, peer_IPBlock = None\<rparr>"

definition directionRules ::
  "'sel as_selector \<Rightarrow> (labels \<Rightarrow> bool) \<Rightarrow> 'sel network_policy \<Rightarrow> dir \<Rightarrow> pod list \<Rightarrow> nft_rule list build" where
  "directionRules asel everything policy d selected =
     st_bind (st_each (\<lambda>(i, r).
         st_each (np_entry asel everything policy d selected i (rule_Ports r))
           (enumerate 0 (if rule_Peers r = [] then [any_peer] else rule_Peers r)))
       (enumerate 0 (pol_rules policy (dir_typ d)))) (\<lambda>msss.
     st_return (map (\<lambda>m. rule (m_expr m) ''accept'' (policy_comment policy)) (concat (concat msss))))"

definition isolate :: "policy_type \<Rightarrow> pod list \<Rightarrow> builder \<Rightarrow> builder" where
  "isolate t pods b =
     b\<lparr>bld_isolated := (bld_isolated b)(t := fold List.insert (concat (map pod_IPs pods)) (bld_isolated b t))\<rparr>"

definition np_direction ::
  "'sel as_selector \<Rightarrow> (labels \<Rightarrow> bool) \<Rightarrow> 'sel network_policy \<Rightarrow> pod list \<Rightarrow> podAddrs \<Rightarrow> dir \<Rightarrow> builder \<Rightarrow>
     go_error + builder" where
  "np_direction asel everything policy selected addrs d b =
     (if \<not> governs policy (dir_typ d) then Inr b
      else
       bind_err (Identifier (dir_chainPrefix d) [pol_Namespace policy, pol_Name policy]) (\<lambda>chain.
       bind_err (directionRules asel everything policy d selected b) (\<lambda>(rules, b).
         let rs = add_chain
               \<lparr>chain_Name = chain, chain_Base = None, chain_Rules = rules,
                chain_Comment = ''NetworkPolicy '' @ policy_comment policy @ '', '' @ dir_typ d\<rparr> (bld_ruleset b);
             jumps = map (\<lambda>m. rule (m_expr m) (''jump '' @ chain) (policy_comment policy))
               (pa_matches addrs (\<lambda>fam set. fam @ '' '' @ dir_selfAddr d @ '' @'' @ set))
         in case Ruleset_Chain rs (dir_dispatch d) of
              None \<Rightarrow> Inl (''the table has no chain '' @ dir_dispatch d)
            | Some _ \<Rightarrow>
                Inr (isolate (dir_typ d) selected
                  (b\<lparr>bld_ruleset := with_chain (dir_dispatch d) (InsertBeforeLast jumps) rs\<rparr>)))))"

definition np_selected :: "builder \<Rightarrow> string \<Rightarrow> (labels \<Rightarrow> bool) \<Rightarrow> pod list" where
  "np_selected b ns selector =
     filter (\<lambda>pod. pod_Namespace pod = ns \<and> pod_NodeName pod = bld_nodeName b \<and> selector (pod_Labels pod))
       (bld_pods b)"

definition np_policy ::
  "'sel as_selector \<Rightarrow> (labels \<Rightarrow> bool) \<Rightarrow> 'sel network_policy \<Rightarrow> builder \<Rightarrow> go_error + builder" where
  "np_policy asel everything policy b =
     bind_err (asSelector asel (pol_PodSelector policy)) (\<lambda>selector.
       let selected = np_selected b (pol_Namespace policy) selector
       in if selected = [] then Inr b
          else
           bind_err (podSets ''pods_'' [pol_Namespace policy, pol_Name policy] selected b) (\<lambda>(addrs, b).
             fold_err (np_direction asel everything policy selected addrs) [np_ingress, np_egress] b))"

definition add_elements :: "string list \<Rightarrow> nft_set \<Rightarrow> nft_set" where
  "add_elements es s = s\<lparr>set_Elements := set_Elements s @ es\<rparr>"

definition fill_direction :: "(policy_type \<Rightarrow> addr list) \<Rightarrow> dir \<Rightarrow> ruleset \<Rightarrow> go_error + ruleset" where
  "fill_direction isolated d rs =
     (case (Ruleset_Set rs (dir_isolatedV4 d), Ruleset_Set rs (dir_isolatedV6 d)) of
        (Some _, Some _) \<Rightarrow>
          let addrs = sort (remdups (isolated (dir_typ d)))
          in Inr (with_set (dir_isolatedV6 d) (add_elements (map Addr_String (filter (\<lambda>a. \<not> Is4 a) addrs)))
               (with_set (dir_isolatedV4 d) (add_elements (map Addr_String (filter Is4 addrs))) rs))
      | _ \<Rightarrow> Inl (''netpol: the table has no sets '' @ dir_isolatedV4 d @ '' and '' @ dir_isolatedV6 d))"

definition fillIsolated :: "builder \<Rightarrow> go_error + ruleset" where
  "fillIsolated b = fold_err (fill_direction (bld_isolated b)) [np_ingress, np_egress] (bld_ruleset b)"

definition policy_key :: "'sel network_policy \<Rightarrow> string" where
  "policy_key p = pol_Namespace p @ ''/'' @ pol_Name p"

definition new_builder :: "ruleset \<Rightarrow> 'sel np_params \<Rightarrow> builder" where
  "new_builder r p =
     \<lparr>bld_ruleset = r, bld_nodeName = np_NodeName p,
      bld_namespaces = map_of (rev (map (\<lambda>ns. (ns_Name ns, ns)) (np_Namespaces p))),
      bld_pods = usablePods (np_Pods p), bld_isolated = (\<lambda>_. [])\<rparr>"

definition netpol_Add ::
  "'sel as_selector \<Rightarrow> (labels \<Rightarrow> bool) \<Rightarrow> ruleset \<Rightarrow> 'sel np_params \<Rightarrow> go_error + ruleset" where
  "netpol_Add asel everything r p =
     bind_err (fold_err (\<lambda>policy b.
         map_err (\<lambda>e. ''netpol: NetworkPolicy '' @ policy_comment policy @ '': '' @ e)
           (np_policy asel everything policy b))
       (sort_key policy_key (np_Policies p)) (new_builder r p))
     fillIsolated"

end
