(* ===== verification/Netpol_Calculus.thy ===== *)
theory Netpol_Calculus
  imports Netpol
begin

text \<open>
  What NetworkPolicy means for the pods of one node, said over the API objects and a packet;
  and the proof that the sets and chains \<open>netpol.Add\<close> renders decide exactly that. The proof
  goes through a small calculus: \<open>covers\<close> says what packets a list of match texts stands
  for, and \<open>emits\<close> what a step of the builder returns in terms of the sets it declares.
\<close>

section \<open>The specification\<close>

definition sel_matches :: "'sel as_selector \<Rightarrow> 'sel \<Rightarrow> labels \<Rightarrow> bool" where
  "sel_matches asel s ls \<longleftrightarrow> (case asel s of Inl _ \<Rightarrow> False | Inr f \<Rightarrow> f ls)"

text \<open>A pod that is on the pod network and running, and the addresses it holds.\<close>

definition pod_up :: "pod \<Rightarrow> bool" where
  "pod_up pod \<longleftrightarrow> \<not> pod_HostNetwork pod \<and> \<not> pod_Terminated pod"

definition pod_owns :: "pod \<Rightarrow> addr \<Rightarrow> bool" where
  "pod_owns pod a \<longleftrightarrow> pod_up pod \<and> a \<in> set (own_addrs pod)"

definition policy_selects :: "'sel as_selector \<Rightarrow> 'sel np_params \<Rightarrow> 'sel network_policy \<Rightarrow> pod \<Rightarrow> bool" where
  "policy_selects asel P pol pod \<longleftrightarrow>
     pod_Namespace pod = pol_Namespace pol \<and> pod_NodeName pod = np_NodeName P \<and>
     sel_matches asel (pol_PodSelector pol) (pod_Labels pod)"

definition peer_selects :: "'sel as_selector \<Rightarrow> 'sel np_params \<Rightarrow> string \<Rightarrow> 'sel peer \<Rightarrow> pod \<Rightarrow> bool" where
  "peer_selects asel P ns q pod \<longleftrightarrow>
     (case peer_PodSelector q of None \<Rightarrow> True | Some s \<Rightarrow> sel_matches asel s (pod_Labels pod)) \<and>
     (case peer_NamespaceSelector q of
        None \<Rightarrow> peer_PodSelector q = None \<or> pod_Namespace pod = ns
      | Some s \<Rightarrow> list_ex (\<lambda>n. ns_Name n = pod_Namespace pod \<and> sel_matches asel s (ns_Labels n)) (np_Namespaces P))"

definition unrestricted :: "'sel peer \<Rightarrow> bool" where
  "unrestricted q \<longleftrightarrow> peer_IPBlock q = None \<and> peer_PodSelector q = None \<and> peer_NamespaceSelector q = None"

definition peer_names :: "'sel as_selector \<Rightarrow> 'sel np_params \<Rightarrow> string \<Rightarrow> 'sel peer \<Rightarrow> addr \<Rightarrow> bool" where
  "peer_names asel P ns q a \<longleftrightarrow>
     (case peer_IPBlock q of
        Some blk \<Rightarrow> Contains (blk_CIDR blk) a \<and> \<not> list_ex (\<lambda>e. Contains e a) (blk_Except blk)
      | None \<Rightarrow> unrestricted q \<or> list_ex (\<lambda>pod. peer_selects asel P ns q pod \<and> pod_owns pod a) (np_Pods P))"

text \<open>The pods a named port is resolved against: those that receive the traffic.\<close>

definition receives ::
  "'sel as_selector \<Rightarrow> 'sel np_params \<Rightarrow> dir \<Rightarrow> 'sel network_policy \<Rightarrow> 'sel peer \<Rightarrow> pod \<Rightarrow> bool" where
  "receives asel P d pol q pod \<longleftrightarrow>
     (if dir_typ d = PolicyTypeEgress
      then peer_IPBlock q = None \<and> peer_selects asel P (pol_Namespace pol) q pod
      else policy_selects asel P pol pod)"

definition pod_declares :: "np_port \<Rightarrow> 16 word \<Rightarrow> pod \<Rightarrow> bool" where
  "pod_declares port n pod \<longleftrightarrow>
     list_ex (\<lambda>dp. np_PortName dp = port_Name port \<and> np_PortNumber dp = n \<and>
       l4_name (np_PortProtocol dp) = l4_name (port_Protocol port)) (pod_Ports pod)"

definition port_opens :: "(pod \<Rightarrow> bool) \<Rightarrow> pod list \<Rightarrow> np_port \<Rightarrow> packet \<Rightarrow> bool" where
  "port_opens R pods port p \<longleftrightarrow>
     pkt_l4 p = l4_name (port_Protocol port) \<and>
     (if port_Name port \<noteq> []
      then list_ex (\<lambda>pod. R pod \<and> pod_owns pod (pkt_dst p) \<and> pod_declares port (pkt_dport p) pod) pods
      else port_Number port = 0 \<or>
        (port_Number port \<le> pkt_dport p \<and>
         pkt_dport p \<le> (if port_EndPort port = 0 then port_Number port else port_EndPort port)))"

definition dir_peer :: "dir \<Rightarrow> side" where
  "dir_peer d = (if dir_typ d = PolicyTypeEgress then Daddr else Saddr)"

definition dir_self :: "dir \<Rightarrow> side" where
  "dir_self d = (if dir_typ d = PolicyTypeEgress then Saddr else Daddr)"

definition peer_allows_packet ::
  "'sel as_selector \<Rightarrow> 'sel np_params \<Rightarrow> dir \<Rightarrow> 'sel network_policy \<Rightarrow> np_port list \<Rightarrow> packet \<Rightarrow> 'sel peer \<Rightarrow> bool" where
  "peer_allows_packet asel P d pol ports p q \<longleftrightarrow>
     peer_names asel P (pol_Namespace pol) q (pkt_addr (dir_peer d) p) \<and>
     (ports = [] \<or> list_ex (\<lambda>port. port_opens (receives asel P d pol q) (np_Pods P) port p) ports)"

definition rule_allows ::
  "'sel as_selector \<Rightarrow> 'sel np_params \<Rightarrow> dir \<Rightarrow> 'sel network_policy \<Rightarrow> packet \<Rightarrow> 'sel np_rule \<Rightarrow> bool" where
  "rule_allows asel P d pol p r \<longleftrightarrow>
     list_ex (peer_allows_packet asel P d pol (rule_Ports r) p)
       (if rule_Peers r = [] then [any_peer] else rule_Peers r)"

definition np_allows ::
  "'sel as_selector \<Rightarrow> 'sel np_params \<Rightarrow> dir \<Rightarrow> 'sel network_policy \<Rightarrow> packet \<Rightarrow> bool" where
  "np_allows asel P d pol p \<longleftrightarrow> list_ex (rule_allows asel P d pol p) (pol_rules pol (dir_typ d))"

definition applies ::
  "'sel as_selector \<Rightarrow> 'sel np_params \<Rightarrow> dir \<Rightarrow> addr \<Rightarrow> 'sel network_policy \<Rightarrow> bool" where
  "applies asel P d a pol \<longleftrightarrow>
     governs pol (dir_typ d) \<and>
     list_ex (\<lambda>pod. policy_selects asel P pol pod \<and> pod_owns pod a) (np_Pods P)"

text \<open>
  A pod no policy governs is open; a pod at least one governs is open to what one of
  those allows.
\<close>

definition np_passes :: "'sel as_selector \<Rightarrow> 'sel np_params \<Rightarrow> dir \<Rightarrow> packet \<Rightarrow> bool" where
  "np_passes asel P d p \<longleftrightarrow>
     (let self = pkt_addr (dir_self d) p
      in \<not> list_ex (applies asel P d self) (np_Policies P) \<or>
         list_ex (\<lambda>pol. applies asel P d self pol \<and> np_allows asel P d pol p) (np_Policies P))"

section \<open>What match texts stand for\<close>

definition good_packet :: "packet \<Rightarrow> bool" where
  "good_packet p \<longleftrightarrow> plain_packet p \<and> Is4 (pkt_src p) = Is4 (pkt_dst p)"

fun fam_ok :: "family \<Rightarrow> packet \<Rightarrow> bool" where
  "fam_ok familyBoth p = True"
| "fam_ok familyV4 p = Is4 (pkt_src p)"
| "fam_ok familyV6 p = (\<not> Is4 (pkt_src p))"

definition means :: "nft_set list \<Rightarrow> match \<Rightarrow> (packet \<Rightarrow> bool) \<Rightarrow> bool" where
  "means S m \<phi> \<longleftrightarrow>
     (\<exists>as. m_expr m = atoms_text as \<and> list_all wf_atom as \<and>
       (\<forall>p. good_packet p \<longrightarrow> (list_all (holds S p) as \<longleftrightarrow> \<phi> p) \<and> (\<phi> p \<longrightarrow> fam_ok (m_fam m) p)))"

definition covers :: "nft_set list \<Rightarrow> match list \<Rightarrow> (packet \<Rightarrow> bool) \<Rightarrow> bool" where
  "covers S ms \<Phi> \<longleftrightarrow>
     (\<exists>\<phi>s. list_all2 (means S) ms \<phi>s \<and> (\<forall>p. good_packet p \<longrightarrow> (list_ex (\<lambda>\<phi>. \<phi> p) \<phi>s \<longleftrightarrow> \<Phi> p)))"

lemma covers_Nil: "covers S [] (\<lambda>p. False)"
  by (simp add: covers_def)

lemma covers_one: "means S m \<phi> \<Longrightarrow> covers S [m] \<phi>"
  unfolding covers_def by (rule exI [of _ "[\<phi>]"]) simp

lemma covers_append: "covers S ms \<Phi> \<Longrightarrow> covers S ns \<Psi> \<Longrightarrow> covers S (ms @ ns) (\<lambda>p. \<Phi> p \<or> \<Psi> p)"
  unfolding covers_def
proof (elim exE conjE)
  fix fs gs
  assume "list_all2 (means S) ms fs" "list_all2 (means S) ns gs"
    "\<forall>p. good_packet p \<longrightarrow> list_ex (\<lambda>\<phi>. \<phi> p) fs = \<Phi> p" "\<forall>p. good_packet p \<longrightarrow> list_ex (\<lambda>\<phi>. \<phi> p) gs = \<Psi> p"
  then show "\<exists>\<phi>s. list_all2 (means S) (ms @ ns) \<phi>s \<and>
      (\<forall>p. good_packet p \<longrightarrow> list_ex (\<lambda>\<phi>. \<phi> p) \<phi>s = (\<Phi> p \<or> \<Psi> p))"
    by (intro exI [of _ "fs @ gs"]) (auto simp: list_all2_appendI)
qed

lemma covers_cong: "covers S ms \<Phi> \<Longrightarrow> (\<And>p. good_packet p \<Longrightarrow> \<Phi> p = \<Psi> p) \<Longrightarrow> covers S ms \<Psi>"
  unfolding covers_def by metis

lemma covers_concat:
  "list_all2 (\<lambda>x ms. covers S ms (\<Phi> x)) xs mss \<Longrightarrow> covers S (concat mss) (\<lambda>p. list_ex (\<lambda>x. \<Phi> x p) xs)"
  by (induction rule: list_all2_induct) (simp_all add: covers_Nil covers_append)

lemma means_any: "means S any_match (\<lambda>p. True)"
  unfolding means_def by (rule exI [of _ "[]"]) (simp add: any_match_def atoms_text_def)

lemma atoms_text_Nil: "list_all wf_atom as \<Longrightarrow> atoms_text as = [] \<longleftrightarrow> as = []"
  unfolding atoms_text_def using atom_text_trimmed
  by (subst join_eq_Nil) (auto simp: list_all_iff)

lemma atoms_text_append:
  "as \<noteq> [] \<Longrightarrow> bs \<noteq> [] \<Longrightarrow> atoms_text (as @ bs) = atoms_text as @ '' '' @ atoms_text bs"
  by (simp add: atoms_text_def join_append)

lemma fam_ok_join:
  "match_and m n = Some r \<Longrightarrow> fam_ok (m_fam m) p \<Longrightarrow> fam_ok (m_fam n) p \<Longrightarrow> fam_ok (m_fam r) p"
  by (auto simp: match_and_def Let_def split: if_splits)

lemma fam_ok_clash: "match_and m n = None \<Longrightarrow> \<not> (fam_ok (m_fam m) p \<and> fam_ok (m_fam n) p)"
  by (cases "m_fam m"; cases "m_fam n") (auto simp: match_and_def Let_def split: if_splits)

lemma means_and:
  assumes "means S m \<phi>" "means S n \<psi>" "match_and m n = Some r"
  shows "means S r (\<lambda>p. \<phi> p \<and> \<psi> p)"
proof -
  obtain as bs where as: "m_expr m = atoms_text as" "list_all wf_atom as"
      "\<forall>p. good_packet p \<longrightarrow> (list_all (holds S p) as \<longleftrightarrow> \<phi> p) \<and> (\<phi> p \<longrightarrow> fam_ok (m_fam m) p)"
    and bs: "m_expr n = atoms_text bs" "list_all wf_atom bs"
      "\<forall>p. good_packet p \<longrightarrow> (list_all (holds S p) bs \<longleftrightarrow> \<psi> p) \<and> (\<psi> p \<longrightarrow> fam_ok (m_fam n) p)"
    using assms(1,2) by (auto simp: means_def)
  have "m_expr r = (if m_expr m = [] then m_expr n else if m_expr n = [] then m_expr m
      else m_expr m @ '' '' @ m_expr n)"
    using assms(3) by (auto simp: match_and_def Let_def split: if_splits)
  also have "\<dots> = atoms_text (as @ bs)"
    using as(1,2) bs(1,2) by (auto simp: atoms_text_Nil atoms_text_append)
  finally show ?thesis
    unfolding means_def using as bs fam_ok_join [OF assms(3)] by (intro exI [of _ "as @ bs"]) auto
qed

lemma covers_and_one:
  assumes "means S m \<phi>" "covers S qs \<Psi>"
  shows "covers S (List.map_filter (match_and m) qs) (\<lambda>p. \<phi> p \<and> \<Psi> p)"
proof -
  obtain \<psi>s where q: "list_all2 (means S) qs \<psi>s" "\<forall>p. good_packet p \<longrightarrow> (list_ex (\<lambda>\<phi>. \<phi> p) \<psi>s \<longleftrightarrow> \<Psi> p)"
    using assms(2) by (auto simp: covers_def)
  from q(1) have "covers S (List.map_filter (match_and m) qs) (\<lambda>p. \<phi> p \<and> list_ex (\<lambda>\<psi>. \<psi> p) \<psi>s)"
  proof (induction rule: list_all2_induct)
    case Nil
    then show ?case by (simp add: map_filter_simps covers_Nil)
  next
    case (Cons n qs \<psi> \<psi>s)
    show ?case
    proof (cases "match_and m n")
      case None
      have "\<not> (\<phi> p \<and> \<psi> p)" if "good_packet p" for p
        using that assms(1) Cons(1) fam_ok_clash [OF None] by (auto simp: means_def)
      then show ?thesis
        unfolding map_filter_simps None option.case by (intro covers_cong [OF Cons(3)]) auto
    next
      case (Some r)
      then show ?thesis
        using covers_append [OF covers_one [OF means_and [OF assms(1) Cons(1) Some]] Cons(3)]
        by (auto simp: map_filter_simps elim: covers_cong)
    qed
  qed
  then show ?thesis by (rule covers_cong) (use q(2) in auto)
qed

lemma covers_combos:
  assumes "covers S ps \<Phi>" "covers S qs \<Psi>"
  shows "covers S (combos ps qs) (\<lambda>p. \<Phi> p \<and> \<Psi> p)"
proof -
  obtain \<phi>s where q: "list_all2 (means S) ps \<phi>s" "\<forall>p. good_packet p \<longrightarrow> (list_ex (\<lambda>\<phi>. \<phi> p) \<phi>s \<longleftrightarrow> \<Phi> p)"
    using assms(1) by (auto simp: covers_def)
  from q(1) have "covers S (combos ps qs) (\<lambda>p. list_ex (\<lambda>\<phi>. \<phi> p) \<phi>s \<and> \<Psi> p)"
  proof (induction rule: list_all2_induct)
    case (Cons m ps \<phi> \<phi>s)
    then show ?case
      using covers_append [OF covers_and_one [OF Cons(1) assms(2)] Cons(3)]
      by (auto simp: combos_def elim!: covers_cong)
  qed (simp add: combos_def covers_Nil)
  then show ?thesis by (rule covers_cong) (use q(2) in auto)
qed

context nft_matcher
begin

lemma covers_ev:
  assumes "covers S ms \<Phi>" "good_packet p"
  shows "list_ex (\<lambda>m. ev S p (m_expr m)) ms \<longleftrightarrow> \<Phi> p"
proof -
  obtain \<phi>s where q: "list_all2 (means S) ms \<phi>s" "list_ex (\<lambda>\<phi>. \<phi> p) \<phi>s \<longleftrightarrow> \<Phi> p"
    using assms by (auto simp: covers_def)
  have "list_ex (\<lambda>m. ev S p (m_expr m)) ms \<longleftrightarrow> list_ex (\<lambda>\<phi>. \<phi> p) \<phi>s"
    using q(1) by (induction rule: list_all2_induct) (auto simp: means_def ev_atoms assms(2))
  then show ?thesis using q(2) by simp
qed

end

section \<open>What a step declares\<close>

definition env :: "'sel np_params \<Rightarrow> builder \<Rightarrow> bool" where
  "env P b \<longleftrightarrow>
     bld_nodeName b = np_NodeName P \<and> bld_pods b = usablePods (np_Pods P) \<and>
     bld_namespaces b = map_of (rev (map (\<lambda>ns. (ns_Name ns, ns)) (np_Namespaces P)))"

definition grown :: "nft_set list \<Rightarrow> builder \<Rightarrow> builder" where
  "grown ss b = b\<lparr>bld_ruleset := (bld_ruleset b)\<lparr>rs_Sets := rs_Sets (bld_ruleset b) @ ss\<rparr>\<rparr>"

lemma grown_simps [simp]:
  "grown [] b = b" "grown ts (grown ss b) = grown (ss @ ts) b" "env P (grown ss b) = env P b"
  "bld_pods (grown ss b) = bld_pods b" "rs_Sets (bld_ruleset (grown ss b)) = rs_Sets (bld_ruleset b) @ ss"
  "rs_Chains (bld_ruleset (grown ss b)) = rs_Chains (bld_ruleset b)" "bld_isolated (grown ss b) = bld_isolated b"
  by (simp_all add: grown_def env_def)

text \<open>The sets \<open>ss\<close> are in the table \<open>S\<close>, under names of their own.\<close>

definition present :: "nft_set list \<Rightarrow> nft_set list \<Rightarrow> bool" where
  "present S ss \<longleftrightarrow> distinct (map set_Name S) \<and> set ss \<subseteq> set S"

lemma present_append: "present S (ss @ ts) \<longleftrightarrow> present S ss \<and> present S ts"
  by (auto simp: present_def)

definition emits :: "'sel np_params \<Rightarrow> 'a build \<Rightarrow> (nft_set list \<Rightarrow> 'a \<Rightarrow> bool) \<Rightarrow> bool" where
  "emits P m Q \<longleftrightarrow>
     (\<forall>b x b'. env P b \<longrightarrow> m b = Inr (x, b') \<longrightarrow>
       (\<exists>ss. b' = grown ss b \<and> (\<forall>S. present S ss \<longrightarrow> Q S x)))"

lemma emitsD:
  "emits P m Q \<Longrightarrow> env P b \<Longrightarrow> m b = Inr (x, b') \<Longrightarrow> \<exists>ss. b' = grown ss b \<and> (\<forall>S. present S ss \<longrightarrow> Q S x)"
  by (simp add: emits_def)

lemma emits_return: "(\<And>S. Q S x) \<Longrightarrow> emits P (st_return x) Q"
  unfolding emits_def by (auto simp: st_Inr intro!: exI [of _ "[]"])

lemma emits_lift: "(\<And>x S. m = Inr x \<Longrightarrow> Q S x) \<Longrightarrow> emits P (st_lift m) Q"
  unfolding emits_def by (auto simp: st_Inr intro!: exI [of _ "[]"])

lemma emits_mono: "emits P m Q \<Longrightarrow> (\<And>S x. Q S x \<Longrightarrow> R S x) \<Longrightarrow> emits P m R"
  unfolding emits_def by meson

text \<open>The value a step returns, whatever sets the table ends up with.\<close>

definition returns :: "'sel np_params \<Rightarrow> 'a build \<Rightarrow> ('a \<Rightarrow> bool) \<Rightarrow> bool" where
  "returns P m V \<longleftrightarrow> (\<forall>b x b'. env P b \<longrightarrow> m b = Inr (x, b') \<longrightarrow> V x)"

lemma emits_bind_value:
  assumes "emits P m Q" and "returns P m V" and "\<And>x. V x \<Longrightarrow> emits P (f x) (\<lambda>S y. Q S x \<longrightarrow> R S y)"
  shows "emits P (st_bind m f) R"
  unfolding emits_def
proof (intro allI impI)
  fix b y b' assume b: "env P b" and "st_bind m f b = Inr (y, b')"
  then obtain x b1 where m: "m b = Inr (x, b1)" and f: "f x b1 = Inr (y, b')"
    by (auto simp: st_Inr)
  obtain ss where ss: "b1 = grown ss b" "\<And>S. present S ss \<Longrightarrow> Q S x"
    using emitsD [OF assms(1) b m] by blast
  then obtain ts where "b' = grown ts b1" "\<And>S. present S ts \<Longrightarrow> Q S x \<Longrightarrow> R S y"
    using emitsD [OF assms(3) _ f] assms(2) b m by (auto simp: returns_def)
  then show "\<exists>ss. b' = grown ss b \<and> (\<forall>S. present S ss \<longrightarrow> R S y)"
    using ss by (intro exI [of _ "ss @ ts"]) (auto simp: present_append)
qed

lemma emits_bind:
  assumes "emits P m Q" and "\<And>x. emits P (f x) (\<lambda>S y. Q S x \<longrightarrow> R S y)"
  shows "emits P (st_bind m f) R"
  by (rule emits_bind_value [where V = "\<lambda>x. True", OF assms(1) _ assms(2)]) (simp add: returns_def)

lemma emits_each:
  assumes "\<And>x. x \<in> set xs \<Longrightarrow> emits P (f x) (Q x)"
  shows "emits P (st_each f xs) (\<lambda>S ys. list_all2 (\<lambda>x y. Q x S y) xs ys)"
  using assms
proof (induction xs)
  case (Cons x xs)
  show ?case unfolding st_each.simps
    by (rule emits_bind [where Q = "Q x"], simp add: Cons.prems)
       (rule emits_bind [where Q = "\<lambda>S ys. list_all2 (\<lambda>x y. Q x S y) xs ys"],
        simp_all add: Cons emits_return)
qed (simp add: emits_return)

section \<open>Sets of pods\<close>

definition plain_pods :: "pod list \<Rightarrow> bool" where
  "plain_pods pods \<longleftrightarrow> list_all (\<lambda>pod. list_all plain_addr (pod_IPs pod)) pods"

lemma set_has_present:
  assumes "present S [s]"
  shows "set_has S (set_Name s) a = list_ex (\<lambda>e. denotes e a) (set_Elements s)"
proof -
  have "find (\<lambda>t. set_Name t = set_Name s) S = Some s"
    using assms find_distinct [of set_Name S "set_Name s" s] by (simp add: present_def)
  then show ?thesis by (simp add: set_has_def)
qed

definition pod_set :: "string \<Rightarrow> string \<Rightarrow> string list \<Rightarrow> nft_set" where
  "pod_set n typ addrs =
     \<lparr>set_Name = n, set_Type = typ, set_Flags = [], set_Elements = remdups_adj (sort addrs), set_Comment = []\<rparr>"

lemma addSet_Inr:
  "addSet pre parts addrs typ f b = Inr (n, b') \<longleftrightarrow>
     (if addrs = [] then n = [] \<and> b' = b
      else Identifier pre (parts @ [f]) = Inr n \<and> b' = grown [pod_set n typ addrs] b)"
  by (auto simp: addSet_def bind_err_Inr grown_def add_set_def pod_set_def)

text \<open>A set declared for some texts, under the name returned; no name where there are none.\<close>

definition declared :: "string list \<Rightarrow> nft_set list \<Rightarrow> string \<Rightarrow> bool" where
  "declared addrs S n \<longleftrightarrow>
     (n = [] \<longleftrightarrow> addrs = []) \<and>
     (n \<noteq> [] \<longrightarrow> name_token n \<and> (\<forall>a. set_has S n a = list_ex (\<lambda>e. denotes e a) addrs))"

lemma addSet_emits:
  assumes "list_all id_char pre"
  shows "emits P (addSet pre parts addrs typ f) (declared addrs)"
  unfolding emits_def
proof (intro allI impI)
  fix b n b' assume add: "addSet pre parts addrs typ f b = Inr (n, b')"
  show "\<exists>ss. b' = grown ss b \<and> (\<forall>S. present S ss \<longrightarrow> declared addrs S n)"
  proof (cases "addrs = []")
    case True
    then show ?thesis using add by (intro exI [of _ "[]"]) (simp add: addSet_Inr declared_def)
  next
    case False
    then have n: "Identifier pre (parts @ [f]) = Inr n" and b': "b' = grown [pod_set n typ addrs] b"
      using add by (simp_all add: addSet_Inr)
    have "n \<noteq> [] \<and> name_token n"
      using Identifier_chars [OF n assms] by (simp add: name_token_def)
    then show ?thesis
      using b' False set_has_present [of _ "pod_set n typ addrs"]
      by (intro exI [of _ "[pod_set n typ addrs]"]) (simp add: declared_def pod_set_def list_ex_iff)
  qed
qed

text \<open>The sets one group of pods became, by family.\<close>

definition half :: "nft_set list \<Rightarrow> fam \<Rightarrow> string \<Rightarrow> pod list \<Rightarrow> bool" where
  "half S f n pods \<longleftrightarrow>
     (n \<noteq> [] \<longrightarrow> name_token n) \<and>
     (\<forall>a. plain_addr a \<longrightarrow> (n \<noteq> [] \<and> of_fam f a \<and> set_has S n a \<longleftrightarrow>
        of_fam f a \<and> list_ex (\<lambda>pod. a \<in> set (pod_IPs pod)) pods))"

definition group :: "nft_set list \<Rightarrow> podAddrs \<Rightarrow> pod list \<Rightarrow> bool" where
  "group S pa pods \<longleftrightarrow> half S V4 (pa_v4 pa) pods \<and> half S V6 (pa_v6 pa) pods"

lemma pod_strings_has:
  assumes "plain_pods pods" "plain_addr a"
  shows "list_ex (\<lambda>e. denotes e a) (pod_strings Q pods) \<longleftrightarrow> Q a \<and> list_ex (\<lambda>pod. a \<in> set (pod_IPs pod)) pods"
  using assms by (auto simp: pod_strings_def plain_pods_def list_all_iff list_ex_iff denotes_Addr)

lemma declared_half:
  assumes "declared (pod_strings sel pods) S n" "plain_pods pods" "\<And>a. plain_addr a \<Longrightarrow> sel a = of_fam f a"
  shows "half S f n pods"
  using assms pod_strings_has [OF assms(2), of _ sel] by (cases "n = []") (auto simp: declared_def half_def)

lemma podSets_emits:
  assumes "list_all id_char pre" "plain_pods pods"
  shows "emits P (podSets pre parts pods) (\<lambda>S pa. group S pa pods)"
  unfolding podSets_def
proof (rule emits_bind [OF addSet_emits [OF assms(1)]], rule emits_bind [OF addSet_emits [OF assms(1)]],
    rule emits_return, intro impI)
  fix S n4 n6
  assume d: "declared (pod_strings (\<lambda>a. \<not> Is4 a) pods) S n6" "declared (pod_strings Is4 pods) S n4"
  have "half S V6 n6 pods"
    by (rule declared_half [OF d(1) assms(2)]) (auto elim: plain_addr_cases)
  moreover have "half S V4 n4 pods"
    by (rule declared_half [OF d(2) assms(2)]) simp
  ultimately show "group S \<lparr>pa_v4 = n4, pa_v6 = n6\<rparr> pods" by (simp add: group_def)
qed

fun fam_of :: "fam \<Rightarrow> family" where
  "fam_of V4 = familyV4"
| "fam_of V6 = familyV6"

lemma of_fam_ok: "good_packet p \<Longrightarrow> of_fam f (pkt_addr sd p) \<Longrightarrow> fam_ok (fam_of f) p"
  by (cases f; cases sd; cases "pkt_src p"; cases "pkt_dst p")
     (auto simp: good_packet_def plain_packet_def plain_addr_def)

lemma of_fam_some: "good_packet p \<Longrightarrow> of_fam V4 (pkt_addr sd p) \<or> of_fam V6 (pkt_addr sd p)"
  using plain_packet_addr [of p sd] by (auto simp: good_packet_def elim: plain_addr_cases)

lemma half_covers:
  assumes h: "half S f n pods" and wf: "list_all wf_atom as"
    and e: "expr (fam_text f) n = atoms_text (InSet f sd n # as)"
  shows "covers S (if n \<noteq> [] then [\<lparr>m_fam = fam_of f, m_expr = expr (fam_text f) n\<rparr>] else [])
    (\<lambda>p. of_fam f (pkt_addr sd p) \<and> list_ex (\<lambda>pod. pkt_addr sd p \<in> set (pod_IPs pod)) pods \<and>
         list_all (holds S p) as)"
proof -
  have *: "n \<noteq> [] \<and> of_fam f (pkt_addr sd p) \<and> set_has S n (pkt_addr sd p) \<longleftrightarrow>
      of_fam f (pkt_addr sd p) \<and> list_ex (\<lambda>pod. pkt_addr sd p \<in> set (pod_IPs pod)) pods" if "good_packet p" for p
    using h that plain_packet_addr [of p sd] unfolding half_def good_packet_def by blast
  show ?thesis
  proof (cases "n = []")
    case True
    then show ?thesis using * by (auto intro!: covers_cong [OF covers_Nil])
  next
    case False
    then have "name_token n" using h by (simp add: half_def)
    then have "means S \<lparr>m_fam = fam_of f, m_expr = expr (fam_text f) n\<rparr>
       (\<lambda>p. of_fam f (pkt_addr sd p) \<and> list_ex (\<lambda>pod. pkt_addr sd p \<in> set (pod_IPs pod)) pods \<and>
         list_all (holds S p) as)"
      unfolding means_def using * wf False of_fam_ok
      by (intro exI [of _ "InSet f sd n # as"]) (auto simp: e)
    then show ?thesis using False by (simp add: covers_one)
  qed
qed

lemma pa_matches_alt:
  "pa_matches pa expr =
     (if pa_v4 pa \<noteq> [] then [\<lparr>m_fam = fam_of V4, m_expr = expr (fam_text V4) (pa_v4 pa)\<rparr>] else []) @
     (if pa_v6 pa \<noteq> [] then [\<lparr>m_fam = fam_of V6, m_expr = expr (fam_text V6) (pa_v6 pa)\<rparr>] else [])"
  by (simp add: pa_matches_def)

lemma pa_covers:
  assumes g: "group S pa pods" and wf: "list_all wf_atom as"
    and e: "\<And>f n. expr (fam_text f) n = atoms_text (InSet f sd n # as)"
  shows "covers S (pa_matches pa expr)
    (\<lambda>p. list_ex (\<lambda>pod. pkt_addr sd p \<in> set (pod_IPs pod)) pods \<and> list_all (holds S p) as)"
proof -
  note one = half_covers [where expr = expr, OF _ wf e]
  have "covers S (pa_matches pa expr)
     (\<lambda>p. of_fam V4 (pkt_addr sd p) \<and> list_ex (\<lambda>pod. pkt_addr sd p \<in> set (pod_IPs pod)) pods \<and> list_all (holds S p) as \<or>
          of_fam V6 (pkt_addr sd p) \<and> list_ex (\<lambda>pod. pkt_addr sd p \<in> set (pod_IPs pod)) pods \<and> list_all (holds S p) as)"
    unfolding pa_matches_alt using g by (intro covers_append one) (simp_all add: group_def)
  then show ?thesis by (rule covers_cong) (use of_fam_some [of _ sd] in blast)
qed

section \<open>Well-formed input\<close>

text \<open>
  What the API server admits and \<open>net/netip\<close> produces: CIDRs in canonical form, one of the
  three protocols or none, namespaces with names of their own, addresses without a zone.
\<close>

definition wf_cidr :: "prefix \<Rightarrow> bool" where
  "wf_cidr c \<longleftrightarrow> wf_prefix c \<and> Prefix_IsValid c \<and> Masked c = c"

definition wf_protocol :: "string \<Rightarrow> bool" where
  "wf_protocol q \<longleftrightarrow> q \<in> {[], ''TCP'', ''UDP'', ''SCTP''}"

definition wf_peer :: "'sel peer \<Rightarrow> bool" where
  "wf_peer q \<longleftrightarrow>
     (case peer_IPBlock q of None \<Rightarrow> True | Some blk \<Rightarrow> wf_cidr (blk_CIDR blk) \<and> list_all wf_cidr (blk_Except blk))"

definition wf_rule :: "'sel np_rule \<Rightarrow> bool" where
  "wf_rule r \<longleftrightarrow> list_all wf_peer (rule_Peers r) \<and> list_all (\<lambda>port. wf_protocol (port_Protocol port)) (rule_Ports r)"

definition wf_policy :: "'sel network_policy \<Rightarrow> bool" where
  "wf_policy pol \<longleftrightarrow> list_all wf_rule (pol_Ingress pol) \<and> list_all wf_rule (pol_Egress pol)"

definition wf_pod :: "pod \<Rightarrow> bool" where
  "wf_pod pod \<longleftrightarrow>
     list_all plain_addr (own_addrs pod) \<and> list_all (\<lambda>dp. wf_protocol (np_PortProtocol dp)) (pod_Ports pod)"

definition wf_np_params :: "'sel np_params \<Rightarrow> bool" where
  "wf_np_params P \<longleftrightarrow>
     list_all wf_pod (np_Pods P) \<and> list_all wf_policy (np_Policies P) \<and> distinct (map ns_Name (np_Namespaces P))"

lemma port_proto_l4: "port_proto port = l4_name (port_Protocol port)"
  by (simp add: port_proto_def l4_name_def ProtocolTCP_def ToLower_protocols)

lemma wf_protocol_l4: "wf_protocol q \<Longrightarrow> l4_name q \<in> set port_protocols"
  by (auto simp: wf_protocol_def l4_name_def ToLower_protocols port_protocols_def)

lemma samePortProtocol_l4:
  "wf_protocol a \<Longrightarrow> wf_protocol b \<Longrightarrow> samePortProtocol a b \<longleftrightarrow> l4_name a = l4_name b"
  by (auto simp: wf_protocol_def samePortProtocol_def l4_name_def ToLower_protocols ProtocolTCP_def)

lemma usablePods_set:
  "set (usablePods ps) = (\<lambda>p. p\<lparr>pod_IPs := own_addrs p\<rparr>) ` {p \<in> set ps. pod_up p \<and> own_addrs p \<noteq> []}"
  by (auto simp: usablePods_def pod_up_def)

lemma usable_ex:
  assumes "\<And>pod x. F (pod\<lparr>pod_IPs := x\<rparr>) = F pod"
  shows "list_ex (\<lambda>q. a \<in> set (pod_IPs q)) (filter F (usablePods ps)) \<longleftrightarrow> list_ex (\<lambda>pod. F pod \<and> pod_owns pod a) ps"
  by (auto simp: list_ex_iff usablePods_set pod_owns_def assms)

lemma usable_ex_and:
  assumes "\<And>pod x. F (pod\<lparr>pod_IPs := x\<rparr>) = F pod" "\<And>pod x. G (pod\<lparr>pod_IPs := x\<rparr>) = G pod"
  shows "list_ex (\<lambda>q. G q \<and> a \<in> set (pod_IPs q)) (filter F (usablePods ps)) \<longleftrightarrow>
    list_ex (\<lambda>pod. F pod \<and> pod_owns pod a \<and> G pod) ps"
  by (auto simp: list_ex_iff usablePods_set pod_owns_def assms)

lemma usable_plain: "list_all wf_pod ps \<Longrightarrow> plain_pods (filter F (usablePods ps))"
  by (auto simp: plain_pods_def wf_pod_def list_all_iff usablePods_set)

lemma usable_protocols:
  "list_all wf_pod ps \<Longrightarrow> q \<in> set (usablePods ps) \<Longrightarrow> dp \<in> set (pod_Ports q) \<Longrightarrow> wf_protocol (np_PortProtocol dp)"
  by (auto simp: wf_pod_def list_all_iff usablePods_set)

lemma selects_frame [simp]:
  "peer_selects asel P ns q (pod\<lparr>pod_IPs := x\<rparr>) = peer_selects asel P ns q pod"
  "policy_selects asel P pol (pod\<lparr>pod_IPs := x\<rparr>) = policy_selects asel P pol pod"
  "receives asel P d pol q (pod\<lparr>pod_IPs := x\<rparr>) = receives asel P d pol q pod"
  "pod_declares port n (pod\<lparr>pod_IPs := x\<rparr>) = pod_declares port n pod"
  by (simp_all add: peer_selects_def policy_selects_def receives_def pod_declares_def split: option.splits)

section \<open>Peers\<close>

lemma namespace_lookup:
  assumes "wf_np_params P" "env P b"
  shows "bld_namespaces b n = Some ns \<longleftrightarrow> ns \<in> set (np_Namespaces P) \<and> ns_Name ns = n"
proof -
  have "distinct (map fst (rev (map (\<lambda>ns. (ns_Name ns, ns)) (np_Namespaces P))))"
    using assms(1) by (simp add: wf_np_params_def rev_map [symmetric] comp_def)
  then show ?thesis using assms(2) by (auto simp: env_def map_of_eq_Some_iff)
qed

lemma peerPods_selects:
  assumes wf: "wf_np_params P" "env P b" and any: "\<forall>ls. everything ls"
    and q: "\<not> (peer_PodSelector q = None \<and> peer_NamespaceSelector q = None)"
    and pods: "peerPods asel everything b ns q = Inr pods"
  shows "pods = filter (peer_selects asel P ns q) (usablePods (np_Pods P))"
proof -
  have cov: "(case bld_namespaces b n of None \<Rightarrow> False | Some x \<Rightarrow> f (ns_Labels x)) =
      list_ex (\<lambda>x. ns_Name x = n \<and> f (ns_Labels x)) (np_Namespaces P)" for n f
    using namespace_lookup [OF wf, of n] by (cases "bld_namespaces b n") (auto simp: list_ex_iff, metis)
  have "bld_pods b = usablePods (np_Pods P)" using wf(2) by (simp add: env_def)
  then show ?thesis
    using pods q any
    by (auto simp: peerPods_def bind_err_Inr asSelector_def peer_selects_def sel_matches_def cov
        split: option.splits intro!: filter_cong)
qed

lemma wf_cidr_atom:
  assumes "wf_cidr c"
  shows "prefix_token (Prefix_String c)" "plain_addr a \<Longrightarrow> denotes (Prefix_String c) a = Contains c a"
  using assms denotes_Prefix [of c a] Prefix_String_chars [of c]
  by (auto simp: wf_cidr_def prefix_token_def Prefix_String_def)

lemma prefix_fam_text: "(if Is6 (Prefix_Addr c) then ''ip6'' else ''ip'') = fam_text (prefix_fam c)"
  "(if Is6 (Prefix_Addr c) then familyV6 else familyV4) = fam_of (prefix_fam c)"
  by (simp_all add: prefix_fam_def)

lemma ipBlockMatch_means:
  assumes "wf_cidr (blk_CIDR blk)" "list_all wf_cidr (blk_Except blk)" "dir_peerAddr d = side_text sd"
  shows "means S (ipBlockMatch d blk)
    (\<lambda>p. Contains (blk_CIDR blk) (pkt_addr sd p) \<and> \<not> list_ex (\<lambda>e. Contains e (pkt_addr sd p)) (blk_Except blk))"
proof -
  let ?f = "prefix_fam (blk_CIDR blk)"
  let ?as = "InPrefix ?f sd (Prefix_String (blk_CIDR blk)) #
     (if blk_Except blk = [] then [] else [NoneOf ?f sd (map Prefix_String (blk_Except blk))])"
  have ex: "list_ex (\<lambda>c. denotes c a) (map Prefix_String (blk_Except blk)) = list_ex (\<lambda>e. Contains e a) (blk_Except blk)"
    if "plain_addr a" for a
    using assms(2) wf_cidr_atom(2) that by (auto simp: list_ex_iff list_all_iff)
  have "m_expr (ipBlockMatch d blk) = atoms_text ?as" "m_fam (ipBlockMatch d blk) = fam_of ?f"
    by (simp_all add: ipBlockMatch_def Let_def prefix_fam_text assms(3) atoms_text_def)
  moreover have "list_all wf_atom ?as"
    using assms(1,2) wf_cidr_atom(1) by (auto simp: list_all_iff)
  moreover have "list_all (holds S p) ?as \<longleftrightarrow> Contains (blk_CIDR blk) (pkt_addr sd p) \<and>
      \<not> list_ex (\<lambda>e. Contains e (pkt_addr sd p)) (blk_Except blk)" if "good_packet p" for p
    using that ex wf_cidr_atom(2) [OF assms(1)] plain_packet_addr [of p sd] Contains_fam [of "blk_CIDR blk" "pkt_addr sd p"]
    by (auto simp: good_packet_def)
  ultimately show ?thesis
    unfolding means_def using of_fam_ok [of _ ?f sd] Contains_fam [of "blk_CIDR blk"]
    by (intro exI [of _ ?as]) auto
qed

lemma dir_sides:
  "d \<in> {np_ingress, np_egress} \<Longrightarrow> dir_peerAddr d = side_text (dir_peer d)"
  "d \<in> {np_ingress, np_egress} \<Longrightarrow> dir_selfAddr d = side_text (dir_self d)"
  by (auto simp: np_ingress_def np_egress_def dir_peer_def dir_self_def PolicyTypeIngress_def PolicyTypeEgress_def)

text \<open>The pods an entry names, for resolving a named port on egress.\<close>

definition entry_pods :: "'sel as_selector \<Rightarrow> 'sel np_params \<Rightarrow> string \<Rightarrow> 'sel peer \<Rightarrow> pod list" where
  "entry_pods asel P ns q =
     (if peer_IPBlock q \<noteq> None then [] else filter (peer_selects asel P ns q) (usablePods (np_Pods P)))"

lemma np_peer_emits:
  assumes wf: "wf_np_params P" and any: "\<forall>ls. everything ls" and q: "wf_peer q"
    and d: "d \<in> {np_ingress, np_egress}"
  shows "emits P (np_peer asel everything pol d i j q)
    (\<lambda>S out. covers S (fst out) (\<lambda>p. peer_names asel P (pol_Namespace pol) q (pkt_addr (dir_peer d) p)) \<and>
             snd out = entry_pods asel P (pol_Namespace pol) q)"
proof (cases "peer_IPBlock q")
  case (Some blk)
  have "covers S [ipBlockMatch d blk] (\<lambda>p. peer_names asel P (pol_Namespace pol) q (pkt_addr (dir_peer d) p))" for S
    using ipBlockMatch_means [of blk d "dir_peer d" S] q Some dir_sides(1) [OF d]
    by (auto simp: peer_names_def wf_peer_def intro!: covers_one)
  then show ?thesis
    unfolding emits_def np_peer_def using Some by (auto simp: entry_pods_def intro!: exI [of _ "[]"])
next
  case None
  show ?thesis
  proof (cases "peer_PodSelector q = None \<and> peer_NamespaceSelector q = None")
    case True
    then have "unrestricted q" "\<And>pod. peer_selects asel P (pol_Namespace pol) q pod"
      using None by (simp_all add: unrestricted_def peer_selects_def)
    then show ?thesis
      unfolding emits_def np_peer_def using None True covers_one [OF means_any]
      by (auto simp: entry_pods_def peer_names_def env_def intro!: exI [of _ "[]"])
  next
    case False
    let ?pods = "filter (peer_selects asel P (pol_Namespace pol) q) (usablePods (np_Pods P))"
    have plain: "plain_pods ?pods" using wf by (simp add: wf_np_params_def usable_plain)
    have names: "peer_names asel P (pol_Namespace pol) q a \<longleftrightarrow> list_ex (\<lambda>pod. a \<in> set (pod_IPs pod)) ?pods" for a
      using None False usable_ex [of "peer_selects asel P (pol_Namespace pol) q" a "np_Pods P"]
      by (auto simp: peer_names_def unrestricted_def)
    have "emits P (st_bind (podSets ''peer_'' parts ?pods) (\<lambda>addrs.
        st_return (pa_matches addrs (\<lambda>fam set. fam @ '' '' @ dir_peerAddr d @ '' @'' @ set), ?pods)))
      (\<lambda>S out. covers S (fst out) (\<lambda>p. peer_names asel P (pol_Namespace pol) q (pkt_addr (dir_peer d) p)) \<and> snd out = ?pods)" for parts
      using pa_covers [where sd = "dir_peer d" and as = "[]" and pods = ?pods]
      by (intro emits_bind [OF podSets_emits [OF _ plain]] emits_return)
         (auto simp: id_char_def ident_char_def names atoms_text_def dir_sides(1) [OF d])
    then have body: "emits P (st_bind (podSets ''peer_'' parts pods) (\<lambda>addrs.
        st_return (pa_matches addrs (\<lambda>fam set. fam @ '' '' @ dir_peerAddr d @ '' @'' @ set), pods)))
      (\<lambda>S out. covers S (fst out) (\<lambda>p. peer_names asel P (pol_Namespace pol) q (pkt_addr (dir_peer d) p)) \<and> snd out = ?pods)"
      if "peerPods asel everything b (pol_Namespace pol) q = Inr pods" "env P b" for parts pods b
      using peerPods_selects [OF wf that(2) any False that(1)] by simp
    show ?thesis
      unfolding emits_def np_peer_def using None False emitsD [OF body]
      by (auto simp: st_bind_Inr [of "st_lift x" for x] st_lift_Inr entry_pods_def)
  qed
qed

section \<open>Ports\<close>

text \<open>\<open>port_opens\<close> against the list of pods the code resolves a name with.\<close>

definition opens_on :: "pod list \<Rightarrow> np_port \<Rightarrow> packet \<Rightarrow> bool" where
  "opens_on rs port p \<longleftrightarrow>
     pkt_l4 p = l4_name (port_Protocol port) \<and>
     (if port_Name port \<noteq> []
      then list_ex (\<lambda>pod. pod_declares port (pkt_dport p) pod \<and> pkt_dst p \<in> set (pod_IPs pod)) rs
      else port_Number port = 0 \<or>
        (port_Number port \<le> pkt_dport p \<and>
         pkt_dport p \<le> (if port_EndPort port = 0 then port_Number port else port_EndPort port)))"

definition wf_declared :: "pod list \<Rightarrow> bool" where
  "wf_declared rs \<longleftrightarrow> (\<forall>pod \<in> set rs. \<forall>dp \<in> set (pod_Ports pod). wf_protocol (np_PortProtocol dp))"

lemma declared_ports_iff:
  assumes "wf_declared rs" "wf_protocol (port_Protocol port)"
  shows "(n, pod) \<in> set (declared_ports port rs) \<longleftrightarrow> pod \<in> set rs \<and> pod_declares port n pod"
proof -
  have "(n, pod) \<in> set (declared_ports port rs) \<longleftrightarrow> pod \<in> set rs \<and> (\<exists>dp \<in> set (pod_Ports pod).
      np_PortName dp = port_Name port \<and> np_PortNumber dp = n \<and> samePortProtocol (np_PortProtocol dp) (port_Protocol port))"
    unfolding declared_ports_def by (auto simp: image_iff)
  then show ?thesis
    using assms by (auto simp: wf_declared_def pod_declares_def list_ex_iff samePortProtocol_l4)
qed

lemma port_pods_iff: "pod \<in> set (port_pods n ds) \<longleftrightarrow> (n, pod) \<in> set ds"
  by (force simp: port_pods_def)

lemma namedPort_emits:
  assumes plain: "plain_pods rs" and wf: "wf_protocol (port_Protocol port)" and name: "port_Name port \<noteq> []"
    and dps: "wf_declared rs"
  shows "emits P (namedPort pol d i j k port (port_proto port) rs) (\<lambda>S ms. covers S ms (opens_on rs port))"
proof -
  let ?ds = "declared_ports port rs" and ?q = "port_proto port"
  let ?F = "\<lambda>n p. list_ex (\<lambda>pod. pkt_dst p \<in> set (pod_IPs pod)) (port_pods n ?ds) \<and> pkt_l4 p = ?q \<and> pkt_dport p = n"
  have ds: "(n, pod) \<in> set ?ds \<longleftrightarrow> pod \<in> set rs \<and> pod_declares port n pod" for n pod
    using declared_ports_iff [OF dps wf] by blast
  have q: "?q \<in> set port_protocols" using wf by (simp add: port_proto_l4 wf_protocol_l4)
  have pods: "plain_pods (port_pods n ?ds)" for n
    using plain by (auto simp: plain_pods_def list_all_iff port_pods_iff ds)
  have one: "emits P (st_bind (podSets ''port_'' parts (port_pods n ?ds)) (\<lambda>addrs.
      st_return (pa_matches addrs (\<lambda>fam set.
        fam @ '' daddr @'' @ set @ '' '' @ ?q @ '' dport '' @ itoa (unat n))))) (\<lambda>S ms. covers S ms (?F n))" for n parts
    using pa_covers [where sd = Daddr and as = "[DPort ?q n]" and pods = "port_pods n ?ds"] q
    by (intro emits_bind [OF podSets_emits [OF _ pods]] emits_return)
       (auto simp: id_char_def ident_char_def atoms_text_def)
  have all: "list_ex (\<lambda>n. ?F n p) (sort (remdups (map fst ?ds))) \<longleftrightarrow> opens_on rs port p" for p
    using name ds by (force simp: opens_on_def list_ex_iff port_pods_iff port_proto_l4 image_iff)
  have "covers S (concat mss) (opens_on rs port)"
    if "list_all2 (\<lambda>n ms. covers S ms (?F n)) (sort (remdups (map fst ?ds))) mss" for S mss
    using covers_concat [OF that] by (rule covers_cong) (rule all)
  then show ?thesis
    unfolding namedPort_def Let_def
    by (intro emits_bind [OF emits_each [where Q = "\<lambda>n S ms. covers S ms (?F n)"]] one emits_return) simp
qed

lemma opens_means:
  assumes "wf_protocol (port_Protocol port)" "port_Name port = []" "wf_atom a"
    and "\<And>S p. holds S p a = opens_on rs port p" "e = atom_text a"
  shows "covers S [\<lparr>m_fam = familyBoth, m_expr = e\<rparr>] (opens_on rs port)"
  using assms by (auto simp: means_def atoms_text_def intro!: covers_one exI [of _ "[a]"])

lemma np_port_match_emits:
  assumes plain: "plain_pods rs" and wf: "wf_protocol (port_Protocol port)" and dps: "wf_declared rs"
  shows "emits P (np_port_match pol d i j rs (k, port)) (\<lambda>S ms. covers S ms (opens_on rs port))"
proof (cases "port_Name port = []")
  case False
  then show ?thesis
    using namedPort_emits [OF plain wf False dps] by (simp add: np_port_match_def)
next
  case True
  let ?q = "port_proto port" and ?n = "port_Number port" and ?e = "port_EndPort port"
  have q: "?q \<in> set port_protocols" using wf by (simp add: port_proto_l4 wf_protocol_l4)
  have o: "opens_on rs port p \<longleftrightarrow> pkt_l4 p = ?q \<and> (?n = 0 \<or> ?n \<le> pkt_dport p \<and> pkt_dport p \<le> (if ?e = 0 then ?n else ?e))" for p
    using True by (simp add: opens_on_def port_proto_l4)
  note means = opens_means [OF wf True]
  consider "?n = 0" | "?n \<noteq> 0" "?n < ?e" | "?n \<noteq> 0" "\<not> ?n < ?e" "?e \<noteq> 0" "?e < ?n"
    | "?n \<noteq> 0" "\<not> ?n < ?e" "?e = 0 \<or> ?e = ?n"
    by fastforce
  then show ?thesis
  proof cases
    case 1
    then show ?thesis using True q
      by (auto simp: np_port_match_def o intro!: emits_return means [of "L4Proto ?q"])
  next
    case 2
    then have "?e \<noteq> 0" by auto
    then show ?thesis using True q 2
      by (auto simp: np_port_match_def o intro!: emits_return means [of "DPortRange ?q ?n ?e"])
  next
    case 3
    then show ?thesis using True by (auto simp: np_port_match_def intro!: emits_lift)
  next
    case 4
    then show ?thesis using True q
      by (auto simp: np_port_match_def o intro!: emits_return means [of "DPort ?q ?n"])
  qed
qed

lemma snd_enumerate: "z \<in> set (enumerate n xs) \<Longrightarrow> snd z \<in> set xs"
  by (induction xs arbitrary: n) auto

lemma list_ex_enumerate: "list_ex (\<lambda>x. F (snd x)) (enumerate n xs) = list_ex F xs"
  by (induction xs arbitrary: n) auto

lemma np_ports_emits:
  assumes "plain_pods rs" "list_all (\<lambda>port. wf_protocol (port_Protocol port)) ports" "wf_declared rs"
  shows "emits P (np_ports pol d i j ports rs) (\<lambda>S ms. covers S ms (\<lambda>p. ports = [] \<or> list_ex (\<lambda>port. opens_on rs port p) ports))"
proof (cases "ports = []")
  case True
  then show ?thesis using covers_one [OF means_any] by (auto simp: np_ports_def intro!: emits_return)
next
  case False
  have one: "emits P (np_port_match pol d i j rs x) (\<lambda>S ms. covers S ms (opens_on rs (snd x)))"
    if "x \<in> set (enumerate 0 ports)" for x
  proof -
    have "snd x \<in> set ports" using that by (rule snd_enumerate)
    then show ?thesis
      using np_port_match_emits [OF assms(1) _ assms(3), of "snd x" P pol d i j "fst x"] assms(2)
      by (simp add: list_all_iff)
  qed
  have "covers S (concat mss) (\<lambda>p. list_ex (\<lambda>port. opens_on rs port p) ports)"
    if "list_all2 (\<lambda>x ms. covers S ms (opens_on rs (snd x))) (enumerate 0 ports) mss" for S mss
    using covers_concat [OF that] by (rule covers_cong) (rule list_ex_enumerate)
  then show ?thesis
    using False unfolding np_ports_def
    by (auto intro!: emits_bind [OF emits_each [OF one]] emits_return)
qed

section \<open>The rules of one direction\<close>

lemma receivers:
  assumes "d \<in> {np_ingress, np_egress}"
    and "rs = (if dir_typ d = PolicyTypeEgress then entry_pods asel P (pol_Namespace pol) q
               else filter (policy_selects asel P pol) (usablePods (np_Pods P)))"
  shows "opens_on rs port p \<longleftrightarrow> port_opens (receives asel P d pol q) (np_Pods P) port p"
proof -
  have "rs = filter (receives asel P d pol q) (usablePods (np_Pods P))"
    using assms(2) by (auto simp: receives_def [abs_def] entry_pods_def)
  then show ?thesis
    using usable_ex_and [of "receives asel P d pol q" "pod_declares port (pkt_dport p)" "pkt_dst p" "np_Pods P"]
    by (simp add: opens_on_def port_opens_def)
qed

lemma np_peer_returns:
  assumes "wf_np_params P" "\<forall>ls. everything ls"
  shows "returns P (np_peer asel everything pol d i j q) (\<lambda>x. snd x = entry_pods asel P (pol_Namespace pol) q)"
proof -
  have "filter (peer_selects asel P ns q) (usablePods (np_Pods P)) = usablePods (np_Pods P)"
    if "peer_PodSelector q = None" "peer_NamespaceSelector q = None" for ns
    using that by (simp add: peer_selects_def)
  then show ?thesis
    using peerPods_selects [OF assms(1) _ assms(2)]
    by (auto simp: returns_def np_peer_def entry_pods_def env_def st_Inr split: option.splits if_splits)
qed

lemma np_entry_emits:
  assumes wf: "wf_np_params P" and any: "\<forall>ls. everything ls" and q: "wf_peer q"
    and ports: "list_all (\<lambda>port. wf_protocol (port_Protocol port)) ports" and d: "d \<in> {np_ingress, np_egress}"
    and sel: "selected = filter (policy_selects asel P pol) (usablePods (np_Pods P))"
  shows "emits P (np_entry asel everything pol d selected i ports (j, q))
    (\<lambda>S ms. covers S ms (\<lambda>p. peer_allows_packet asel P d pol ports p q))"
proof -
  define rs where "rs = (if dir_typ d = PolicyTypeEgress then entry_pods asel P (pol_Namespace pol) q else selected)"
  have pods: "list_all wf_pod (np_Pods P)" using wf by (simp add: wf_np_params_def)
  have "plain_pods rs"
    using usable_plain [OF pods] by (auto simp: rs_def sel entry_pods_def plain_pods_def)
  moreover have "wf_declared rs"
    using usable_protocols [OF pods] by (auto simp: rs_def sel entry_pods_def wf_declared_def)
  ultimately have P: "emits P (np_ports pol d i j ports rs)
      (\<lambda>S ms. covers S ms (\<lambda>p. ports = [] \<or> list_ex (\<lambda>port. opens_on rs port p) ports))"
    using np_ports_emits ports by blast
  have opens: "opens_on rs port p = port_opens (receives asel P d pol q) (np_Pods P) port p" for port p
    by (rule receivers [OF d]) (simp add: rs_def sel)
  have "covers S (combos pm qm) (\<lambda>p. peer_allows_packet asel P d pol ports p q)"
    if "covers S pm (\<lambda>p. peer_names asel P (pol_Namespace pol) q (pkt_addr (dir_peer d) p))"
      "covers S qm (\<lambda>p. ports = [] \<or> list_ex (\<lambda>port. opens_on rs port p) ports)" for S pm qm
    using covers_combos [OF that] by (rule covers_cong) (simp add: peer_allows_packet_def opens)
  then have "emits P (st_bind (np_ports pol d i j ports rs) (\<lambda>qm. st_return (combos pm qm)))
      (\<lambda>S ms. covers S pm (\<lambda>p. peer_names asel P (pol_Namespace pol) q (pkt_addr (dir_peer d) p)) \<longrightarrow>
         covers S ms (\<lambda>p. peer_allows_packet asel P d pol ports p q))" for pm
    by (intro emits_bind [OF P] emits_return) blast
  then show ?thesis
    unfolding np_entry_def prod.case
    by (intro emits_bind_value [OF np_peer_emits [OF wf any q d] np_peer_returns [OF wf any]])
       (auto simp: rs_def Let_def split: prod.splits)
qed

lemma emits_each_enumerate:
  assumes "\<And>i x. x \<in> set xs \<Longrightarrow> emits P (f (i, x)) (\<lambda>S y. Q x S y)"
  shows "emits P (st_each f (enumerate n xs)) (\<lambda>S ys. list_all2 (\<lambda>x y. Q x S y) xs ys)"
proof -
  have "emits P (st_each f (enumerate n xs)) (\<lambda>S ys. list_all2 (\<lambda>x y. Q (snd x) S y) (enumerate n xs) ys)"
  proof (rule emits_each)
    fix z assume "z \<in> set (enumerate n xs)"
    then show "emits P (f z) (Q (snd z))" using assms [OF snd_enumerate, of z n "fst z"] by simp
  qed
  moreover have "list_all2 (\<lambda>x y. Q (snd x) S y) (enumerate n xs) ys = list_all2 (\<lambda>x y. Q x S y) xs ys" for S ys
    using list_all2_map1 [of "\<lambda>x y. Q x S y" snd "enumerate n xs" ys] by simp
  ultimately show ?thesis by simp
qed

lemma directionRules_emits:
  assumes wf: "wf_np_params P" and any: "\<forall>ls. everything ls" and pol: "wf_policy pol"
    and d: "d \<in> {np_ingress, np_egress}"
    and sel: "selected = filter (policy_selects asel P pol) (usablePods (np_Pods P))"
  shows "emits P (directionRules asel everything pol d selected)
    (\<lambda>S rules. \<exists>ms. rules = map (\<lambda>m. rule (m_expr m) ''accept'' (policy_comment pol)) ms \<and>
       covers S ms (np_allows asel P d pol))"
proof -
  let ?peers = "\<lambda>r. if rule_Peers r = [] then [any_peer] else rule_Peers r"
  let ?Q = "\<lambda>r q S ms. covers S ms (\<lambda>p. peer_allows_packet asel P d pol (rule_Ports r) p q)"
  have wfr: "wf_rule r" if "r \<in> set (pol_rules pol (dir_typ d))" for r
    using pol that by (auto simp: wf_policy_def pol_rules_def list_all_iff split: if_splits)
  have one: "emits P (st_each (np_entry asel everything pol d selected i (rule_Ports r)) (enumerate 0 (?peers r)))
      (\<lambda>S mss. list_all2 (\<lambda>q ms. ?Q r q S ms) (?peers r) mss)" if "r \<in> set (pol_rules pol (dir_typ d))" for i r
  proof (rule emits_each_enumerate)
    fix j q assume "q \<in> set (?peers r)"
    then have "wf_peer q" using wfr [OF that] by (auto simp: wf_rule_def list_all_iff any_peer_def wf_peer_def split: if_splits)
    then show "emits P (np_entry asel everything pol d selected i (rule_Ports r) (j, q)) (?Q r q)"
      using np_entry_emits [OF wf any _ _ d sel] wfr [OF that] by (auto simp: wf_rule_def)
  qed
  have all: "covers S (concat (concat msss)) (np_allows asel P d pol)"
    if "list_all2 (\<lambda>r mss. list_all2 (\<lambda>q ms. ?Q r q S ms) (?peers r) mss) (pol_rules pol (dir_typ d)) msss" for S msss
  proof -
    have "list_all2 (\<lambda>r ms. covers S ms (\<lambda>p. rule_allows asel P d pol p r)) (pol_rules pol (dir_typ d)) (map concat msss)"
      using that by (auto simp: list_all2_map2 rule_allows_def elim!: list_all2_mono dest!: covers_concat)
    then have "covers S (concat (map concat msss)) (np_allows asel P d pol)"
      using covers_concat by (fastforce simp: np_allows_def elim: covers_cong)
    moreover have "concat (map concat msss) = concat (concat msss)" by (induction msss) auto
    ultimately show ?thesis by simp
  qed
  show ?thesis
    unfolding directionRules_def
    by (rule emits_bind [OF emits_each_enumerate [where Q = "\<lambda>r S mss. list_all2 (\<lambda>q ms. ?Q r q S ms) (?peers r) mss"]])
       (use one all in \<open>auto intro!: emits_return\<close>)
qed

lemma directionRules_accepts:
  "directionRules asel everything pol d selected b = Inr (rules, b') \<Longrightarrow> accepts_only rules"
  by (auto simp: directionRules_def st_Inr accepts_only_def list_all_iff)

section \<open>The table policy by policy\<close>

type_synonym link = "string \<times> string \<times> nft_chain"

fun link_rule :: "link \<Rightarrow> nft_rule" where
  "link_rule (m, k, c) = rule m (''jump '' @ chain_Name c) k"

fun link_chain :: "link \<Rightarrow> nft_chain" where
  "link_chain (m, k, c) = c"

fun link_fires :: "(nft_set list \<Rightarrow> packet \<Rightarrow> string \<Rightarrow> bool) \<Rightarrow> nft_set list \<Rightarrow> packet \<Rightarrow> link \<Rightarrow> bool" where
  "link_fires ev S p (m, k, c) \<longleftrightarrow> ev S p m \<and> list_ex (\<lambda>x. ev S p (rule_Match x)) (chain_Rules c)"

definition allowed_by :: "'sel as_selector \<Rightarrow> 'sel np_params \<Rightarrow> dir \<Rightarrow> packet \<Rightarrow> 'sel network_policy \<Rightarrow> bool" where
  "allowed_by asel P d p pol \<longleftrightarrow> applies asel P d (pkt_addr (dir_self d) p) pol \<and> np_allows asel P d pol p"

definition dispatch_drop :: nft_rule where
  "dispatch_drop = rule [] ''drop'' ''isolated pod, no policy accepted''"

text \<open>
  The builder after the policies \<open>ps d\<close> were rendered for each direction \<open>d\<close>: \<open>ss\<close> are the
  sets declared, \<open>cs\<close> the chains added, \<open>ls d\<close> the jumps of a dispatch chain. The table is the
  one it started from but for these; a jump fires into an accept exactly for the packets one
  of the policies allows; and the isolated addresses are those a policy applies to.
\<close>

definition policy_chain :: "nft_chain \<Rightarrow> bool" where
  "policy_chain c \<longleftrightarrow> (HasPrefix (chain_Name c) ''ingress_'' \<or> HasPrefix (chain_Name c) ''egress_'') \<and> chain_Base c = None"

definition frame :: "'sel np_params \<Rightarrow> ruleset \<Rightarrow> nft_set list \<Rightarrow> nft_chain list \<Rightarrow> builder \<Rightarrow> bool" where
  "frame P r0 ss cs b \<longleftrightarrow>
     env P b \<and> rs_Sets (bld_ruleset b) = rs_Sets r0 @ ss \<and>
     (\<exists>bs. rs_Chains (bld_ruleset b) = bs @ cs \<and> map chain_Name bs = map chain_Name (rs_Chains r0)) \<and>
     list_all policy_chain cs \<and> bases (bld_ruleset b) = bases r0 \<and>
     (\<forall>n c. Ruleset_Chain r0 n = Some c \<longrightarrow> n \<noteq> ChainIngressDispatch \<longrightarrow> n \<noteq> ChainEgressDispatch \<longrightarrow>
        Ruleset_Chain (bld_ruleset b) n = Some c)"

definition dispatches :: "(dir \<Rightarrow> link list) \<Rightarrow> nft_chain list \<Rightarrow> builder \<Rightarrow> bool" where
  "dispatches ls cs b \<longleftrightarrow>
     (\<forall>d \<in> {np_ingress, np_egress}.
        (\<exists>D. Ruleset_Chain (bld_ruleset b) (dir_dispatch d) = Some D \<and>
             chain_Rules D = map link_rule (ls d) @ [dispatch_drop]) \<and>
        (\<forall>l \<in> set (ls d). link_chain l \<in> set cs \<and> accepts_only (chain_Rules (link_chain l))))"

definition decides ::
  "(nft_set list \<Rightarrow> packet \<Rightarrow> string \<Rightarrow> bool) \<Rightarrow> 'sel as_selector \<Rightarrow> 'sel np_params \<Rightarrow> nft_set list \<Rightarrow>
     (dir \<Rightarrow> link list) \<Rightarrow> (dir \<Rightarrow> 'sel network_policy list) \<Rightarrow> bool" where
  "decides ev asel P ss ls ps \<longleftrightarrow>
     (\<forall>S p d. present S ss \<longrightarrow> good_packet p \<longrightarrow> d \<in> {np_ingress, np_egress} \<longrightarrow>
        list_ex (link_fires ev S p) (ls d) = list_ex (allowed_by asel P d p) (ps d))"

definition isolates :: "'sel as_selector \<Rightarrow> 'sel np_params \<Rightarrow> (dir \<Rightarrow> 'sel network_policy list) \<Rightarrow> builder \<Rightarrow> bool" where
  "isolates asel P ps b \<longleftrightarrow>
     (\<forall>d \<in> {np_ingress, np_egress}. \<forall>a. a \<in> set (bld_isolated b (dir_typ d)) \<longleftrightarrow> list_ex (applies asel P d a) (ps d))"

definition np_inv ::
  "(nft_set list \<Rightarrow> packet \<Rightarrow> string \<Rightarrow> bool) \<Rightarrow> 'sel as_selector \<Rightarrow> 'sel np_params \<Rightarrow> ruleset \<Rightarrow>
     (dir \<Rightarrow> 'sel network_policy list) \<Rightarrow> nft_set list \<Rightarrow> nft_chain list \<Rightarrow> (dir \<Rightarrow> link list) \<Rightarrow> builder \<Rightarrow> bool" where
  "np_inv ev asel P r0 ps ss cs ls b \<longleftrightarrow>
     frame P r0 ss cs b \<and> dispatches ls cs b \<and> decides ev asel P ss ls ps \<and> isolates asel P ps b"

lemma np_dirs:
  "dir_typ np_ingress = PolicyTypeIngress" "dir_typ np_egress = PolicyTypeEgress" "np_ingress \<noteq> np_egress"
  "PolicyTypeIngress \<noteq> PolicyTypeEgress" "dir_dispatch np_ingress = ChainIngressDispatch"
  "dir_dispatch np_egress = ChainEgressDispatch" "ChainIngressDispatch \<noteq> ChainEgressDispatch"
  by (simp_all add: np_ingress_def np_egress_def PolicyTypeIngress_def PolicyTypeEgress_def chain_name_defs)

lemma update_first_append:
  "\<exists>x \<in> set xs. Q x \<Longrightarrow> update_first Q f (xs @ ys) = update_first Q f xs @ ys"
  by (induction xs) auto

lemma grown_frame: "frame P r0 ss cs b \<Longrightarrow> frame P r0 (ss @ ts) cs (grown ts b)"
  by (auto simp: frame_def Ruleset_Chain_def bases_def)

lemma grown_dispatches: "dispatches ls cs (grown ts b) = dispatches ls cs b"
  by (simp add: dispatches_def Ruleset_Chain_def)

lemma grown_decides: "decides ev asel P ss ls ps \<Longrightarrow> decides ev asel P (ss @ ts) ls ps"
  by (auto simp: decides_def present_append)

lemma grown_inv: "np_inv ev asel P r0 ps ss cs ls b \<Longrightarrow> np_inv ev asel P r0 ps (ss @ ts) cs ls (grown ts b)"
  by (auto simp: np_inv_def grown_frame grown_dispatches grown_decides isolates_def)

text \<open>One more chain, and the jumps to it ahead of the drop.\<close>

definition linked :: "dir \<Rightarrow> nft_chain \<Rightarrow> nft_rule list \<Rightarrow> builder \<Rightarrow> builder" where
  "linked d c jumps b =
     b\<lparr>bld_ruleset := with_chain (dir_dispatch d) (InsertBeforeLast jumps) (add_chain c (bld_ruleset b))\<rparr>"

lemma linked_frame:
  assumes "frame P r0 ss cs b" "d \<in> {np_ingress, np_egress}" "Ruleset_Chain r0 (dir_dispatch d) \<noteq> None"
    and "policy_chain c"
  shows "frame P r0 ss (cs @ [c]) (linked d c js b)"
proof -
  obtain bs where bs: "rs_Chains (bld_ruleset b) = bs @ cs" "map chain_Name bs = map chain_Name (rs_Chains r0)"
    using assms(1) by (auto simp: frame_def)
  have "\<exists>x \<in> set bs. chain_Name x = dir_dispatch d"
  proof -
    have "dir_dispatch d \<in> chain_Name ` set (rs_Chains r0)"
      using assms(3) by (auto simp: Ruleset_Chain_def find_None_key)
    then show ?thesis using bs(2) by (metis imageE image_set)
  qed
  then have "rs_Chains (bld_ruleset (linked d c js b)) =
      update_first (\<lambda>x. chain_Name x = dir_dispatch d) (InsertBeforeLast js) bs @ (cs @ [c])"
    using bs(1) update_first_append [of bs _ _ "cs @ [c]"]
    by (simp add: linked_def with_chain_def add_chain_def)
  moreover have "map chain_Name (update_first (\<lambda>x. chain_Name x = dir_dispatch d) (InsertBeforeLast js) bs) = map chain_Name bs"
    by (rule map_update_first) simp
  moreover have "env P (linked d c js b)" "rs_Sets (bld_ruleset (linked d c js b)) = rs_Sets r0 @ ss"
    using assms(1) by (auto simp: frame_def env_def linked_def)
  moreover have "Ruleset_Chain (bld_ruleset (linked d c js b)) n = Some c'"
    if "Ruleset_Chain r0 n = Some c'" "n \<noteq> ChainIngressDispatch" "n \<noteq> ChainEgressDispatch" for n c'
    using that assms(1,2) by (auto simp: frame_def linked_def np_dirs)
  moreover have "bases (bld_ruleset (linked d c js b)) = bases r0"
    using assms(1,4) by (simp add: linked_def frame_def policy_chain_def bases_with_chain)
  ultimately show ?thesis using bs(2) assms(1,4) by (auto simp: frame_def)
qed

lemma linked_dispatches:
  assumes "dispatches ls cs b" "d \<in> {np_ingress, np_egress}"
    and "\<forall>l \<in> set new. link_chain l = c" "accepts_only (chain_Rules c)"
  shows "dispatches (ls(d := ls d @ new)) (cs @ [c]) (linked d c (map link_rule new) b)"
proof -
  have "\<exists>D. Ruleset_Chain (bld_ruleset (linked d c (map link_rule new) b)) (dir_dispatch e) = Some D \<and>
      chain_Rules D = map link_rule ((ls(d := ls d @ new)) e) @ [dispatch_drop]" if "e \<in> {np_ingress, np_egress}" for e
  proof -
    obtain D where D: "Ruleset_Chain (bld_ruleset b) (dir_dispatch e) = Some D"
      "chain_Rules D = map link_rule (ls e) @ [dispatch_drop]"
      using assms(1) \<open>e \<in> _\<close> by (auto simp: dispatches_def)
    have "e \<noteq> d \<Longrightarrow> dir_dispatch e \<noteq> dir_dispatch d"
      using assms(2) that np_dirs by auto
    then show ?thesis
      using D InsertBeforeLast_snoc [OF D(2), of "map link_rule new"]
      by (cases "e = d") (auto simp: linked_def)
  qed
  moreover have "\<forall>e \<in> {np_ingress, np_egress}. \<forall>l \<in> set ((ls(d := ls d @ new)) e).
      link_chain l \<in> set (cs @ [c]) \<and> accepts_only (chain_Rules (link_chain l))"
    using assms by (auto simp: dispatches_def)
  ultimately show ?thesis unfolding dispatches_def by blast
qed

lemma set_fold_insert: "set (fold List.insert xs ys) = set xs \<union> set ys"
  by (induction xs arbitrary: ys) auto

lemma isolate_isolates:
  assumes "isolates asel P ps b" "d \<in> {np_ingress, np_egress}" "governs pol (dir_typ d)"
    and "selected = filter (policy_selects asel P pol) (usablePods (np_Pods P))"
  shows "isolates asel P (ps(d := ps d @ [pol])) (isolate (dir_typ d) selected b)"
proof -
  have "(\<exists>q \<in> set selected. a \<in> set (pod_IPs q)) \<longleftrightarrow> applies asel P d a pol" for a
    using usable_ex [of "policy_selects asel P pol" a "np_Pods P"] assms(3,4)
    by (simp add: applies_def list_ex_iff)
  moreover have "e \<in> {np_ingress, np_egress} \<Longrightarrow> e \<noteq> d \<Longrightarrow> dir_typ e \<noteq> dir_typ d" for e
    using assms(2) np_dirs by auto
  ultimately show ?thesis
    using assms(1,2) unfolding isolates_def isolate_def
    by (auto simp: set_fold_insert split: if_splits)
qed

lemma isolate_frame [simp]:
  "frame P r0 ss cs (isolate t pods b) = frame P r0 ss cs b" "dispatches ls cs (isolate t pods b) = dispatches ls cs b"
  by (simp_all add: isolate_def env_def frame_def dispatches_def)

lemma np_selected_eq:
  "env P b \<Longrightarrow> asel (pol_PodSelector pol) = Inr f \<Longrightarrow>
     np_selected b (pol_Namespace pol) f = filter (policy_selects asel P pol) (usablePods (np_Pods P))"
  by (auto simp: np_selected_def env_def policy_selects_def sel_matches_def intro!: filter_cong)

context nft_matcher
begin

lemma decides_link:
  assumes "decides ev asel P ss ls ps" "d \<in> {np_ingress, np_egress}" "governs pol (dir_typ d)"
    and sel: "selected = filter (policy_selects asel P pol) (usablePods (np_Pods P))"
    and grp: "\<And>S. present S ss \<Longrightarrow> group S addrs selected"
    and rules: "\<And>S. present S ts \<Longrightarrow>
      \<exists>ms. chain_Rules c = map (\<lambda>m. rule (m_expr m) ''accept'' k) ms \<and> covers S ms (np_allows asel P d pol)"
  shows "decides ev asel P (ss @ ts)
    (ls(d := ls d @ map (\<lambda>m. (m_expr m, k, c))
       (pa_matches addrs (\<lambda>fam set. fam @ '' '' @ dir_selfAddr d @ '' @'' @ set))))
    (ps(d := ps d @ [pol]))"
proof -
  let ?jumps = "pa_matches addrs (\<lambda>fam set. fam @ '' '' @ dir_selfAddr d @ '' @'' @ set)"
  have "list_ex (link_fires ev S p) (map (\<lambda>m. (m_expr m, k, c)) ?jumps) \<longleftrightarrow> allowed_by asel P d p pol"
    if S: "present S (ss @ ts)" and p: "good_packet p" for S p
  proof -
    obtain ms where ms: "chain_Rules c = map (\<lambda>m. rule (m_expr m) ''accept'' k) ms"
      "covers S ms (np_allows asel P d pol)"
      using rules S by (auto simp: present_append)
    have "covers S ?jumps (\<lambda>p. list_ex (\<lambda>pod. pkt_addr (dir_self d) p \<in> set (pod_IPs pod)) selected)"
      using pa_covers [where sd = "dir_self d" and as = "[]" and pods = selected and pa = addrs and S = S] grp S
      by (simp add: present_append atoms_text_def dir_sides(2) [OF assms(2)])
    then have "list_ex (\<lambda>m. ev S p (m_expr m)) ?jumps \<longleftrightarrow> applies asel P d (pkt_addr (dir_self d) p) pol"
      using covers_ev p usable_ex [of "policy_selects asel P pol" _ "np_Pods P"] assms(3)
      by (simp add: applies_def sel)
    moreover have "list_ex (\<lambda>x. ev S p (rule_Match x)) (chain_Rules c) \<longleftrightarrow> np_allows asel P d pol p"
      using covers_ev [OF ms(2) p] by (simp add: ms(1) list_ex_iff)
    ultimately show ?thesis by (auto simp: allowed_by_def list_ex_iff)
  qed
  then show ?thesis using assms(1) by (auto simp: decides_def present_append)
qed

lemma np_direction_step:
  assumes inv: "np_inv ev asel P r0 ps ss cs ls b" and d: "d \<in> {np_ingress, np_egress}"
    and wf: "wf_np_params P" "wf_policy pol" and any: "\<forall>ls. everything ls"
    and sel: "selected = filter (policy_selects asel P pol) (usablePods (np_Pods P))"
    and grp: "\<And>S. present S ss \<Longrightarrow> group S addrs selected"
    and r0: "Ruleset_Chain r0 (dir_dispatch d) \<noteq> None"
    and step: "np_direction asel everything pol selected addrs d b = Inr b'"
  shows "\<exists>ts cs' ls'. np_inv ev asel P r0 (ps(d := ps d @ [pol])) (ss @ ts) cs' ls' b'"
proof (cases "governs pol (dir_typ d)")
  case False
  then have "\<not> applies asel P d a pol" "\<not> allowed_by asel P d p pol" for a p
    by (simp_all add: applies_def allowed_by_def)
  then have "np_inv ev asel P r0 (ps(d := ps d @ [pol])) (ss @ []) cs ls b"
    using inv by (auto simp: np_inv_def decides_def isolates_def)
  moreover have "b' = b" using step False by (simp add: np_direction_def)
  ultimately show ?thesis by blast
next
  case True
  then obtain n rules b1 where n: "Identifier (dir_chainPrefix d) [pol_Namespace pol, pol_Name pol] = Inr n"
    and r: "directionRules asel everything pol d selected b = Inr (rules, b1)"
    and b': "b' = isolate (dir_typ d) selected (linked d
       \<lparr>chain_Name = n, chain_Base = None, chain_Rules = rules,
        chain_Comment = ''NetworkPolicy '' @ policy_comment pol @ '', '' @ dir_typ d\<rparr>
       (map (\<lambda>m. rule (m_expr m) (''jump '' @ n) (policy_comment pol))
         (pa_matches addrs (\<lambda>fam set. fam @ '' '' @ dir_selfAddr d @ '' @'' @ set))) b1)"
    using step by (auto simp: np_direction_def bind_err_Inr Let_def linked_def split: option.splits)
  define c where "c = \<lparr>chain_Name = n, chain_Base = None, chain_Rules = rules,
        chain_Comment = ''NetworkPolicy '' @ policy_comment pol @ '', '' @ dir_typ d\<rparr>"
  let ?new = "map (\<lambda>m. (m_expr m, policy_comment pol, c))
      (pa_matches addrs (\<lambda>fam set. fam @ '' '' @ dir_selfAddr d @ '' @'' @ set))"
  have "env P b" using inv by (simp add: np_inv_def frame_def)
  then obtain ts where b1: "b1 = grown ts b" and rules: "\<And>S. present S ts \<Longrightarrow>
      \<exists>ms. rules = map (\<lambda>m. rule (m_expr m) ''accept'' (policy_comment pol)) ms \<and> covers S ms (np_allows asel P d pol)"
    using emitsD [OF directionRules_emits [OF wf(1) any wf(2) d sel] _ r] by blast
  note inv1 = grown_inv [OF inv, of ts, folded b1]
  have pc: "policy_chain c"
    using Identifier_prefix [OF n] d by (auto simp: policy_chain_def c_def np_ingress_def np_egress_def)
  have acc: "accepts_only (chain_Rules c)"
    using directionRules_accepts [OF r] by (simp add: c_def)
  have b'': "b' = isolate (dir_typ d) selected (linked d c (map link_rule ?new) b1)"
    by (simp add: b' c_def comp_def)
  have "frame P r0 (ss @ ts) (cs @ [c]) b'"
    using linked_frame [OF _ d r0 pc] inv1 unfolding b'' isolate_frame np_inv_def by blast
  moreover have "dispatches (ls(d := ls d @ ?new)) (cs @ [c]) b'"
    unfolding b'' isolate_frame using inv1 by (intro linked_dispatches [OF _ d _ acc]) (auto simp: np_inv_def)
  moreover have "decides ev asel P (ss @ ts) (ls(d := ls d @ ?new)) (ps(d := ps d @ [pol]))"
    using decides_link [OF _ d True sel grp, of ss ls ps ts c "policy_comment pol"] inv rules
    by (auto simp: np_inv_def c_def)
  moreover have "isolates asel P (ps(d := ps d @ [pol])) b'"
    using isolate_isolates [OF _ d True sel] inv1 by (simp add: b'' np_inv_def isolates_def linked_def)
  ultimately show ?thesis unfolding np_inv_def by blast
qed

lemma np_policy_step:
  assumes inv: "np_inv ev asel P r0 (\<lambda>d. done) ss cs ls b"
    and wf: "wf_np_params P" "wf_policy pol" and any: "\<forall>ls. everything ls"
    and r0: "Ruleset_Chain r0 ChainIngressDispatch \<noteq> None" "Ruleset_Chain r0 ChainEgressDispatch \<noteq> None"
    and step: "np_policy asel everything pol b = Inr b'"
  shows "\<exists>ss' cs' ls'. np_inv ev asel P r0 (\<lambda>d. done @ [pol]) ss' cs' ls' b'"
proof -
  define selected where "selected = filter (policy_selects asel P pol) (usablePods (np_Pods P))"
  obtain f where f: "asel (pol_PodSelector pol) = Inr f"
    using step by (auto simp: np_policy_def bind_err_Inr asSelector_def)
  have env: "env P b" using inv by (simp add: np_inv_def frame_def)
  then have sel: "np_selected b (pol_Namespace pol) f = selected"
    unfolding selected_def using f by (rule np_selected_eq)
  show ?thesis
  proof (cases "selected = []")
    case True
    have "\<not> applies asel P d a pol" "\<not> allowed_by asel P d p pol" for d a p
      using usable_ex [of "policy_selects asel P pol" _ "np_Pods P"] True
      by (simp_all add: applies_def allowed_by_def selected_def)
    then have "np_inv ev asel P r0 (\<lambda>d. done @ [pol]) ss cs ls b"
      using inv by (auto simp: np_inv_def decides_def isolates_def)
    moreover have "b' = b" using step f sel True by (simp add: np_policy_def asSelector_def)
    ultimately show ?thesis by blast
  next
    case False
    then obtain addrs b1 b2 where s: "podSets ''pods_'' [pol_Namespace pol, pol_Name pol] selected b = Inr (addrs, b1)"
      and i: "np_direction asel everything pol selected addrs np_ingress b1 = Inr b2"
      and e: "np_direction asel everything pol selected addrs np_egress b2 = Inr b'"
      using step f sel by (auto simp: np_policy_def asSelector_def bind_err_Inr)
    have "plain_pods selected" using wf(1) by (simp add: wf_np_params_def selected_def usable_plain)
    moreover have "list_all id_char ''pods_''" by (simp add: id_char_def ident_char_def)
    ultimately obtain ts where b1: "b1 = grown ts b" and grp: "\<And>S. present S ts \<Longrightarrow> group S addrs selected"
      using emitsD [OF podSets_emits env s] by blast
    obtain us cs1 ls1 where inv1: "np_inv ev asel P r0 ((\<lambda>d. done)(np_ingress := done @ [pol])) ((ss @ ts) @ us) cs1 ls1 b2"
      using np_direction_step [where d = np_ingress and ss = "ss @ ts" and addrs = addrs and b = b1 and b' = b2,
          OF grown_inv [OF inv, of ts, folded b1] _ wf any selected_def _ _ i] grp r0(1)
      by (auto simp: present_append np_dirs)
    obtain vs cs2 ls2 where "np_inv ev asel P r0
        (((\<lambda>d. done)(np_ingress := done @ [pol]))(np_egress := done @ [pol])) (((ss @ ts) @ us) @ vs) cs2 ls2 b'"
      using np_direction_step [where d = np_egress and addrs = addrs and b' = b',
          OF inv1 _ wf any selected_def _ _ e] grp r0(2)
      by (auto simp: present_append np_dirs np_dirs(3) [symmetric])
    then have "np_inv ev asel P r0 (\<lambda>d. done @ [pol]) (((ss @ ts) @ us) @ vs) cs2 ls2 b'"
      by (auto simp: np_inv_def decides_def isolates_def split: if_splits)
    then show ?thesis by blast
  qed
qed

lemma np_policies_inv:
  assumes "np_inv ev asel P r0 (\<lambda>d. done) ss cs ls b" and "wf_np_params P" and "\<forall>ls. everything ls"
    and "list_all wf_policy pols"
    and "Ruleset_Chain r0 ChainIngressDispatch \<noteq> None" "Ruleset_Chain r0 ChainEgressDispatch \<noteq> None"
    and "fold_err (\<lambda>pol b. map_err (h pol) (np_policy asel everything pol b)) pols b = Inr b'"
  shows "\<exists>ss' cs' ls'. np_inv ev asel P r0 (\<lambda>d. done @ pols) ss' cs' ls' b'"
  using assms(1,4,7)
proof (induction pols arbitrary: "done" ss cs ls b)
  case (Cons pol pols)
  then obtain b1 where b1: "np_policy asel everything pol b = Inr b1"
    and rest: "fold_err (\<lambda>pol b. map_err (h pol) (np_policy asel everything pol b)) pols b1 = Inr b'"
    by (auto simp: bind_err_Inr)
  then obtain ss' cs' ls' where "np_inv ev asel P r0 (\<lambda>d. done @ [pol]) ss' cs' ls' b1"
    using np_policy_step [OF Cons.prems(1) assms(2) _ assms(3,5,6) b1] Cons.prems(2) by auto
  then show ?case using Cons.IH [OF _ _ rest] Cons.prems(2) by fastforce
qed auto

end

section \<open>The isolated sets\<close>

lemma Render_isolated_sets:
  assumes "Render prm = Inr r0"
  shows "map_option set_Elements (Ruleset_Set r0 SetIsolatedIngressV4) = Some []"
    "map_option set_Elements (Ruleset_Set r0 SetIsolatedIngressV6) = Some []"
    "map_option set_Elements (Ruleset_Set r0 SetIsolatedEgressV4) = Some []"
    "map_option set_Elements (Ruleset_Set r0 SetIsolatedEgressV6) = Some []"
  by (simp_all add: Ruleset_Set_def Render_Inr [OF assms] Render_sets_def prefixSet_def addrSet_def
      set_name_defs split_beta)

lemma isolated_names:
  "dir_isolatedV4 np_ingress = SetIsolatedIngressV4" "dir_isolatedV6 np_ingress = SetIsolatedIngressV6"
  "dir_isolatedV4 np_egress = SetIsolatedEgressV4" "dir_isolatedV6 np_egress = SetIsolatedEgressV6"
  "distinct [SetIsolatedIngressV4, SetIsolatedIngressV6, SetIsolatedEgressV4, SetIsolatedEgressV6]"
  by (simp_all add: np_ingress_def np_egress_def set_name_defs)

lemma add_elements_sel [simp]:
  "set_Name (add_elements es s) = set_Name s" "set_Elements (add_elements es s) = set_Elements s @ es"
  by (simp_all add: add_elements_def)

definition filled :: "(policy_type \<Rightarrow> addr list) \<Rightarrow> dir \<Rightarrow> ruleset \<Rightarrow> ruleset" where
  "filled isol d rs =
     (let addrs = sort (remdups (isol (dir_typ d)))
      in with_set (dir_isolatedV6 d) (add_elements (map Addr_String (filter (\<lambda>a. \<not> Is4 a) addrs)))
           (with_set (dir_isolatedV4 d) (add_elements (map Addr_String (filter Is4 addrs))) rs))"

lemma fill_direction_Inr: "fill_direction isol d rs = Inr rs' \<Longrightarrow> rs' = filled isol d rs"
  by (auto simp: fill_direction_def filled_def Let_def split: option.splits)

lemma filled_chains [simp]: "rs_Chains (filled isol d rs) = rs_Chains rs" "Ruleset_Chain (filled isol d rs) n = Ruleset_Chain rs n"
  by (simp_all add: filled_def Let_def)

lemma filled_Set:
  "Ruleset_Set (filled isol d rs) n =
     (let addrs = sort (remdups (isol (dir_typ d)))
      in map_option (\<lambda>s. if n = dir_isolatedV6 d then add_elements (map Addr_String (filter (\<lambda>a. \<not> Is4 a) addrs)) s else s)
        (map_option (\<lambda>s. if n = dir_isolatedV4 d then add_elements (map Addr_String (filter Is4 addrs)) s else s)
          (Ruleset_Set rs n)))"
  by (auto simp: filled_def Let_def option.map_ident option.map_comp comp_def)

text \<open>Sets appended behind the skeleton's are not touched: the isolated sets are found first.\<close>

lemma with_set_keeps:
  assumes "rs_Sets rs = bs @ ss" "n \<in> set_Name ` set bs" "\<And>s. set_Name (f s) = set_Name s"
  shows "\<exists>bs'. rs_Sets (with_set n f rs) = bs' @ ss \<and> map set_Name bs' = map set_Name bs"
proof -
  have "rs_Sets (with_set n f rs) = update_first (\<lambda>s. set_Name s = n) f bs @ ss"
    using assms(1,2) update_first_append [of bs "\<lambda>s. set_Name s = n" f ss] by (auto simp: with_set_def)
  moreover have "map set_Name (update_first (\<lambda>s. set_Name s = n) f bs) = map set_Name bs"
    by (rule map_update_first) (rule assms(3))
  ultimately show ?thesis by blast
qed

lemma filled_keeps:
  assumes "rs_Sets rs = bs @ ss" "map set_Name bs = names" "{dir_isolatedV4 d, dir_isolatedV6 d} \<subseteq> set names"
  shows "\<exists>bs'. rs_Sets (filled isol d rs) = bs' @ ss \<and> map set_Name bs' = names"
proof -
  let ?es = "map Addr_String (filter Is4 (sort (remdups (isol (dir_typ d)))))"
  have "dir_isolatedV4 d \<in> set_Name ` set bs"
    using assms(3) unfolding assms(2) [symmetric] by simp
  then obtain bs1 where b1: "rs_Sets (with_set (dir_isolatedV4 d) (add_elements ?es) rs) = bs1 @ ss"
    "map set_Name bs1 = names"
    using with_set_keeps [of rs bs ss "dir_isolatedV4 d" "add_elements ?es"] assms(1,2) by auto
  have "dir_isolatedV6 d \<in> set_Name ` set bs1"
    using assms(3) unfolding b1(2) [symmetric] by simp
  then show ?thesis
    using with_set_keeps [OF b1(1), of "dir_isolatedV6 d"] b1(2) by (simp add: filled_def Let_def)
qed

lemma filled_Set_own:
  assumes "map_option set_Elements (Ruleset_Set rs (dir_isolatedV4 d)) = Some []"
    and "map_option set_Elements (Ruleset_Set rs (dir_isolatedV6 d)) = Some []"
    and "dir_isolatedV4 d \<noteq> dir_isolatedV6 d"
  shows "map_option set_Elements (Ruleset_Set (filled isol d rs) (dir_isolatedV4 d)) =
      Some (map Addr_String (filter Is4 (sort (remdups (isol (dir_typ d))))))"
    and "map_option set_Elements (Ruleset_Set (filled isol d rs) (dir_isolatedV6 d)) =
      Some (map Addr_String (filter (\<lambda>a. \<not> Is4 a) (sort (remdups (isol (dir_typ d))))))"
  using assms by (auto simp: filled_Set Let_def)

lemma filled_Set_other:
  "n \<noteq> dir_isolatedV4 d \<Longrightarrow> n \<noteq> dir_isolatedV6 d \<Longrightarrow> Ruleset_Set (filled isol d rs) n = Ruleset_Set rs n"
  by (simp add: filled_Set option.map_ident)

text \<open>The table \<open>netpol.Add\<close> leaves, in terms of the builder after the last policy.\<close>

lemma netpol_Add_Inr:
  assumes "netpol_Add asel everything r0 P = Inr r1"
  obtains b where "fold_err (\<lambda>policy b.
       map_err (\<lambda>e. ''netpol: NetworkPolicy '' @ policy_comment policy @ '': '' @ e)
         (np_policy asel everything policy b)) (sort_key policy_key (np_Policies P)) (new_builder r0 P) = Inr b"
    "r1 = filled (bld_isolated b) np_egress (filled (bld_isolated b) np_ingress (bld_ruleset b))"
  using assms
  by (auto simp: netpol_Add_def bind_err_Inr fillIsolated_def dest!: fill_direction_Inr)

lemma skeleton_inv:
  assumes "Render prm = Inr r0"
  shows "np_inv ev asel P r0 (\<lambda>d. []) [] [] (\<lambda>d. []) (new_builder r0 P)"
  using Render_Chain(3,4) [OF assms]
  by (auto simp: np_inv_def frame_def dispatches_def decides_def isolates_def env_def new_builder_def
      np_dirs dispatchChain_def dispatch_drop_def)

definition unique_names :: "ruleset \<Rightarrow> bool" where
  "unique_names r \<longleftrightarrow> distinct (map set_Name (rs_Sets r)) \<and> distinct (map chain_Name (rs_Chains r))"

definition dir_chain :: "dir \<Rightarrow> string" where
  "dir_chain d = (if dir_typ d = PolicyTypeEgress then ChainEgress else ChainIngress)"

text \<open>Everything the base chains read of the table, once all policies are in.\<close>

definition settled ::
  "(nft_set list \<Rightarrow> packet \<Rightarrow> string \<Rightarrow> bool) \<Rightarrow> 'sel as_selector \<Rightarrow> 'sel np_params \<Rightarrow> ruleset \<Rightarrow> ruleset \<Rightarrow> bool" where
  "settled ev asel P r0 r1 \<longleftrightarrow>
     (\<exists>ss cs ls b. np_inv ev asel P r0 (\<lambda>d. sort_key policy_key (np_Policies P)) ss cs ls b \<and>
        rs_Chains r1 = rs_Chains (bld_ruleset b) \<and> present (rs_Sets r1) ss \<and>
        (\<forall>n s. Ruleset_Set r0 n = Some s \<longrightarrow>
           n \<notin> {SetIsolatedIngressV4, SetIsolatedIngressV6, SetIsolatedEgressV4, SetIsolatedEgressV6} \<longrightarrow>
           Ruleset_Set r1 n = Some s) \<and>
        (\<forall>d \<in> {np_ingress, np_egress}.
           map_option set_Elements (Ruleset_Set r1 (dir_isolatedV4 d)) =
             Some (map Addr_String (filter Is4 (sort (remdups (bld_isolated b (dir_typ d)))))) \<and>
           map_option set_Elements (Ruleset_Set r1 (dir_isolatedV6 d)) =
             Some (map Addr_String (filter (\<lambda>a. \<not> Is4 a) (sort (remdups (bld_isolated b (dir_typ d)))))))) "

lemma isolated_in_skeleton:
  "Render prm = Inr r0 \<Longrightarrow> d \<in> {np_ingress, np_egress} \<Longrightarrow>
     {dir_isolatedV4 d, dir_isolatedV6 d} \<subseteq> set (map set_Name (rs_Sets r0))"
  by (auto simp: Render_Inr set_names_Render isolated_names simp del: set_map)

context nft_matcher
begin

lemma netpol_Add_settled:
  assumes r0: "Render prm = Inr r0" and add: "netpol_Add asel everything r0 P = Inr r1"
    and wf: "wf_np_params P" and any: "\<forall>ls. everything ls" and uniq: "unique_names r1"
  shows "settled ev asel P r0 r1"
proof -
  obtain b where fold: "fold_err (\<lambda>policy b.
       map_err (\<lambda>e. ''netpol: NetworkPolicy '' @ policy_comment policy @ '': '' @ e)
         (np_policy asel everything policy b)) (sort_key policy_key (np_Policies P)) (new_builder r0 P) = Inr b"
    and r1: "r1 = filled (bld_isolated b) np_egress (filled (bld_isolated b) np_ingress (bld_ruleset b))"
    using add by (rule netpol_Add_Inr)
  have "list_all wf_policy (sort_key policy_key (np_Policies P))"
    using wf by (simp add: wf_np_params_def list_all_iff)
  then obtain ss cs ls where inv: "np_inv ev asel P r0 (\<lambda>d. sort_key policy_key (np_Policies P)) ss cs ls b"
    using np_policies_inv [OF skeleton_inv [OF r0] wf any _ _ _ fold] Render_Chain(3,4) [OF r0] by auto
  have sets: "rs_Sets (bld_ruleset b) = rs_Sets r0 @ ss" using inv by (simp add: np_inv_def frame_def)
  obtain bs where bs: "rs_Sets r1 = bs @ ss"
    using filled_keeps [OF sets refl isolated_in_skeleton [OF r0], of np_ingress "bld_isolated b"]
      filled_keeps [OF _ _ isolated_in_skeleton [OF r0], of _ _ ss np_egress "bld_isolated b"]
    unfolding r1 by auto
  then have "present (rs_Sets r1) ss" using uniq by (auto simp: present_def unique_names_def)
  moreover have "Ruleset_Set (bld_ruleset b) n = Ruleset_Set r0 n" if "Ruleset_Set r0 n \<noteq> None" for n
    using that by (auto simp: Ruleset_Set_def sets find_append)
  note kept = this
  have "Ruleset_Set r1 n = Some s" if "Ruleset_Set r0 n = Some s"
      "n \<notin> {SetIsolatedIngressV4, SetIsolatedIngressV6, SetIsolatedEgressV4, SetIsolatedEgressV6}" for n s
    using kept [of n] that isolated_names by (simp add: r1 filled_Set_other)
  moreover from kept have old: "map_option set_Elements (Ruleset_Set (bld_ruleset b) n) = Some []"
    if "map_option set_Elements (Ruleset_Set r0 n) = Some []" for n
    using that by auto
  note old = Render_isolated_sets [OF r0, THEN old]
  have "map_option set_Elements (Ruleset_Set r1 (dir_isolatedV4 d)) =
         Some (map Addr_String (filter Is4 (sort (remdups (bld_isolated b (dir_typ d)))))) \<and>
       map_option set_Elements (Ruleset_Set r1 (dir_isolatedV6 d)) =
         Some (map Addr_String (filter (\<lambda>a. \<not> Is4 a) (sort (remdups (bld_isolated b (dir_typ d))))))"
    if "d \<in> {np_ingress, np_egress}" for d
    using that isolated_names old
      filled_Set_own [of "bld_ruleset b" np_ingress "bld_isolated b"]
      filled_Set_own [of "filled (bld_isolated b) np_ingress (bld_ruleset b)" np_egress "bld_isolated b"]
    by (auto simp: r1 filled_Set_other)
  ultimately show ?thesis
    unfolding settled_def using inv by (intro exI [of _ ss] exI [of _ cs] exI [of _ ls] exI [of _ b]) (auto simp: r1)
qed

end

end
