(* ===== verification/Netpol_Errors.thy ===== *)
theory Netpol_Errors
  imports Netpol_Calculus
begin

text \<open>
  When \<open>netpol.Add\<close> fails: exactly where one of the policies is one it must refuse, said over
  the API objects alone. A step of the builder \<open>succeeds\<close> under a condition that does not
  depend on the sets declared so far; the steps compose as the code composes them.
\<close>

section \<open>What is refused\<close>

definition valid_np_port :: "np_port \<Rightarrow> bool" where
  "valid_np_port port \<longleftrightarrow>
     port_Name port \<noteq> [] \<or> port_Number port = 0 \<or> port_EndPort port = 0 \<or> port_Number port \<le> port_EndPort port"

definition readable :: "'sel as_selector \<Rightarrow> 'sel option \<Rightarrow> bool" where
  "readable asel s \<longleftrightarrow> (case s of None \<Rightarrow> True | Some x \<Rightarrow> \<not> isl (asel x))"

definition valid_np_peer :: "'sel as_selector \<Rightarrow> 'sel peer \<Rightarrow> bool" where
  "valid_np_peer asel q \<longleftrightarrow>
     peer_IPBlock q \<noteq> None \<or> readable asel (peer_PodSelector q) \<and> readable asel (peer_NamespaceSelector q)"

definition valid_np_rule :: "'sel as_selector \<Rightarrow> 'sel np_rule \<Rightarrow> bool" where
  "valid_np_rule asel r \<longleftrightarrow> list_all (valid_np_peer asel) (rule_Peers r) \<and> list_all valid_np_port (rule_Ports r)"

definition valid_np_dir :: "'sel as_selector \<Rightarrow> 'sel network_policy \<Rightarrow> dir \<Rightarrow> bool" where
  "valid_np_dir asel pol d \<longleftrightarrow>
     (governs pol (dir_typ d) \<longrightarrow> list_all (valid_np_rule asel) (pol_rules pol (dir_typ d)))"

text \<open>The policy selects a pod of this node that is up and has an address.\<close>

definition selects_any :: "'sel as_selector \<Rightarrow> 'sel np_params \<Rightarrow> 'sel network_policy \<Rightarrow> bool" where
  "selects_any asel P pol \<longleftrightarrow>
     list_ex (\<lambda>pod. policy_selects asel P pol pod \<and> pod_up pod \<and> own_addrs pod \<noteq> []) (np_Pods P)"

definition np_refused :: "'sel as_selector \<Rightarrow> 'sel np_params \<Rightarrow> 'sel network_policy \<Rightarrow> bool" where
  "np_refused asel P pol \<longleftrightarrow>
     isl (asel (pol_PodSelector pol)) \<or>
     selects_any asel P pol \<and>
       \<not> (identifierPart (pol_Namespace pol) \<and> identifierPart (pol_Name pol) \<and>
          valid_np_dir asel pol np_ingress \<and> valid_np_dir asel pol np_egress)"

section \<open>Steps that succeed\<close>

text \<open>A builder over a table that has what \<open>netpol.Add\<close> looks up in it.\<close>

definition ready :: "'sel np_params \<Rightarrow> builder \<Rightarrow> bool" where
  "ready P b \<longleftrightarrow> env P b \<and>
     (\<forall>d \<in> {np_ingress, np_egress}. Ruleset_Chain (bld_ruleset b) (dir_dispatch d) \<noteq> None \<and>
        {dir_isolatedV4 d, dir_isolatedV6 d} \<subseteq> set_Name ` set (rs_Sets (bld_ruleset b)))"

definition succeeds :: "'sel np_params \<Rightarrow> 'a build \<Rightarrow> bool \<Rightarrow> bool" where
  "succeeds P m Q \<longleftrightarrow>
     (\<forall>b. ready P b \<longrightarrow> (case m b of Inl _ \<Rightarrow> \<not> Q | Inr (x, b') \<Rightarrow> Q \<and> ready P b'))"

lemma ready_grown: "ready P b \<Longrightarrow> ready P (grown ss b)"
  by (auto simp: ready_def Ruleset_Chain_def)

lemma succeeds_return: "succeeds P (st_return x) True"
  by (simp add: succeeds_def st_return_def)

lemma succeeds_lift: "succeeds P (st_lift m) (\<not> isl m)"
  by (cases m) (simp_all add: succeeds_def st_lift_def)

lemma succeeds_bind:
  assumes "succeeds P m Q" and "\<And>x. succeeds P (f x) R"
  shows "succeeds P (st_bind m f) (Q \<and> R)"
  unfolding succeeds_def
proof (intro allI impI)
  fix b assume b: "ready P b"
  show "case st_bind m f b of Inl _ \<Rightarrow> \<not> (Q \<and> R) | Inr (x, b') \<Rightarrow> (Q \<and> R) \<and> ready P b'"
  proof (cases "m b")
    case (Inl e)
    then show ?thesis using assms(1) [unfolded succeeds_def, rule_format, OF b] by (simp add: st_bind_def)
  next
    case (Inr r)
    obtain x b1 where r: "r = (x, b1)" by (cases r)
    then have "Q" "ready P b1" using assms(1) b Inr by (auto simp: succeeds_def)
    then show ?thesis
      using assms(2) [of x, unfolded succeeds_def, rule_format, OF \<open>ready P b1\<close>]
      by (cases "f x b1") (simp_all add: st_bind_def Inr r split_beta)
  qed
qed

lemma succeeds_each:
  assumes "\<And>x. x \<in> set xs \<Longrightarrow> succeeds P (f x) (Q x)"
  shows "succeeds P (st_each f xs) (\<forall>x \<in> set xs. Q x)"
  using assms
proof (induction xs)
  case Nil
  then show ?case by (simp add: succeeds_return)
next
  case (Cons x xs)
  have "succeeds P (st_each f (x # xs)) (Q x \<and> (\<forall>x \<in> set xs. Q x) \<and> True)"
    unfolding st_each.simps
    by (intro succeeds_bind succeeds_return Cons.IH) (simp_all add: Cons.prems)
  then show ?case by simp
qed

lemma succeeds_each_enumerate:
  assumes "\<And>k x. succeeds P (f (k, x)) (Q x)"
  shows "succeeds P (st_each f (enumerate n xs)) (list_all Q xs)"
proof -
  have "succeeds P (st_each f (enumerate n xs)) (\<forall>z \<in> set (enumerate n xs). Q (snd z))"
    using assms by (intro succeeds_each) (metis prod.collapse)
  moreover have "(\<forall>z \<in> set (enumerate n xs). Q (snd z)) = list_all Q xs"
    using list_ex_enumerate [of "\<lambda>x. \<not> Q x" n xs] by (auto simp: list_ex_iff list_all_iff)
  ultimately show ?thesis by simp
qed

lemma succeeds_cong: "succeeds P m Q \<Longrightarrow> Q = R \<Longrightarrow> succeeds P m R"
  by simp

text \<open>Names are no obstacle once the namespace and the name of the policy are readable.\<close>

definition good_names :: "'sel network_policy \<Rightarrow> bool" where
  "good_names pol \<longleftrightarrow> identifierPart (pol_Namespace pol) \<and> identifierPart (pol_Name pol)"

lemma isl_Identifier: "parts \<noteq> [] \<Longrightarrow> isl (Identifier pre parts) \<longleftrightarrow> \<not> list_all identifierPart parts"
  by (auto simp: Identifier_def Let_def find_None_iff list_all_iff find_Some_iff split: option.splits)

lemma itoa_part: "identifierPart (itoa n)"
  using itoa_digits [of n] by (auto simp: identifierPart_def ident_char_def list_all_iff)

lemma addSet_succeeds:
  "succeeds P (addSet pre parts addrs typ fam) (addrs = [] \<or> list_all identifierPart (parts @ [fam]))"
proof -
  have "case addSet pre parts addrs typ fam b of
      Inl _ \<Rightarrow> \<not> (addrs = [] \<or> list_all identifierPart (parts @ [fam]))
    | Inr (x, b') \<Rightarrow> (addrs = [] \<or> list_all identifierPart (parts @ [fam])) \<and> ready P b'" if "ready P b" for b
    using that isl_Identifier [of "parts @ [fam]" pre] ready_grown [OF that]
    by (cases "Identifier pre (parts @ [fam])")
       (auto simp: addSet_def grown_def add_set_def)
  then show ?thesis unfolding succeeds_def by blast
qed

lemma fam_part: "identifierPart ''v4''" "identifierPart ''v6''"
  by (simp_all add: identifierPart_def ident_char_def)

lemma podSets_succeeds:
  "succeeds P (podSets pre parts pods)
     (concat (map pod_IPs pods) = [] \<or> list_all identifierPart parts)"
proof (rule succeeds_cong)
  show "succeeds P (podSets pre parts pods)
     ((pod_strings Is4 pods = [] \<or> list_all identifierPart (parts @ [''v4''])) \<and>
      (pod_strings (\<lambda>a. \<not> Is4 a) pods = [] \<or> list_all identifierPart (parts @ [''v6''])) \<and> True)"
    unfolding podSets_def by (intro succeeds_bind addSet_succeeds succeeds_return)
qed (auto simp: pod_strings_def filter_empty_conv fam_part; metis)

lemma podSets_named:
  "list_all identifierPart parts \<Longrightarrow> succeeds P (podSets pre parts pods) True"
  using podSets_succeeds [of P pre parts pods] by simp

section \<open>Peers, ports and rules\<close>

lemma succeeds_dep: "(\<And>b. succeeds P (m b) Q) \<Longrightarrow> succeeds P (\<lambda>b. m b b) Q"
  by (simp add: succeeds_def)

lemma isl_peerPods:
  "isl (peerPods asel ev b ns q) \<longleftrightarrow> \<not> (readable asel (peer_PodSelector q) \<and> readable asel (peer_NamespaceSelector q))"
  by (auto simp: peerPods_def readable_def asSelector_def isl_bind_err split: option.splits)

text \<open>The part of a name that says where in the policy a set comes from.\<close>

definition place_text :: "dir \<Rightarrow> nat list \<Rightarrow> string" where
  "place_text d ns = dir_tag d @ join ''.'' (map itoa ns)"

lemma place_text_eval:
  "dir_tag d @ itoa i @ ''.'' @ itoa j = place_text d [i, j]"
  "dir_tag d @ itoa i @ ''.'' @ itoa j @ ''.'' @ itoa k = place_text d [i, j, k]"
  by (simp_all add: place_text_def)

lemma dir_tags: "d \<in> {np_ingress, np_egress} \<Longrightarrow> dir_tag d \<in> {''in'', ''eg''}"
  by (auto simp: np_ingress_def np_egress_def)

lemma dots_part:
  assumes "t \<in> {''in'', ''eg''}" shows "identifierPart (t @ join ''.'' (map itoa ns))"
proof -
  have "list_all ident_char ''.0123456789''" by (simp add: ident_char_def)
  moreover have "set (join ''.'' (map itoa ns)) \<subseteq> set ''.0123456789''"
    using set_join_subset [of "''.''" "map itoa ns"] itoa_digits by fastforce
  ultimately have "list_all ident_char (join ''.'' (map itoa ns))" by (simp only: list_all_iff) blast
  moreover have "list_all ident_char t" "t \<noteq> []" using assms by (auto simp: ident_char_def)
  ultimately show ?thesis by (simp add: identifierPart_def)
qed

lemma place_part: "d \<in> {np_ingress, np_egress} \<Longrightarrow> identifierPart (place_text d ns)"
  unfolding place_text_def by (rule dots_part) (rule dir_tags)

lemma np_peer_succeeds:
  assumes "good_names pol" "d \<in> {np_ingress, np_egress}"
  shows "succeeds P (np_peer asel everything pol d i j q) (valid_np_peer asel q)"
proof (cases "peer_IPBlock q")
  case None
  have named: "list_all identifierPart [pol_Namespace pol, pol_Name pol, place_text d [i, j]]"
    using assms place_part by (simp add: good_names_def)
  show ?thesis
  proof (cases "peer_PodSelector q = None \<and> peer_NamespaceSelector q = None")
    case True
    then show ?thesis
      using None by (simp add: succeeds_def np_peer_def valid_np_peer_def readable_def)
  next
    case False
    have "succeeds P (\<lambda>b. st_bind (st_lift (peerPods asel everything b (pol_Namespace pol) q)) (\<lambda>pods.
         st_bind (podSets ''peer_'' [pol_Namespace pol, pol_Name pol, place_text d [i, j]] pods) (\<lambda>addrs.
           st_return (pa_matches addrs (\<lambda>fam set. fam @ '' '' @ dir_peerAddr d @ '' @'' @ set), pods))) b)
       (valid_np_peer asel q \<and> True \<and> True)"
      using None
      by (intro succeeds_dep [where m = "\<lambda>b. st_bind (st_lift (peerPods asel everything b (pol_Namespace pol) q)) _"]
          succeeds_bind [OF succeeds_cong [OF succeeds_lift] succeeds_bind [OF podSets_named [OF named] succeeds_return]])
        (simp add: isl_peerPods valid_np_peer_def)
    moreover have "np_peer asel everything pol d i j q =
       (\<lambda>b. st_bind (st_lift (peerPods asel everything b (pol_Namespace pol) q)) (\<lambda>pods.
         st_bind (podSets ''peer_'' [pol_Namespace pol, pol_Name pol, place_text d [i, j]] pods) (\<lambda>addrs.
           st_return (pa_matches addrs (\<lambda>fam set. fam @ '' '' @ dir_peerAddr d @ '' @'' @ set), pods))) b)"
      using None False by (intro ext) (auto simp: np_peer_def place_text_def)
    ultimately show ?thesis by simp
  qed
next
  case (Some blk)
  then show ?thesis by (simp add: succeeds_def np_peer_def valid_np_peer_def)
qed

lemma namedPort_succeeds:
  assumes "good_names pol" "d \<in> {np_ingress, np_egress}"
  shows "succeeds P (namedPort pol d i j k port proto receivers) True"
proof -
  have "list_all identifierPart [pol_Namespace pol, pol_Name pol, place_text d [i, j, k], itoa n]" for n
    using assms place_part itoa_part by (simp add: good_names_def)
  note each = succeeds_bind [OF podSets_named [OF this] succeeds_return]
  show ?thesis
    unfolding namedPort_def Let_def place_text_eval
    by (rule succeeds_cong [OF succeeds_bind [OF succeeds_each [OF each] succeeds_return]]) simp
qed

lemma np_port_match_succeeds:
  assumes "good_names pol" "d \<in> {np_ingress, np_egress}"
  shows "succeeds P (np_port_match pol d i j receivers (k, port)) (valid_np_port port)"
  using namedPort_succeeds [OF assms, of P i j k port _ receivers] succeeds_return [of P]
    succeeds_lift [of P "Inl _"]
  by (auto simp: np_port_match_def valid_np_port_def Let_def not_less less_le)

lemma np_ports_succeeds:
  assumes "good_names pol" "d \<in> {np_ingress, np_egress}"
  shows "succeeds P (np_ports pol d i j ports receivers) (list_all valid_np_port ports)"
proof (cases "ports = []")
  case False
  have "succeeds P (np_ports pol d i j ports receivers) (list_all valid_np_port ports \<and> True)"
    using False
    by (simp only: np_ports_def if_False)
       (intro succeeds_bind succeeds_each_enumerate np_port_match_succeeds [OF assms] succeeds_return)
  then show ?thesis by simp
qed (simp add: np_ports_def succeeds_return)

lemma np_entry_succeeds:
  assumes "good_names pol" "d \<in> {np_ingress, np_egress}"
  shows "succeeds P (np_entry asel everything pol d selected i ports (j, q))
    (valid_np_peer asel q \<and> list_all valid_np_port ports)"
proof -
  have "succeeds P (np_entry asel everything pol d selected i ports (j, q))
      (valid_np_peer asel q \<and> list_all valid_np_port ports \<and> True)"
    unfolding np_entry_def prod.case Let_def
    by (rule succeeds_bind [OF np_peer_succeeds [OF assms]])
       (auto simp only: split_beta intro!: succeeds_bind [OF np_ports_succeeds [OF assms] succeeds_return])
  then show ?thesis by simp
qed

lemma directionRules_succeeds:
  assumes "good_names pol" "d \<in> {np_ingress, np_egress}"
  shows "succeeds P (directionRules asel everything pol d selected)
    (list_all (valid_np_rule asel) (pol_rules pol (dir_typ d)))"
proof -
  have "valid_np_peer asel any_peer" by (simp add: valid_np_peer_def any_peer_def readable_def)
  then have valid: "list_all (\<lambda>q. valid_np_peer asel q \<and> list_all valid_np_port (rule_Ports r))
      (if rule_Peers r = [] then [any_peer] else rule_Peers r) = valid_np_rule asel r" for r
    by (cases "rule_Peers r") (auto simp: valid_np_rule_def list_all_iff)
  have "succeeds P (st_each (np_entry asel everything pol d selected i (rule_Ports r))
      (enumerate 0 (if rule_Peers r = [] then [any_peer] else rule_Peers r))) (valid_np_rule asel r)" for i r
    unfolding valid [symmetric] by (rule succeeds_each_enumerate) (rule np_entry_succeeds [OF assms])
  then have "succeeds P (directionRules asel everything pol d selected)
      (list_all (valid_np_rule asel) (pol_rules pol (dir_typ d)) \<and> True)"
    unfolding directionRules_def
    by (intro succeeds_bind succeeds_each_enumerate succeeds_return) (simp only: prod.case)
  then show ?thesis by simp
qed

section \<open>Policies\<close>

definition goes :: "'sel np_params \<Rightarrow> (builder \<Rightarrow> go_error + builder) \<Rightarrow> bool \<Rightarrow> bool" where
  "goes P f Q \<longleftrightarrow> (\<forall>b. ready P b \<longrightarrow> (case f b of Inl _ \<Rightarrow> \<not> Q | Inr b' \<Rightarrow> Q \<and> ready P b'))"

lemma goesD:
  assumes "goes P f Q" "ready P b"
  obtains e where "f b = Inl e" "\<not> Q" | b' where "f b = Inr b'" "Q" "ready P b'"
  using assms by (cases "f b") (auto simp: goes_def dest: spec [of _ b])

lemma succeedsD:
  assumes "succeeds P m Q" "ready P b"
  obtains e where "m b = Inl e" "\<not> Q" | x b' where "m b = Inr (x, b')" "Q" "ready P b'"
  using assms by (cases "m b") (auto simp: succeeds_def dest: spec [of _ b])

lemma linked_ready:
  assumes "ready P b" shows "ready P (isolate t pods (linked d c js b))"
  using assms by (auto simp: ready_def isolate_def linked_def env_def)

lemma np_direction_goes:
  assumes "good_names pol" "d \<in> {np_ingress, np_egress}"
  shows "goes P (np_direction asel everything pol selected addrs d) (valid_np_dir asel pol d)"
  unfolding goes_def
proof (intro allI impI)
  fix b assume b: "ready P b"
  obtain n where n: "Identifier (dir_chainPrefix d) [pol_Namespace pol, pol_Name pol] = Inr n"
    using isl_Identifier [of "[pol_Namespace pol, pol_Name pol]" "dir_chainPrefix d"] assms(1)
    by (cases "Identifier (dir_chainPrefix d) [pol_Namespace pol, pol_Name pol]") (simp_all add: good_names_def)
  show "case np_direction asel everything pol selected addrs d b of
      Inl _ \<Rightarrow> \<not> valid_np_dir asel pol d | Inr b' \<Rightarrow> valid_np_dir asel pol d \<and> ready P b'"
  proof (cases "governs pol (dir_typ d)")
    case True
    show ?thesis
      using directionRules_succeeds [OF assms, of P asel everything selected] b
    proof (cases rule: succeedsD)
      case (1 e)
      then show ?thesis using True n by (simp add: np_direction_def valid_np_dir_def)
    next
      case (2 rules b1)
      then have "Ruleset_Chain (bld_ruleset b1) (dir_dispatch d) \<noteq> None"
        using assms(2) unfolding ready_def by blast
      then show ?thesis
        using True n 2 linked_ready [OF 2(3), unfolded linked_def]
        by (auto simp: np_direction_def valid_np_dir_def Let_def split: option.splits)
    qed
  qed (simp add: np_direction_def valid_np_dir_def b)
qed

lemma selected_empty:
  "filter (policy_selects asel P pol) (usablePods (np_Pods P)) = [] \<longleftrightarrow> \<not> selects_any asel P pol"
  by (auto simp: filter_empty_conv usablePods_set selects_any_def list_ex_iff)

lemma usable_addrs: "q \<in> set (usablePods ps) \<Longrightarrow> pod_IPs q \<noteq> []"
  by (auto simp: usablePods_set)

lemma goes_two:
  assumes "goes P f Q" "goes P g R" "ready P b"
  shows "case bind_err (f b) g of Inl _ \<Rightarrow> \<not> (Q \<and> R) | Inr b' \<Rightarrow> Q \<and> R \<and> ready P b'"
  using assms(1,3)
proof (cases rule: goesD)
  case (2 b1)
  from assms(2) 2(3) show ?thesis by (cases rule: goesD) (simp_all add: 2)
qed simp

lemma np_policy_goes: "goes P (np_policy asel everything pol) (\<not> np_refused asel P pol)"
  unfolding goes_def
proof (intro allI impI)
  fix b assume b: "ready P b"
  show "case np_policy asel everything pol b of
      Inl _ \<Rightarrow> \<not> \<not> np_refused asel P pol | Inr b' \<Rightarrow> \<not> np_refused asel P pol \<and> ready P b'"
  proof (cases "asel (pol_PodSelector pol)")
    case (Inl e)
    then show ?thesis by (simp add: np_policy_def asSelector_def np_refused_def)
  next
    case (Inr f)
    define selected where "selected = filter (policy_selects asel P pol) (usablePods (np_Pods P))"
    have sel: "np_selected b (pol_Namespace pol) f = selected"
      unfolding selected_def using b Inr by (intro np_selected_eq) (simp_all add: ready_def)
    show ?thesis
    proof (cases "selected = []")
      case True
      then have "\<not> selects_any asel P pol" using selected_empty [of asel P pol] by (simp add: selected_def)
      then show ?thesis using True Inr sel b by (simp add: np_policy_def asSelector_def np_refused_def)
    next
      case False
      then have any: "selects_any asel P pol" using selected_empty [of asel P pol] by (simp add: selected_def)
      have "concat (map pod_IPs selected) \<noteq> []"
        using False usable_addrs by (auto simp: selected_def filter_empty_conv)
      then have pods: "succeeds P (podSets ''pods_'' [pol_Namespace pol, pol_Name pol] selected) (good_names pol)"
        by (intro succeeds_cong [OF podSets_succeeds]) (simp add: good_names_def del: concat_eq_Nil_conv)
      have np: "np_policy asel everything pol b =
          bind_err (podSets ''pods_'' [pol_Namespace pol, pol_Name pol] selected b) (\<lambda>(addrs, b).
            fold_err (np_direction asel everything pol selected addrs) [np_ingress, np_egress] b)"
        using False Inr sel by (simp add: np_policy_def asSelector_def del: fold_err.simps)
      from pods b show ?thesis
      proof (cases rule: succeedsD)
        case (1 e)
        then show ?thesis using any by (simp add: np np_refused_def good_names_def)
      next
        case (2 addrs b1)
        have "(\<not> np_refused asel P pol) = (valid_np_dir asel pol np_ingress \<and> valid_np_dir asel pol np_egress)"
          using any Inr 2(2) by (auto simp: np_refused_def good_names_def)
        then show ?thesis
          using goes_two [OF np_direction_goes [where d = np_ingress] np_direction_goes [where d = np_egress] 2(3),
              where pol2 = pol and pol1 = pol and asel2 = asel and asel1 = asel and selected2 = selected and
                selected1 = selected and addrs2 = addrs and addrs1 = addrs and
                everything2 = everything and everything1 = everything] 2(2)
          by (simp add: np 2(1) fold_err_two split: sum.splits del: fold_err.simps)
      qed
    qed
  qed
qed

text \<open>Any invariant of a table the skeleton gives: it has the chains and sets looked up.\<close>

definition has_hooks :: "ruleset \<Rightarrow> bool" where
  "has_hooks r \<longleftrightarrow>
     (\<forall>d \<in> {np_ingress, np_egress}. Ruleset_Chain r (dir_dispatch d) \<noteq> None \<and>
        {dir_isolatedV4 d, dir_isolatedV6 d} \<subseteq> set_Name ` set (rs_Sets r))"

lemma ready_new: "has_hooks r \<Longrightarrow> ready P (new_builder r P)"
  by (simp add: ready_def has_hooks_def env_def new_builder_def)

lemma ready_Set: "ready P b \<Longrightarrow> d \<in> {np_ingress, np_egress} \<Longrightarrow>
   Ruleset_Set (bld_ruleset b) (dir_isolatedV4 d) \<noteq> None \<and> Ruleset_Set (bld_ruleset b) (dir_isolatedV6 d) \<noteq> None"
  unfolding ready_def Ruleset_Set_def find_None_key by blast

text \<open>The error of one policy names it.\<close>

definition np_blames :: "go_error \<Rightarrow> 'sel network_policy \<Rightarrow> bool" where
  "np_blames e pol \<longleftrightarrow> HasPrefix e (''netpol: NetworkPolicy '' @ policy_comment pol @ '': '')"

lemma np_policies_fold:
  assumes "ready P b"
  shows "case fold_err (\<lambda>policy b.
       map_err (\<lambda>e. ''netpol: NetworkPolicy '' @ policy_comment policy @ '': '' @ e)
         (np_policy asel everything policy b)) ps b of
      Inl e \<Rightarrow> \<exists>pol \<in> set ps. np_blames e pol \<and> np_refused asel P pol
    | Inr b' \<Rightarrow> (\<forall>pol \<in> set ps. \<not> np_refused asel P pol) \<and> ready P b'"
  using assms
proof (induction ps arbitrary: b)
  case (Cons pol ps)
  from np_policy_goes [of P asel everything pol] Cons.prems show ?case
  proof (cases rule: goesD)
    case (1 e)
    then show ?thesis by (auto simp: np_blames_def HasPrefix_iff)
  next
    case (2 b1)
    then show ?thesis using Cons.IH [OF 2(3)] by (auto split: sum.splits)
  qed
qed simp

lemma fill_direction_some:
  "Ruleset_Set r (dir_isolatedV4 d) \<noteq> None \<Longrightarrow> Ruleset_Set r (dir_isolatedV6 d) \<noteq> None \<Longrightarrow>
     fill_direction isol d r = Inr (filled isol d r)"
  by (auto simp: fill_direction_def filled_def Let_def)

lemma fillIsolated_ready:
  assumes "ready P b"
  shows "fillIsolated b = Inr (filled (bld_isolated b) np_egress (filled (bld_isolated b) np_ingress (bld_ruleset b)))"
  using ready_Set [OF assms, of np_ingress] ready_Set [OF assms, of np_egress]
  by (simp add: fillIsolated_def fold_err_two fill_direction_some filled_Set Let_def)

lemma Render_has_hooks: "Render prm = Inr r \<Longrightarrow> has_hooks r"
  using Render_Chain(3,4) [of prm r] isolated_in_skeleton [of prm r] by (simp add: has_hooks_def np_dirs)

lemma netpol_Add_outcome:
  assumes "has_hooks r"
  shows "case netpol_Add asel everything r P of
      Inl e \<Rightarrow> \<exists>pol \<in> set (np_Policies P). np_blames e pol \<and> np_refused asel P pol
    | Inr r1 \<Rightarrow> \<forall>pol \<in> set (np_Policies P). \<not> np_refused asel P pol"
proof -
  define step where "step = (\<lambda>policy b.
       map_err (\<lambda>e. ''netpol: NetworkPolicy '' @ policy_comment policy @ '': '' @ e)
         (np_policy asel everything policy b))"
  let ?ps = "sort_key policy_key (np_Policies P)"
  have fold: "case fold_err step ?ps (new_builder r P) of
      Inl e \<Rightarrow> \<exists>pol \<in> set ?ps. np_blames e pol \<and> np_refused asel P pol
    | Inr b' \<Rightarrow> (\<forall>pol \<in> set ?ps. \<not> np_refused asel P pol) \<and> ready P b'"
    unfolding step_def by (rule np_policies_fold) (rule ready_new [OF assms])
  have add: "netpol_Add asel everything r P = bind_err (fold_err step ?ps (new_builder r P)) fillIsolated"
    by (simp only: netpol_Add_def step_def)
  show ?thesis
  proof (cases "fold_err step ?ps (new_builder r P)")
    case (Inl e)
    then show ?thesis using fold by (simp add: add)
  next
    case (Inr b)
    then show ?thesis using fold fillIsolated_ready [of P b] by (simp add: add)
  qed
qed

end
