(* ===== verification/Netpol_Names.thy ===== *)
theory Netpol_Names
  imports Netpol_Errors
begin

text \<open>
  The names \<open>netpol.Add\<close> gives: no two sets and no two chains of the table share one, nor one of
  the skeleton's, as long as no name is so long that \<open>Identifier\<close> folds it. A set is told
  apart by the policy it belongs to, the place in the policy it was declared for and the
  address family; \<open>names\<close> says which places a step of the builder declares sets for.
\<close>

section \<open>What a set is for\<close>

datatype place = OfPods | OfPeer string nat nat | OfPort string nat nat nat nat

fun place_pre :: "place \<Rightarrow> string" where
  "place_pre OfPods = ''pods_''"
| "place_pre (OfPeer t i j) = ''peer_''"
| "place_pre (OfPort t i j k n) = ''port_''"

fun place_parts :: "place \<Rightarrow> string list" where
  "place_parts OfPods = []"
| "place_parts (OfPeer t i j) = [t @ join ''.'' [itoa i, itoa j]]"
| "place_parts (OfPort t i j k n) = [t @ join ''.'' [itoa i, itoa j, itoa k], itoa n]"

text \<open>A tag of two letters, and counters of at most nine digits.\<close>

fun place_ok :: "place \<Rightarrow> bool" where
  "place_ok OfPods = True"
| "place_ok (OfPeer t i j) \<longleftrightarrow> t \<in> {''in'', ''eg''} \<and> i < 10 ^ 9 \<and> j < 10 ^ 9"
| "place_ok (OfPort t i j k n) \<longleftrightarrow> t \<in> {''in'', ''eg''} \<and> i < 10 ^ 9 \<and> j < 10 ^ 9 \<and> k < 10 ^ 9 \<and> n < 10 ^ 5"

type_synonym set_key = "(string \<times> string) \<times> place \<times> string"

fun key_parts :: "set_key \<Rightarrow> string list" where
  "key_parts (q, pl, f) = [fst q, snd q] @ place_parts pl @ [f]"

fun key_text :: "set_key \<Rightarrow> string" where
  "key_text (q, pl, f) = place_pre pl @ join ''/'' (key_parts (q, pl, f))"

fun key_ok :: "set_key \<Rightarrow> bool" where
  "key_ok (q, pl, f) \<longleftrightarrow>
     identifierPart (fst q) \<and> identifierPart (snd q) \<and> length (fst q) + length (snd q) \<le> 208 \<and>
     place_ok pl \<and> f \<in> {''v4'', ''v6''}"

lemma radix_length: "2 \<le> b \<Longrightarrow> n < b ^ k \<Longrightarrow> 0 < k \<Longrightarrow> length (radix b n) \<le> k"
proof (induction k arbitrary: n)
  case (Suc k)
  show ?case
  proof (cases "n < b")
    case True
    then show ?thesis by (subst radix.simps) simp
  next
    case False
    then have "0 < k" using Suc.prems by (cases k) auto
    moreover have "n div b < b ^ k"
      using Suc.prems by (intro less_mult_imp_div_less) (simp add: mult.commute)
    ultimately show ?thesis
      using Suc.IH [of "n div b"] Suc.prems False by (subst radix.simps) simp
  qed
qed simp

lemma itoa_length: "n < 10 ^ k \<Longrightarrow> 0 < k \<Longrightarrow> length (itoa n) \<le> k"
  unfolding itoa_def by (rule radix_length) simp_all

lemma key_parts_ok: "key_ok k \<Longrightarrow> list_all identifierPart (key_parts k)"
proof -
  assume k: "key_ok k"
  obtain q pl f where [simp]: "k = (q, pl, f)" by (cases k)
  show ?thesis
    using k dots_part [of _ "[_, _]"] dots_part [of _ "[_, _, _]"]
    by (cases pl) (auto simp: fam_part itoa_part)
qed

lemma key_text_short: "key_ok k \<Longrightarrow> length (key_text k) \<le> 255"
proof -
  assume k: "key_ok k"
  obtain q pl f where [simp]: "k = (q, pl, f)" by (cases k)
  show ?thesis
  proof (cases pl)
    case OfPods
    then show ?thesis using k by auto
  next
    case (OfPeer t i j)
    then show ?thesis using k itoa_length [of i 9] itoa_length [of j 9] by auto
  next
    case (OfPort t i j l n)
    then show ?thesis
      using k itoa_length [of i 9] itoa_length [of j 9] itoa_length [of l 9] itoa_length [of n 5] by auto
  qed
qed

lemma dots_inj:
  "ms \<noteq> [] \<Longrightarrow> ns \<noteq> [] \<Longrightarrow> join ''.'' (map itoa ms) = join ''.'' (map itoa ns) \<longleftrightarrow> ms = ns"
  by (subst join_inj) (auto simp: itoa_no inj_map_eq_map inj_def)

lemma place_inj:
  assumes "place_ok x" "place_ok y" "place_pre x = place_pre y" "place_parts x = place_parts y"
  shows "x = y"
  using assms dots_inj [of "[_, _]" "[_, _]"] dots_inj [of "[_, _, _]" "[_, _, _]"]
  by (cases x; cases y) auto

lemma key_text_inj:
  assumes "key_ok k" "key_ok l" "key_text k = key_text l"
  shows "k = l"
proof -
  obtain q x f r y g where [simp]: "k = (q, x, f)" "l = (r, y, g)" by (cases k; cases l)
  have "length (place_pre z) = 5" for z by (cases z) simp_all
  then have pre: "place_pre x = place_pre y" and "join ''/'' (key_parts k) = join ''/'' (key_parts l)"
    using assms(3) by (simp_all del: key_parts.simps)
  then have "key_parts k = key_parts l"
    using join_parts_inj [OF key_parts_ok [OF assms(1)] key_parts_ok [OF assms(2)]] by simp
  then have "fst q = fst r" "snd q = snd r" "place_parts x @ [f] = place_parts y @ [g]" by simp_all
  moreover have "place_parts x = place_parts y" using calculation(3) by (simp only: append1_eq_conv)
  ultimately show ?thesis
    using place_inj [of x y] pre assms(1,2) by (auto intro: prod_eqI)
qed

lemma key_text_slash: "CHR ''/'' \<in> set (key_text k)"
  by (cases k) simp

section \<open>What a step names\<close>

text \<open>The sets a step adds, by place and family, for the policy \<open>q\<close>.\<close>

definition names :: "(string \<times> string) \<Rightarrow> 'a build \<Rightarrow> (place \<times> string) set \<Rightarrow> bool" where
  "names q m K \<longleftrightarrow>
     (\<forall>b x b'. m b = Inr (x, b') \<longrightarrow>
       (\<exists>ss ks. b' = grown ss b \<and> map set_Name ss = map (\<lambda>(pl, f). key_text (q, pl, f)) ks \<and> distinct ks \<and>
          set ks \<subseteq> K \<and> (\<forall>(pl, f) \<in> set ks. key_ok (q, pl, f))))"

lemma namesD:
  assumes "names q m K" "m b = Inr (x, b')"
  obtains ss ks where "b' = grown ss b" "map set_Name ss = map (\<lambda>(pl, f). key_text (q, pl, f)) ks" "distinct ks"
    "set ks \<subseteq> K" "\<forall>(pl, f) \<in> set ks. key_ok (q, pl, f)"
  using assms unfolding names_def by blast

lemma names_pure: "(\<And>b x b'. m b = Inr (x, b') \<Longrightarrow> b' = b) \<Longrightarrow> names q m K"
  unfolding names_def by (fastforce intro: exI [of _ "[]"])

lemma names_return: "names q (st_return x) K"
  by (rule names_pure) (simp add: st_Inr)

lemma names_lift: "names q (st_lift r) K"
  by (rule names_pure) (simp add: st_Inr)

lemma names_dep: "(\<And>b. \<exists>m. f b = m b \<and> names q m K) \<Longrightarrow> names q f K"
  unfolding names_def by metis

lemma names_mono: "names q m K \<Longrightarrow> K \<subseteq> L \<Longrightarrow> names q m L"
  unfolding names_def by (meson subset_trans)

lemma names_bind:
  assumes "names q m K" "\<And>x. names q (f x) L" "K \<inter> L = {}"
  shows "names q (st_bind m f) (K \<union> L)"
  unfolding names_def
proof (intro allI impI)
  fix b y b' assume "st_bind m f b = Inr (y, b')"
  then obtain x b1 where m: "m b = Inr (x, b1)" and f: "f x b1 = Inr (y, b')" by (auto simp: st_Inr)
  from assms(1) m obtain ss ks where 1: "b1 = grown ss b"
    "map set_Name ss = map (\<lambda>(pl, f). key_text (q, pl, f)) ks" "distinct ks"
    "set ks \<subseteq> K" "\<forall>(pl, f) \<in> set ks. key_ok (q, pl, f)" by (rule namesD)
  from assms(2) f obtain ts ls where 2: "b' = grown ts b1"
    "map set_Name ts = map (\<lambda>(pl, f). key_text (q, pl, f)) ls" "distinct ls"
    "set ls \<subseteq> L" "\<forall>(pl, f) \<in> set ls. key_ok (q, pl, f)" by (rule namesD)
  have "distinct (ks @ ls)" using 1(3,4) 2(3,4) assms(3) by fastforce
  then show "\<exists>ss ks. b' = grown ss b \<and> map set_Name ss = map (\<lambda>(pl, f). key_text (q, pl, f)) ks \<and> distinct ks \<and>
      set ks \<subseteq> K \<union> L \<and> (\<forall>(pl, f) \<in> set ks. key_ok (q, pl, f))"
    using 1 2 by (intro exI [of _ "ss @ ts"] exI [of _ "ks @ ls"]) auto
qed

lemma names_then: "names q m K \<Longrightarrow> (\<And>x. names q (f x) {}) \<Longrightarrow> names q (st_bind m f) K"
  using names_bind [of q m K f "{}"] by simp

lemma names_lift_bind: "(\<And>x. names q (f x) K) \<Longrightarrow> names q (st_bind (st_lift r) f) K"
  using names_bind [OF names_lift [of q r "{}"], of f K] by simp

lemma names_each:
  assumes "\<And>x. x \<in> set xs \<Longrightarrow> names q (f x) (K x)" "distinct xs"
    and "\<And>x y. x \<in> set xs \<Longrightarrow> y \<in> set xs \<Longrightarrow> x \<noteq> y \<Longrightarrow> K x \<inter> K y = {}"
  shows "names q (st_each f xs) (\<Union>x \<in> set xs. K x)"
  using assms
proof (induction xs)
  case (Cons x xs)
  then have "names q (st_each f xs) (\<Union>x \<in> set xs. K x)" by simp
  then show ?case
    unfolding st_each.simps set_simps UN_insert using Cons.prems
    by (intro names_bind names_then names_return) auto
qed (simp add: names_return)

lemma names_each_enumerate:
  assumes "\<And>k x. k < length xs \<Longrightarrow> x \<in> set xs \<Longrightarrow> names q (f (k, x)) (K k)"
    and "\<And>k l. k \<noteq> l \<Longrightarrow> K k \<inter> K l = {}"
  shows "names q (st_each f (enumerate 0 xs)) (\<Union>k < length xs. K k)"
proof -
  have "names q (st_each f (enumerate 0 xs)) (\<Union>z \<in> set (enumerate 0 xs). K (fst z))"
  proof (rule names_each)
    fix z z' assume "z \<in> set (enumerate 0 xs)" "z' \<in> set (enumerate 0 xs)" "z \<noteq> z'"
    then have "fst z \<noteq> fst z'" by (auto simp: in_set_enumerate_eq prod_eq_iff)
    then show "K (fst z) \<inter> K (fst z') = {}" by (rule assms(2))
  next
    fix z assume "z \<in> set (enumerate 0 xs)"
    then have "fst z < length xs" "snd z \<in> set xs" by (auto simp: in_set_enumerate_eq) (metis nth_mem)
    then show "names q (f z) (K (fst z))" using assms(1) [of "fst z" "snd z"] by simp
  qed simp
  then show ?thesis by (rule names_mono) (auto simp: in_set_enumerate_eq)
qed

section \<open>The steps of a policy\<close>

text \<open>A policy whose names fit and whose lists are of a sane length.\<close>

definition np_small :: "'sel network_policy \<Rightarrow> bool" where
  "np_small pol \<longleftrightarrow>
     length (pol_Namespace pol) + length (pol_Name pol) \<le> 208 \<and>
     (\<forall>rs \<in> {pol_Ingress pol, pol_Egress pol}. length rs < 10 ^ 9 \<and>
        (\<forall>r \<in> set rs. length (rule_Peers r) < 10 ^ 9 \<and> length (rule_Ports r) < 10 ^ 9))"

definition pol_id :: "'sel network_policy \<Rightarrow> string \<times> string" where
  "pol_id pol = (pol_Namespace pol, pol_Name pol)"

lemma addSet_names:
  assumes "length (fst q) + length (snd q) \<le> 208" "place_ok pl" "f \<in> {''v4'', ''v6''}"
  shows "names q (addSet (place_pre pl) ([fst q, snd q] @ place_parts pl) addrs typ f) {(pl, f)}"
  unfolding names_def
proof (intro allI impI)
  fix b n b' assume add: "addSet (place_pre pl) ([fst q, snd q] @ place_parts pl) addrs typ f b = Inr (n, b')"
  show "\<exists>ss ks. b' = grown ss b \<and> map set_Name ss = map (\<lambda>(pl, f). key_text (q, pl, f)) ks \<and> distinct ks \<and>
      set ks \<subseteq> {(pl, f)} \<and> (\<forall>(pl, f) \<in> set ks. key_ok (q, pl, f))"
  proof (cases "addrs = []")
    case True
    then show ?thesis using add by (intro exI [of _ "[]"]) (simp add: addSet_Inr)
  next
    case False
    then have id: "Identifier (place_pre pl) (key_parts (q, pl, f)) = Inr n" and b': "b' = grown [pod_set n typ addrs] b"
      using add by (simp_all add: addSet_Inr)
    have ok: "key_ok (q, pl, f)" using id assms(1-3) by (simp add: Identifier_Inr)
    then have "n = key_text (q, pl, f)" using id key_text_short [OF ok] by (simp add: Identifier_Inr Let_def)
    then show ?thesis
      using ok b' by (intro exI [of _ "[pod_set n typ addrs]"] exI [of _ "[(pl, f)]"]) (auto simp: pod_set_def)
  qed
qed

lemma podSets_names:
  assumes "np_small pol" "place_ok pl" "pre = place_pre pl"
    and "parts = [pol_Namespace pol, pol_Name pol] @ place_parts pl"
  shows "names (pol_id pol) (podSets pre parts pods) ({pl} \<times> UNIV)"
proof -
  have small: "length (fst (pol_id pol)) + length (snd (pol_id pol)) \<le> 208"
    using assms(1) by (simp add: np_small_def pol_id_def)
  have "names (pol_id pol) (podSets pre parts pods) ({(pl, ''v4'')} \<union> {(pl, ''v6'')})"
    unfolding podSets_def assms(3,4)
    using addSet_names [OF small assms(2)]
    by (intro names_bind names_then names_return) (auto simp: pol_id_def)
  then show ?thesis by (rule names_mono) auto
qed

lemma np_peer_names:
  assumes "np_small pol" "d \<in> {np_ingress, np_egress}" "i < 10 ^ 9" "j < 10 ^ 9"
  shows "names (pol_id pol) (np_peer asel everything pol d i j p) ({OfPeer (dir_tag d) i j} \<times> UNIV)"
proof -
  have pl: "place_ok (OfPeer (dir_tag d) i j)" using assms dir_tags by simp
  have sets: "names (pol_id pol) (podSets ''peer_''
      [pol_Namespace pol, pol_Name pol, dir_tag d @ itoa i @ ''.'' @ itoa j] pods)
      ({OfPeer (dir_tag d) i j} \<times> UNIV)" for pods
    by (rule podSets_names [OF assms(1) pl]) simp_all
  then have two: "names (pol_id pol) (st_bind (st_lift r) (\<lambda>pods. st_bind (podSets ''peer_''
      [pol_Namespace pol, pol_Name pol, dir_tag d @ itoa i @ ''.'' @ itoa j] pods) (\<lambda>addrs. st_return (f addrs pods))))
      ({OfPeer (dir_tag d) i j} \<times> UNIV)" for r and f :: "podAddrs \<Rightarrow> pod list \<Rightarrow> match list \<times> pod list"
    by (intro names_lift_bind names_then names_return)
  show ?thesis
  proof (cases "peer_IPBlock p \<noteq> None \<or> peer_PodSelector p = None \<and> peer_NamespaceSelector p = None")
    case True
    then show ?thesis by (intro names_pure) (auto simp: np_peer_def split: option.splits)
  next
    case False
    show ?thesis
    proof (rule names_dep)
      fix b
      define m where "m = st_bind (st_lift (peerPods asel everything b (pol_Namespace pol) p)) (\<lambda>pods.
          st_bind (podSets ''peer_'' [pol_Namespace pol, pol_Name pol, dir_tag d @ itoa i @ ''.'' @ itoa j] pods)
            (\<lambda>addrs. st_return (pa_matches addrs (\<lambda>fam set. fam @ '' '' @ dir_peerAddr d @ '' @'' @ set), pods)))"
      have "np_peer asel everything pol d i j p b = m b" using False by (auto simp: np_peer_def m_def)
      moreover have "names (pol_id pol) m ({OfPeer (dir_tag d) i j} \<times> UNIV)" unfolding m_def by (rule two)
      ultimately show "\<exists>m. np_peer asel everything pol d i j p b = m b \<and> names (pol_id pol) m ({OfPeer (dir_tag d) i j} \<times> UNIV)"
        by blast
    qed
  qed
qed

lemma namedPort_names:
  assumes "np_small pol" "d \<in> {np_ingress, np_egress}" "i < 10 ^ 9" "j < 10 ^ 9" "k < 10 ^ 9"
  shows "names (pol_id pol) (namedPort pol d i j k port proto receivers)
    ((\<Union>n. {OfPort (dir_tag d) i j k n}) \<times> UNIV)"
proof -
  define ns where "ns = sort (remdups (map fst (declared_ports port receivers)))"
  have sets: "names (pol_id pol) (podSets ''port_''
      [pol_Namespace pol, pol_Name pol, dir_tag d @ itoa i @ ''.'' @ itoa j @ ''.'' @ itoa k, itoa (unat n)] pods)
      ({OfPort (dir_tag d) i j k (unat n)} \<times> UNIV)" for n :: "16 word" and pods
    using assms dir_tags unsigned_less [of n, where ?'a = nat] by (intro podSets_names [OF assms(1)]) simp_all
  have "names (pol_id pol) (st_each (\<lambda>number.
             st_bind (podSets ''port_''
                 [pol_Namespace pol, pol_Name pol, dir_tag d @ itoa i @ ''.'' @ itoa j @ ''.'' @ itoa k, itoa (unat number)]
                 (port_pods number (declared_ports port receivers))) (\<lambda>addrs.
               st_return (pa_matches addrs (\<lambda>fam set.
                 fam @ '' daddr @'' @ set @ '' '' @ proto @ '' dport '' @ itoa (unat number))))) ns)
      (\<Union>n \<in> set ns. {OfPort (dir_tag d) i j k (unat n)} \<times> UNIV)"
    by (intro names_each names_then [OF sets] names_return) (auto simp: ns_def dest: word_unat_eq_iff [THEN iffD2])
  from names_then [OF this names_return] show ?thesis
    unfolding namedPort_def Let_def ns_def by (rule names_mono) auto
qed

lemma np_port_match_names:
  assumes "np_small pol" "d \<in> {np_ingress, np_egress}" "i < 10 ^ 9" "j < 10 ^ 9" "k < 10 ^ 9"
  shows "names (pol_id pol) (np_port_match pol d i j receivers (k, port)) ((\<Union>n. {OfPort (dir_tag d) i j k n}) \<times> UNIV)"
  unfolding np_port_match_def prod.case Let_def
  using namedPort_names [OF assms] by (simp only: names_return names_lift split: if_split) simp

lemma np_ports_names:
  assumes "np_small pol" "d \<in> {np_ingress, np_egress}" "i < 10 ^ 9" "j < 10 ^ 9" "length ports < 10 ^ 9"
  shows "names (pol_id pol) (np_ports pol d i j ports receivers) ((\<Union>k n. {OfPort (dir_tag d) i j k n}) \<times> UNIV)"
proof (cases "ports = []")
  case True
  then show ?thesis by (simp add: np_ports_def names_return)
next
  case False
  have "names (pol_id pol) (st_each (np_port_match pol d i j receivers) (enumerate 0 ports))
      (\<Union>k < length ports. (\<Union>n. {OfPort (dir_tag d) i j k n}) \<times> UNIV)"
    using assms by (intro names_each_enumerate np_port_match_names) auto
  then have "names (pol_id pol) (st_bind (st_each (np_port_match pol d i j receivers) (enumerate 0 ports))
      (\<lambda>mss. st_return (concat mss))) ((\<Union>k n. {OfPort (dir_tag d) i j k n}) \<times> UNIV)"
    by (intro names_then names_return) (erule names_mono, auto)
  then show ?thesis using False by (simp add: np_ports_def)
qed

definition entry_places :: "string \<Rightarrow> nat \<Rightarrow> nat \<Rightarrow> place set" where
  "entry_places t i j = insert (OfPeer t i j) (\<Union>k n. {OfPort t i j k n})"

lemma np_entry_names:
  assumes "np_small pol" "d \<in> {np_ingress, np_egress}" "i < 10 ^ 9" "j < 10 ^ 9" "length ports < 10 ^ 9"
  shows "names (pol_id pol) (np_entry asel everything pol d selected i ports (j, p)) (entry_places (dir_tag d) i j \<times> UNIV)"
proof -
  have "names (pol_id pol) (np_entry asel everything pol d selected i ports (j, p))
      ({OfPeer (dir_tag d) i j} \<times> UNIV \<union> (\<Union>k n. {OfPort (dir_tag d) i j k n}) \<times> UNIV)"
    unfolding np_entry_def prod.case Let_def
    by (rule names_bind [OF np_peer_names [OF assms(1-4)]])
       (auto simp only: split_beta intro!: names_then [OF np_ports_names [OF assms] names_return])
  then show ?thesis by (rule names_mono) (auto simp: entry_places_def)
qed

definition dir_places :: "string \<Rightarrow> place set" where
  "dir_places t = (\<Union>i j. entry_places t i j)"

lemma directionRules_names:
  assumes "np_small pol" "d \<in> {np_ingress, np_egress}"
  shows "names (pol_id pol) (directionRules asel everything pol d selected) (dir_places (dir_tag d) \<times> UNIV)"
proof -
  have rs: "pol_rules pol (dir_typ d) \<in> {pol_Ingress pol, pol_Egress pol}" by (simp add: pol_rules_def)
  have lens: "length (pol_rules pol (dir_typ d)) < 10 ^ 9"
    "\<And>r. r \<in> set (pol_rules pol (dir_typ d)) \<Longrightarrow> length (rule_Peers r) < 10 ^ 9 \<and> length (rule_Ports r) < 10 ^ 9"
    using assms(1) rs unfolding np_small_def by blast+
  have inner: "names (pol_id pol) (st_each (np_entry asel everything pol d selected i (rule_Ports r))
      (enumerate 0 (if rule_Peers r = [] then [any_peer] else rule_Peers r)))
      ((\<Union>j. entry_places (dir_tag d) i j) \<times> UNIV)"
    if "i < length (pol_rules pol (dir_typ d))" "r \<in> set (pol_rules pol (dir_typ d))" for i r
  proof -
    let ?ps = "if rule_Peers r = [] then [any_peer] else rule_Peers r"
    have "length ?ps < 10 ^ 9" using lens(2) [OF that(2)] by simp
    then have "names (pol_id pol) (st_each (np_entry asel everything pol d selected i (rule_Ports r)) (enumerate 0 ?ps))
        (\<Union>j < length ?ps. entry_places (dir_tag d) i j \<times> UNIV)"
      using lens that assms
      by (intro names_each_enumerate np_entry_names) (auto simp: entry_places_def)
    then show ?thesis by (rule names_mono) auto
  qed
  have "names (pol_id pol) (st_each (\<lambda>(i, r).
         st_each (np_entry asel everything pol d selected i (rule_Ports r))
           (enumerate 0 (if rule_Peers r = [] then [any_peer] else rule_Peers r)))
       (enumerate 0 (pol_rules pol (dir_typ d))))
      (\<Union>i < length (pol_rules pol (dir_typ d)). (\<Union>j. entry_places (dir_tag d) i j) \<times> UNIV)"
    by (rule names_each_enumerate) (use inner in \<open>auto simp: entry_places_def\<close>)
  from names_then [OF this names_return] show ?thesis
    unfolding directionRules_def by (rule names_mono) (auto simp: dir_places_def)
qed

section \<open>The whole table\<close>

text \<open>The keys of the sets and of the chains a builder has beyond those of the table \<open>r0\<close>.\<close>

definition chain_text :: "dir \<times> (string \<times> string) \<Rightarrow> string" where
  "chain_text = (\<lambda>(d, q). dir_chainPrefix d @ join ''/'' [fst q, snd q])"

definition keyed :: "ruleset \<Rightarrow> set_key list \<Rightarrow> (dir \<times> (string \<times> string)) list \<Rightarrow> builder \<Rightarrow> bool" where
  "keyed r0 ks cs b \<longleftrightarrow>
     map set_Name (rs_Sets (bld_ruleset b)) = map set_Name (rs_Sets r0) @ map key_text ks \<and>
     map chain_Name (rs_Chains (bld_ruleset b)) = map chain_Name (rs_Chains r0) @ map chain_text cs \<and>
     distinct ks \<and> distinct cs \<and> list_all key_ok ks \<and>
     (\<forall>(d, q) \<in> set cs. d \<in> {np_ingress, np_egress} \<and> identifierPart (fst q) \<and> identifierPart (snd q))"

lemma keyed_grow:
  assumes "keyed r0 ks cs b" "names q m (K \<times> UNIV)" "m b = Inr (x, b')"
    and "\<forall>k \<in> set ks. fst k = q \<longrightarrow> fst (snd k) \<notin> K"
  shows "\<exists>ls. keyed r0 (ks @ ls) cs b' \<and> (\<forall>k \<in> set ls. fst k = q \<and> fst (snd k) \<in> K)"
proof -
  from assms(2,3) obtain ss ps where s: "b' = grown ss b" "map set_Name ss = map (\<lambda>(pl, f). key_text (q, pl, f)) ps"
    "distinct ps" "set ps \<subseteq> K \<times> UNIV" "\<forall>(pl, f) \<in> set ps. key_ok (q, pl, f)" by (rule namesD)
  have "map key_text (map (Pair q) ps) = map (\<lambda>(pl, f). key_text (q, pl, f)) ps" by auto
  moreover have "distinct (ks @ map (Pair q) ps)"
    using assms(1,4) s(3,4) by (fastforce simp: keyed_def distinct_map inj_on_def)
  ultimately show ?thesis
    using assms(1) s by (intro exI [of _ "map (Pair q) ps"]) (auto simp: keyed_def list_all_iff)
qed

lemma np_direction_keyed:
  assumes "keyed r0 ks cs b" "np_small pol" "d \<in> {np_ingress, np_egress}"
    and "np_direction asel everything pol selected addrs d b = Inr b'"
    and "\<forall>k \<in> set ks. fst k = pol_id pol \<longrightarrow> fst (snd k) \<notin> dir_places (dir_tag d)" "(d, pol_id pol) \<notin> set cs"
  shows "\<exists>ls ds. keyed r0 (ks @ ls) (cs @ ds) b' \<and>
    (\<forall>k \<in> set ls. fst k = pol_id pol \<and> fst (snd k) \<in> dir_places (dir_tag d)) \<and> set ds \<subseteq> {(d, pol_id pol)}"
proof (cases "governs pol (dir_typ d)")
  case False
  then show ?thesis using assms(1,4) by (intro exI [of _ "[]"]) (simp add: np_direction_def)
next
  case True
  then obtain n rules b1 where n: "Identifier (dir_chainPrefix d) [pol_Namespace pol, pol_Name pol] = Inr n"
    and rules: "directionRules asel everything pol d selected b = Inr (rules, b1)"
    and b': "map set_Name (rs_Sets (bld_ruleset b')) = map set_Name (rs_Sets (bld_ruleset b1))"
      "map chain_Name (rs_Chains (bld_ruleset b')) = map chain_Name (rs_Chains (bld_ruleset b1)) @ [n]"
    using assms(4)
    by (auto simp: np_direction_def bind_err_Inr Let_def isolate_def with_chain_def add_chain_def map_update_first
        split: option.splits)
  obtain ls where ls: "keyed r0 (ks @ ls) cs b1" "\<forall>k \<in> set ls. fst k = pol_id pol \<and> fst (snd k) \<in> dir_places (dir_tag d)"
    using keyed_grow [OF assms(1) directionRules_names [OF assms(2,3)] rules assms(5)] by blast
  have "length (dir_chainPrefix d) \<le> 8" using assms(3) by (auto simp: np_ingress_def np_egress_def)
  then have "n = chain_text (d, pol_id pol)"
    using n assms(2) by (auto simp: Identifier_Inr chain_text_def pol_id_def np_small_def)
  moreover have "identifierPart (pol_Namespace pol)" "identifierPart (pol_Name pol)"
    using n by (simp_all add: Identifier_Inr)
  ultimately have "keyed r0 (ks @ ls) (cs @ [(d, pol_id pol)]) b'"
    using ls(1) b' assms(3,6) by (auto simp: keyed_def pol_id_def)
  then show ?thesis using ls(2) by (intro exI [of _ ls] exI [of _ "[(d, pol_id pol)]"]) simp
qed

lemma places_apart:
  "OfPods \<notin> dir_places t" "pl \<in> dir_places (dir_tag np_ingress) \<Longrightarrow> pl \<notin> dir_places (dir_tag np_egress)"
  by (auto simp: dir_places_def entry_places_def np_ingress_def np_egress_def)

lemma np_policy_keyed:
  assumes "keyed r0 ks cs b" "np_small pol" "np_policy asel everything pol b = Inr b'"
    and "\<forall>k \<in> set ks. fst k \<noteq> pol_id pol" "\<forall>c \<in> set cs. snd c \<noteq> pol_id pol"
  shows "\<exists>ls ds. keyed r0 (ks @ ls) (cs @ ds) b' \<and>
    (\<forall>k \<in> set ls. fst k = pol_id pol) \<and> (\<forall>c \<in> set ds. snd c = pol_id pol)"
proof -
  consider "b' = b" | addrs selected b1 b2 where
    "podSets ''pods_'' [pol_Namespace pol, pol_Name pol] selected b = Inr (addrs, b1)"
    "np_direction asel everything pol selected addrs np_ingress b1 = Inr b2"
    "np_direction asel everything pol selected addrs np_egress b2 = Inr b'"
    using assms(3) by (auto simp: np_policy_def bind_err_Inr Let_def split: if_splits)
  then show ?thesis
  proof cases
    case 1
    then show ?thesis using assms(1) by (intro exI [of _ "[]"]) simp
  next
    case 2
    have "names (pol_id pol) (podSets ''pods_'' [pol_Namespace pol, pol_Name pol] selected) ({OfPods} \<times> UNIV)"
      by (rule podSets_names [OF assms(2)]) simp_all
    from keyed_grow [OF assms(1) this 2(1)] obtain l1 where l1: "keyed r0 (ks @ l1) cs b1" "\<forall>k \<in> set l1. fst k = pol_id pol \<and> fst (snd k) \<in> {OfPods}"
      using assms(4) by blast
    have "\<forall>k \<in> set (ks @ l1). fst k = pol_id pol \<longrightarrow> fst (snd k) \<notin> dir_places (dir_tag np_ingress)"
      "(np_ingress, pol_id pol) \<notin> set cs"
      using assms(4,5) l1(2) places_apart(1) by auto
    then obtain l2 d2 where l2: "keyed r0 ((ks @ l1) @ l2) (cs @ d2) b2" "set d2 \<subseteq> {(np_ingress, pol_id pol)}"
      "\<forall>k \<in> set l2. fst k = pol_id pol \<and> fst (snd k) \<in> dir_places (dir_tag np_ingress)"
      using np_direction_keyed [OF l1(1) assms(2) _ 2(2)] by blast
    have "\<forall>k \<in> set ((ks @ l1) @ l2). fst k = pol_id pol \<longrightarrow> fst (snd k) \<notin> dir_places (dir_tag np_egress)"
      using assms(4) l1(2) l2(3) places_apart by fastforce
    moreover have "(np_egress, pol_id pol) \<notin> set (cs @ d2)"
      using assms(5) l2(2) np_dirs(3) by auto
    ultimately obtain l3 d3 where l3: "keyed r0 (((ks @ l1) @ l2) @ l3) ((cs @ d2) @ d3) b'"
      "set d3 \<subseteq> {(np_egress, pol_id pol)}" "\<forall>k \<in> set l3. fst k = pol_id pol"
      using np_direction_keyed [OF l2(1) assms(2) _ 2(3)] by blast
    show ?thesis
      using l1(2) l2(2,3) l3 by (intro exI [of _ "l1 @ l2 @ l3"] exI [of _ "d2 @ d3"]) auto
  qed
qed

lemma np_policies_keyed:
  assumes "keyed r0 ks cs b" "list_all np_small ps" "distinct (map pol_id ps)"
    and "\<forall>k \<in> set ks. fst k \<notin> pol_id ` set ps" "\<forall>c \<in> set cs. snd c \<notin> pol_id ` set ps"
    and "fold_err (\<lambda>policy b. map_err (g policy) (np_policy asel everything policy b)) ps b = Inr b'"
  shows "\<exists>ks cs. keyed r0 ks cs b'"
  using assms
proof (induction ps arbitrary: ks cs b)
  case Nil
  then show ?case by auto
next
  case (Cons pol ps)
  then obtain b1 where b1: "np_policy asel everything pol b = Inr b1"
    "fold_err (\<lambda>policy b. map_err (g policy) (np_policy asel everything policy b)) ps b1 = Inr b'"
    by (auto simp: bind_err_Inr)
  have "\<forall>k \<in> set ks. fst k \<noteq> pol_id pol" "\<forall>c \<in> set cs. snd c \<noteq> pol_id pol" using Cons.prems(4,5) by auto
  then obtain ls ds where "keyed r0 (ks @ ls) (cs @ ds) b1" "\<forall>k \<in> set ls. fst k = pol_id pol" "\<forall>c \<in> set ds. snd c = pol_id pol"
    using np_policy_keyed [OF Cons.prems(1) _ b1(1)] Cons.prems(2) by auto
  moreover have "pol_id pol \<notin> pol_id ` set ps" using Cons.prems(3) by simp
  then have "\<forall>k \<in> set (ks @ ls). fst k \<notin> pol_id ` set ps" "\<forall>c \<in> set (cs @ ds). snd c \<notin> pol_id ` set ps"
    using calculation(2,3) Cons.prems(4,5) by (simp_all add: ball_Un)
  ultimately show ?case
    using Cons.prems(2,3) b1(2) by (intro Cons.IH [of "ks @ ls" "cs @ ds"]) simp_all
qed

lemma skeleton_names:
  assumes "Render prm = Inr r0"
  shows "distinct (map set_Name (rs_Sets r0))" "distinct (map chain_Name (rs_Chains r0))"
    "\<forall>n \<in> set (map set_Name (rs_Sets r0)) \<union> set (map chain_Name (rs_Chains r0)). CHR ''/'' \<notin> set n"
  by (simp_all add: Render_Inr [OF assms] set_names_Render Render_chains_def podChain_def dispatchChain_def
      inputChain_def outputChain_def postroutingChain_def chain_name_defs set_name_defs)

lemma chain_text_inj:
  assumes "d \<in> {np_ingress, np_egress}" "e \<in> {np_ingress, np_egress}"
    "list_all identifierPart [fst q, snd q]" "list_all identifierPart [fst r, snd r]"
    "chain_text (d, q) = chain_text (e, r)"
  shows "(d, q) = (e, r)"
proof -
  have "dir_chainPrefix d = (if d = np_ingress then ''ingress_'' else ''egress_'')"
    "dir_chainPrefix e = (if e = np_ingress then ''ingress_'' else ''egress_'')"
    using assms(1,2) np_dirs(3) by (auto simp: np_ingress_def np_egress_def)
  then have "d = e \<and> join ''/'' [fst q, snd q] = join ''/'' [fst r, snd r]"
    using assms(1,2,5) by (auto simp: chain_text_def split: if_splits simp del: join.simps)
  then show ?thesis
    using join_parts_inj [OF assms(3,4)] by (auto intro: prod_eqI simp del: join.simps)
qed

lemma distinct_names:
  assumes "xs = ys @ map f zs" "distinct ys" "distinct zs" "inj_on f (set zs)"
    and "\<forall>y \<in> set ys. c \<notin> set y" "\<forall>z \<in> set zs. c \<in> set (f z)"
  shows "distinct xs"
  using assms by (auto simp: distinct_map)

lemma keyed_unique:
  assumes "keyed r0 ks cs b" "Render prm = Inr r0"
  shows "distinct (map set_Name (rs_Sets (bld_ruleset b)))" "distinct (map chain_Name (rs_Chains (bld_ruleset b)))"
proof -
  have k: "distinct ks" "list_all key_ok ks" "distinct cs"
    and c: "\<forall>(d, q) \<in> set cs. d \<in> {np_ingress, np_egress} \<and> identifierPart (fst q) \<and> identifierPart (snd q)"
    and sets: "map set_Name (rs_Sets (bld_ruleset b)) = map set_Name (rs_Sets r0) @ map key_text ks"
    and chains: "map chain_Name (rs_Chains (bld_ruleset b)) = map chain_Name (rs_Chains r0) @ map chain_text cs"
    using assms(1) unfolding keyed_def by blast+
  have "inj_on key_text (set ks)" using k(2) key_text_inj by (auto simp: inj_on_def list_all_iff)
  then show "distinct (map set_Name (rs_Sets (bld_ruleset b)))"
    using distinct_names [OF sets skeleton_names(1) [OF assms(2)] k(1), of "CHR ''/''"]
      skeleton_names(3) [OF assms(2)] key_text_slash by blast
  have "inj_on chain_text (set cs)"
  proof (rule inj_onI)
    fix x y assume "x \<in> set cs" "y \<in> set cs" "chain_text x = chain_text y"
    moreover have "fst z \<in> {np_ingress, np_egress} \<and> list_all identifierPart [fst (snd z), snd (snd z)]"
      if "z \<in> set cs" for z using bspec [OF c that] by (simp add: split_beta)
    ultimately show "x = y"
      using chain_text_inj [of "fst x" "fst y" "snd x" "snd y"] by (simp only: prod.collapse)
  qed
  moreover have "CHR ''/'' \<in> set (chain_text x)" for x by (cases x) (simp add: chain_text_def)
  ultimately show "distinct (map chain_Name (rs_Chains (bld_ruleset b)))"
    using distinct_names [OF chains skeleton_names(2) [OF assms(2)] k(3), of "CHR ''/''"]
      skeleton_names(3) [OF assms(2)] by blast
qed

lemma netpol_Add_unique:
  assumes "Render prm = Inr r0" "netpol_Add asel everything r0 P = Inr r1"
    and "list_all np_small (np_Policies P)" "distinct (map pol_id (np_Policies P))"
  shows "unique_names r1"
proof -
  obtain b where fold: "fold_err (\<lambda>policy b.
       map_err (\<lambda>e. ''netpol: NetworkPolicy '' @ policy_comment policy @ '': '' @ e)
         (np_policy asel everything policy b)) (sort_key policy_key (np_Policies P)) (new_builder r0 P) = Inr b"
    and r1: "r1 = filled (bld_isolated b) np_egress (filled (bld_isolated b) np_ingress (bld_ruleset b))"
    using assms(2) by (rule netpol_Add_Inr)
  have "keyed r0 [] [] (new_builder r0 P)" by (simp add: keyed_def new_builder_def)
  moreover have "list_all np_small (sort_key policy_key (np_Policies P))"
    "distinct (map pol_id (sort_key policy_key (np_Policies P)))"
    using assms(3,4) by (auto simp: list_all_iff distinct_map)
  ultimately obtain ks cs where "keyed r0 ks cs b"
    using np_policies_keyed [OF _ _ _ _ _ fold] by fastforce
  moreover have "map set_Name (rs_Sets (filled isol d rs)) = map set_Name (rs_Sets rs)" for isol d rs
    by (simp add: filled_def Let_def with_set_def map_update_first)
  ultimately show ?thesis
    using keyed_unique [OF _ assms(1)] by (simp add: unique_names_def r1)
qed

end
