(* ===== verification/Netip_Parse.thy ===== *)
theory Netip_Parse
  imports Netip
begin

text \<open>
  \<open>netip.ParseAddr\<close> and \<open>netip.ParsePrefix\<close>, with the messages of their errors: what the
  program reads the addresses and CIDRs of the API objects with.
\<close>

definition parseAddrError :: "string \<Rightarrow> string \<Rightarrow> string \<Rightarrow> go_error" where
  "parseAddrError input msg at =
     ''ParseAddr('' @ Quote input @ ''): '' @ msg @
     (if at = [] then [] else '' (at '' @ Quote at @ '')'')"

definition digit_val :: "char \<Rightarrow> nat option" where
  "digit_val c = (let n = of_char c in if 48 \<le> n \<and> n \<le> 57 then Some (n - 48) else None)"

definition hex_val :: "char \<Rightarrow> nat option" where
  "hex_val c =
     (let n = of_char c
      in if 48 \<le> n \<and> n \<le> 57 then Some (n - 48)
         else if 97 \<le> n \<and> n \<le> 102 then Some (n - 87)
         else if 65 \<le> n \<and> n \<le> 70 then Some (n - 55)
         else None)"

text \<open>
  \<open>parseIPv4Fields\<close>: the octets so far, the value and the number of digits of the octet
  being read; \<open>input\<close> is the whole text, for the messages.
\<close>

fun ipv4_fields :: "string \<Rightarrow> nat list \<Rightarrow> nat \<Rightarrow> nat \<Rightarrow> string \<Rightarrow> go_error + nat list" where
  "ipv4_fields input fs val digLen [] =
     (if length fs < 3 then Inl (parseAddrError input ''IPv4 address too short'' [])
      else Inr (fs @ [val]))"
| "ipv4_fields input fs val digLen (c # cs) =
     (case digit_val c of
        Some d \<Rightarrow>
          (if digLen = 1 \<and> val = 0
           then Inl (parseAddrError input ''IPv4 field has octet with leading zero'' [])
           else if val * 10 + d > 255
           then Inl (parseAddrError input ''IPv4 field has value >255'' [])
           else ipv4_fields input fs (val * 10 + d) (Suc digLen) cs)
      | None \<Rightarrow>
          (if c = CHR ''.'' then
             (if digLen = 0 \<or> cs = []
              then Inl (parseAddrError input ''IPv4 field must have at least one digit'' (c # cs))
              else if length fs = 3
              then Inl (parseAddrError input ''IPv4 address too long'' [])
              else ipv4_fields input (fs @ [val]) 0 0 cs)
           else Inl (parseAddrError input ''unexpected character'' (c # cs))))"

definition undigits :: "nat \<Rightarrow> nat list \<Rightarrow> nat" where
  "undigits B fs = foldl (\<lambda>acc f. acc * B + f) 0 fs"

definition parseIPv4 :: "string \<Rightarrow> go_error + addr" where
  "parseIPv4 s =
     bind_err (ipv4_fields s [] 0 0 s) (\<lambda>fs. Inr (Addr4 (word_of_nat (undigits 256 fs))))"

text \<open>
  The loop of \<open>parseIPv6\<close>, on the 16-bit groups: \<open>room\<close> is how many groups are left, \<open>gs\<close>
  the groups read and \<open>e\<close> the position of the ellipsis among them. The result carries
  what is left of the text.
\<close>

fun ipv6_loop ::
  "string \<Rightarrow> nat \<Rightarrow> nat list \<Rightarrow> nat option \<Rightarrow> string \<Rightarrow> go_error + nat list \<times> nat option \<times> string" where
  "ipv6_loop input 0 gs e s = Inr (gs, e, s)"
| "ipv6_loop input (Suc room) gs e s =
     (let hs = takeWhile (\<lambda>c. hex_val c \<noteq> None) s;
          rest = dropWhile (\<lambda>c. hex_val c \<noteq> None) s
      in if 4 < length hs
         then Inl (parseAddrError input ''each group must have 4 or less digits'' s)
         else if hs = []
         then Inl (parseAddrError input
                ''each colon-separated field must have at least one digit'' s)
         else if take 1 rest = ''.'' then
           (if e = None \<and> length gs \<noteq> 6
            then Inl (parseAddrError input
                   ''embedded IPv4 address must replace the final 2 fields of the address'' s)
            else if 6 < length gs
            then Inl (parseAddrError input
                   ''too many hex fields to fit an embedded IPv4 at the end of the address'' s)
            else bind_err (ipv4_fields input [] 0 0 s) (\<lambda>fs.
                   Inr (gs @ [undigits 256 (take 2 fs), undigits 256 (drop 2 fs)], e, [])))
         else
           (let gs' = gs @ [undigits 16 (map (\<lambda>c. the (hex_val c)) hs)]
            in case rest of
                 [] \<Rightarrow> Inr (gs', e, [])
               | [c] \<Rightarrow>
                   if c \<noteq> CHR '':''
                   then Inl (parseAddrError input ''unexpected character, want colon'' rest)
                   else Inl (parseAddrError input ''colon must be followed by more characters'' rest)
               | c # c' # cs \<Rightarrow>
                   if c \<noteq> CHR '':''
                   then Inl (parseAddrError input ''unexpected character, want colon'' rest)
                   else if c' = CHR '':'' then
                     (if e \<noteq> None
                      then Inl (parseAddrError input ''multiple :: in address'' (c' # cs))
                      else if cs = [] then Inr (gs', Some (length gs'), [])
                      else ipv6_loop input room gs' (Some (length gs')) cs)
                   else ipv6_loop input room gs' e (c' # cs)))"

definition parseIPv6 :: "string \<Rightarrow> go_error + addr" where
  "parseIPv6 input =
     (let s = takeWhile (\<lambda>c. c \<noteq> CHR ''%'') input;
          zone = drop 1 (dropWhile (\<lambda>c. c \<noteq> CHR ''%'') input);
          addr = (\<lambda>gs. Inr (Addr6 (word_of_nat (undigits 65536 gs)) zone))
      in if CHR ''%'' \<in> set input \<and> zone = []
         then Inl (parseAddrError input ''zone must be a non-empty string'' [])
         else if s = ''::'' then addr (replicate 8 0)
         else
           bind_err (if take 2 s = ''::'' then ipv6_loop input 8 [] (Some 0) (drop 2 s)
                     else ipv6_loop input 8 [] None s) (\<lambda>(gs, e, rest).
             if rest \<noteq> []
             then Inl (parseAddrError input ''trailing garbage after address'' rest)
             else if length gs < 8 then
               (case e of
                  None \<Rightarrow> Inl (parseAddrError input ''address string too short'' [])
                | Some k \<Rightarrow> addr (take k gs @ replicate (8 - length gs) 0 @ drop k gs))
             else if e \<noteq> None
             then Inl (parseAddrError input ''the :: must expand to at least one field of zeros'' [])
             else addr gs))"

text \<open>\<open>ParseAddr\<close>: the first of \<^verbatim>\<open>. : %\<close> in the text decides how it is read.\<close>

definition ParseAddr :: "string \<Rightarrow> go_error + addr" where
  "ParseAddr s =
     (case find (\<lambda>c. c \<in> set ''.:%'') s of
        None \<Rightarrow> Inl (parseAddrError s ''unable to parse IP'' [])
      | Some c \<Rightarrow>
          if c = CHR ''.'' then parseIPv4 s
          else if c = CHR '':'' then parseIPv6 s
          else Inl (parseAddrError s ''missing IPv6 address'' []))"

definition parsePrefixError :: "string \<Rightarrow> string \<Rightarrow> go_error" where
  "parsePrefixError input msg = ''netip.ParsePrefix('' @ Quote input @ ''): '' @ msg"

text \<open>\<open>strconv.Atoi\<close> on a text that does not begin with a sign or a zero, where it is longer than one byte.\<close>

definition all_digits :: "string \<Rightarrow> bool" where
  "all_digits s \<longleftrightarrow> s \<noteq> [] \<and> list_all (\<lambda>c. digit_val c \<noteq> None) s"

definition leading_zero_or_sign :: "string \<Rightarrow> bool" where
  "leading_zero_or_sign s \<longleftrightarrow> 1 < length s \<and> s ! 0 \<notin> set ''123456789''"

definition ParsePrefix :: "string \<Rightarrow> go_error + prefix" where
  "ParsePrefix s =
     (if CHR ''/'' \<notin> set s then Inl (parsePrefixError s (''no '' @ [CHR 0x27, CHR ''/'', CHR 0x27]))
      else
       (let bitsStr = rev (takeWhile (\<lambda>c. c \<noteq> CHR ''/'') (rev s));
            ipStr = take (length s - length bitsStr - 1) s
        in case ParseAddr ipStr of
             Inl e \<Rightarrow> Inl (parsePrefixError s e)
           | Inr ip \<Rightarrow>
               if withoutZone ip \<noteq> ip
               then Inl (parsePrefixError s ''IPv6 zones cannot be present in a prefix'')
               else if leading_zero_or_sign bitsStr
               then Inl (parsePrefixError s (''bad bits after slash: '' @ Quote bitsStr))
               else if \<not> all_digits bitsStr
               then Inl (parsePrefixError s (''bad bits after slash: '' @ Quote bitsStr))
               else
                 (let bits = undigits 10 (map (\<lambda>c. the (digit_val c)) bitsStr)
                  in if BitLen ip < bits
                     then Inl (parsePrefixError s ''prefix length out of range'')
                     else Inr (PrefixFrom ip (int bits)))))"

text \<open>What evaluates \<open>ParsePrefix\<close> on an IPv4 text.\<close>

lemmas ParsePrefix_eval =
  ParsePrefix_def ParseAddr_def parseIPv4_def digit_val_def Let_def undigits_def
  leading_zero_or_sign_def all_digits_def PrefixFrom_def

lemma undigits_snoc: "undigits B (fs @ [x]) = undigits B fs * B + x"
  by (simp add: undigits_def)

lemma undigits_fields: "0 < B \<Longrightarrow> n < B ^ k \<Longrightarrow> undigits B (fields B k n) = n"
proof (induction k arbitrary: n)
  case (Suc k)
  then have "undigits B (fields B k (n div B)) = n div B"
    by (simp add: less_mult_imp_div_less mult.commute)
  then show ?case by (simp add: fields_Suc undigits_snoc)
qed (simp add: undigits_def fields_def)

section \<open>What is read is well formed\<close>

lemma ParseAddr_valid: "ParseAddr s = Inr a \<Longrightarrow> a \<noteq> AddrZero"
  by (auto simp: ParseAddr_def parseIPv4_def parseIPv6_def bind_err_Inr Let_def
      split: option.splits if_splits)

lemma ParsePrefix_wf:
  assumes "ParsePrefix s = Inr p"
  shows "wf_prefix p" "Prefix_IsValid p"
proof -
  from assms obtain ip bits s' where p: "p = PrefixFrom ip (int bits)" "\<not> BitLen ip < bits"
    "ParseAddr s' = Inr ip"
    by (auto simp: ParsePrefix_def Let_def split: if_splits sum.splits)
  then have "ip \<noteq> AddrZero" by (auto dest: ParseAddr_valid)
  with p show "wf_prefix p" "Prefix_IsValid p"
    by (simp, simp add: Prefix_IsValid_def PrefixFrom_def)
qed

end
