(* ===== verification/Nodepol.thy ===== *)
theory Nodepol
  imports Api_V1alpha1 Netip_Parse Nft_Reader
begin

text \<open>
  \<open>internal/nodepol\<close>: the NodeNetworkPolicies that select a node, rendered into the table
  behind the safe rules. \<open>nodepol.go\<close> is the choice of policies, directions and modes and
  the chains; \<open>match.go\<close> the text of one rule.
\<close>

section \<open>Matches (match.go)\<close>

definition nodepol_comment :: "string \<Rightarrow> string" where
  "nodepol_comment name = ''nodenetworkpolicy '' @ name"

definition portNumber :: "int \<Rightarrow> go_error + 16 word" where
  "portNumber p =
     (if p < 1 \<or> 65535 < p
      then Inl (''port '' @ show_int p @ '' is outside 1-65535'')
      else Inr (word_of_int p))"

definition protocol :: "string \<Rightarrow> go_error + string" where
  "protocol p =
     (if p = [] \<or> p = ''TCP'' then Inr ''tcp''
      else if p = ''UDP'' then Inr ''udp''
      else if p = ''SCTP'' then Inr ''sctp''
      else Inl (''protocol '' @ Quote p @ '' is not one nftables matches on a port''))"

definition portMatch :: "nnp_port \<Rightarrow> go_error + string" where
  "portMatch port =
     bind_err (protocol (nnp_Protocol port)) (\<lambda>proto.
       case nnp_Port port of
         None \<Rightarrow>
           (case nnp_EndPort port of
              Some e \<Rightarrow> Inl (''endPort '' @ show_int e @ '' without a port'')
            | None \<Rightarrow> Inr (''meta l4proto '' @ proto))
       | Some n \<Rightarrow>
           bind_err (portNumber n) (\<lambda>first.
             case nnp_EndPort port of
               None \<Rightarrow> Inr (proto @ '' dport '' @ itoa (unat first))
             | Some e \<Rightarrow>
                 bind_err (portNumber e) (\<lambda>last_port.
                   if last_port < first
                   then Inl (''endPort '' @ itoa (unat last_port) @ '' is below port '' @ itoa (unat first))
                   else Inr (proto @ '' dport '' @ itoa (unat first) @ ''-'' @ itoa (unat last_port)))))"

text \<open>\<open>prefix\<close>: a CIDR with bits below its length is refused rather than masked.\<close>

definition cidr_prefix :: "string \<Rightarrow> go_error + prefix" where
  "cidr_prefix cidr =
     (case ParsePrefix cidr of
        Inl e \<Rightarrow> Inl (Quote cidr @ '': '' @ e)
      | Inr p \<Rightarrow>
          if p \<noteq> Masked p
          then Inl (Quote cidr @ '' has bits set below its prefix length; write '' @ Prefix_String (Masked p))
          else Inr p)"

definition except_text :: "prefix \<Rightarrow> string \<Rightarrow> go_error + string" where
  "except_text block e =
     bind_err (map_err (\<lambda>m. ''ipBlock except: '' @ m) (cidr_prefix e)) (\<lambda>except.
       if Is6 (Prefix_Addr except) \<noteq> Is6 (Prefix_Addr block)
       then Inl (''ipBlock except '' @ Prefix_String except @ '' is not of the same family as cidr '' @
                 Prefix_String block)
       else Inr (Prefix_String except))"

text \<open>\<open>peerMatch\<close>; \<open>addr\<close> is the direction's \<open>saddr\<close> or \<open>daddr\<close>.\<close>

definition peerMatch :: "string \<Rightarrow> nnp_peer \<Rightarrow> go_error + string" where
  "peerMatch addr peer =
     (case nnp_IPBlock peer of
        None \<Rightarrow> Inl ''a peer needs an ipBlock''
      | Some b \<Rightarrow>
          bind_err (map_err (\<lambda>m. ''ipBlock cidr: '' @ m) (cidr_prefix (ipb_CIDR b))) (\<lambda>block.
            let family = (if Is6 (Prefix_Addr block) then ''ip6'' else ''ip'');
                m = family @ '' '' @ addr @ '' '' @ Prefix_String block
            in if ipb_Except b = [] then Inr m
               else bind_err (collect_err (except_text block) (ipb_Except b)) (\<lambda>excepts.
                 Inr (m @ '' '' @ family @ '' '' @ addr @ '' != { '' @ join '', '' excepts @ '' }''))))"

definition collect :: "('a \<Rightarrow> go_error + string) \<Rightarrow> 'a list \<Rightarrow> go_error + string list" where
  "collect render elements = (if elements = [] then Inr [[]] else collect_err render elements)"

section \<open>Policies, directions and modes (nodepol.go)\<close>

definition ChainInputDispatch :: string where "ChainInputDispatch = ''input_dispatch''"
definition ChainOutputDispatch :: string where "ChainOutputDispatch = ''output_dispatch''"
definition logPrefix :: string where "logPrefix = ''cnidaria-nodenetworkpolicy ''"
definition logRate :: string where "logRate = ''10/second''"

text \<open>
  The error of \<open>Add\<close>: a \<open>PolicyError\<close> names the policy the controller reports it on; the
  other error is a table without the chain the jump goes into.
\<close>

datatype nodepol_error = PolicyError string go_error | TableError go_error

record node_info =
  ni_Name :: string
  ni_Labels :: labels

record direction =
  d_name :: string
  d_policyType :: policy_type
  d_chain :: string
  d_dispatch :: string
  d_prefix :: string
  d_addr :: string

definition ingress :: direction where
  "ingress =
     \<lparr>d_name = ''ingress'', d_policyType = PolicyTypeIngress, d_chain = ChainInput,
      d_dispatch = ChainInputDispatch, d_prefix = ''nodepol_in_'', d_addr = ''saddr''\<rparr>"

definition egress :: direction where
  "egress =
     \<lparr>d_name = ''egress'', d_policyType = PolicyTypeEgress, d_chain = ChainOutput,
      d_dispatch = ChainOutputDispatch, d_prefix = ''nodepol_out_'', d_addr = ''daddr''\<rparr>"

record entry =
  e_peers :: "nnp_peer list"
  e_ports :: "nnp_port list"

definition closes :: "direction \<Rightarrow> 'sel node_network_policy \<Rightarrow> bool" where
  "closes d p =
     (let spec = nnp_Spec p
      in if spec_PolicyTypes spec \<noteq> [] then d_policyType d \<in> set (spec_PolicyTypes spec)
         else d_policyType d = PolicyTypeIngress \<or> spec_Egress spec \<noteq> [])"

definition closedBy :: "direction \<Rightarrow> 'sel node_network_policy list \<Rightarrow> 'sel node_network_policy list" where
  "closedBy d policies = filter (closes d) policies"

definition entries :: "direction \<Rightarrow> 'sel node_network_policy \<Rightarrow> entry list" where
  "entries d p =
     (if d_policyType d = PolicyTypeIngress
      then map (\<lambda>r. \<lparr>e_peers = ir_From r, e_ports = ir_Ports r\<rparr>) (spec_Ingress (nnp_Spec p))
      else map (\<lambda>r. \<lparr>e_peers = er_To r, e_ports = er_Ports r\<rparr>) (spec_Egress (nnp_Spec p)))"

definition nodepol_matches :: "direction \<Rightarrow> entry \<Rightarrow> go_error + string list" where
  "nodepol_matches d e =
     bind_err (collect (peerMatch (d_addr d)) (e_peers e)) (\<lambda>peers.
     bind_err (collect portMatch (e_ports e)) (\<lambda>ports.
       Inr (concat (map (\<lambda>peer. map (\<lambda>port. TrimSpace (peer @ '' '' @ port)) ports) peers))))"

definition chainFor :: "direction \<Rightarrow> 'sel node_network_policy \<Rightarrow> nodepol_error + nft_chain" where
  "chainFor d p =
     bind_err (map_err (PolicyError (nnp_Name p)) (Identifier (d_prefix d) [nnp_Name p])) (\<lambda>name.
     bind_err (map_err (\<lambda>m. PolicyError (nnp_Name p) (d_name d @ '': '' @ m))
                (collect_err (nodepol_matches d) (entries d p))) (\<lambda>matchess.
       Inr \<lparr>chain_Name = name, chain_Base = None,
            chain_Rules = map (\<lambda>m. rule m ''accept'' (nodepol_comment (nnp_Name p))) (concat matchess),
            chain_Comment = ''NodeNetworkPolicy '' @ nnp_Name p @ '', '' @ d_name d\<rparr>))"

fun effectiveMode :: "'sel node_network_policy list \<Rightarrow> mode" where
  "effectiveMode [] = ModeEnforce"
| "effectiveMode (p # ps) =
     (if spec_Mode (nnp_Spec p) \<noteq> ModeEnforce then ModePermissive else effectiveMode ps)"

definition verdict_rules :: "mode \<Rightarrow> nft_rule list" where
  "verdict_rules mode =
     (if mode = ModeEnforce then [rule [] ''drop'' ''nodenetworkpolicy: no rule accepted'']
      else
       [rule (''limit rate '' @ logRate) (''log prefix '' @ Quote logPrefix)
          ''nodenetworkpolicy: permissive, logged'',
        rule [] ''continue'' ''nodenetworkpolicy: permissive, counted and accepted''])"

fun matching_policies ::
  "'sel as_selector \<Rightarrow> labels \<Rightarrow> 'sel node_network_policy list \<Rightarrow>
     nodepol_error + 'sel node_network_policy list" where
  "matching_policies asel ls [] = Inr []"
| "matching_policies asel ls (p # ps) =
     bind_err (map_err (\<lambda>m. PolicyError (nnp_Name p) (''nodeSelector: '' @ m))
                (asel (spec_NodeSelector (nnp_Spec p)))) (\<lambda>selector.
     bind_err (matching_policies asel ls ps) (\<lambda>selected.
       Inr (if selector ls then p # selected else selected)))"

definition selects ::
  "'sel as_selector \<Rightarrow> node_info \<Rightarrow> 'sel node_network_policy list \<Rightarrow>
     nodepol_error + 'sel node_network_policy list" where
  "selects asel node policies =
     bind_err (matching_policies asel (ni_Labels node) policies) (\<lambda>selected.
       Inr (sort_key nnp_Name selected))"

definition jumpFrom :: "string \<Rightarrow> string \<Rightarrow> ruleset \<Rightarrow> nodepol_error + ruleset" where
  "jumpFrom chain dispatch rs =
     (case Ruleset_Chain rs chain of
        None \<Rightarrow> Inl (TableError (''nodepol: the table has no chain '' @ chain @
                                 '' to put the NodeNetworkPolicy jump in''))
      | Some _ \<Rightarrow>
          Inr (with_chain chain (\<lambda>c. c\<lparr>chain_Rules := chain_Rules c @
                 [rule [] (''jump '' @ dispatch)
                    ''nodenetworkpolicy: everything the safe rules did not accept'']\<rparr>) rs))"

definition note_mode :: "mode \<Rightarrow> string \<Rightarrow> (string \<Rightarrow> mode option) \<Rightarrow> string \<Rightarrow> mode option" where
  "note_mode mode name modes =
     (if modes name \<noteq> Some ModePermissive then modes(name \<mapsto> mode) else modes)"

text \<open>The inner loop of \<open>Add\<close>: one chain, one jump and one reported mode per closing policy.\<close>

definition add_policy ::
  "direction \<Rightarrow> mode \<Rightarrow> 'sel node_network_policy \<Rightarrow>
     ruleset \<times> nft_rule list \<times> (string \<Rightarrow> mode option) \<Rightarrow>
     nodepol_error + ruleset \<times> nft_rule list \<times> (string \<Rightarrow> mode option)" where
  "add_policy d mode p = (\<lambda>(rs, jumps, modes).
     bind_err (chainFor d p) (\<lambda>chain.
       Inr (add_chain chain rs,
            jumps @ [rule [] (''jump '' @ chain_Name chain) (nodepol_comment (nnp_Name p))],
            note_mode mode (nnp_Name p) modes)))"

definition dispatch_for :: "direction \<Rightarrow> mode \<Rightarrow> nft_rule list \<Rightarrow> nft_chain" where
  "dispatch_for d mode jumps =
     \<lparr>chain_Name = d_dispatch d, chain_Base = None, chain_Rules = jumps @ verdict_rules mode,
      chain_Comment = ''NodeNetworkPolicy '' @ d_name d @ '': one jump per policy, then what '' @ mode @
        '' does with the rest''\<rparr>"

definition add_direction ::
  "'sel node_network_policy list \<Rightarrow> direction \<Rightarrow> ruleset \<times> (string \<Rightarrow> mode option) \<Rightarrow>
     nodepol_error + ruleset \<times> (string \<Rightarrow> mode option)" where
  "add_direction selected d = (\<lambda>(rs, modes).
     let closing = closedBy d selected; mode = effectiveMode closing
     in if closing = [] then Inr (rs, modes)
        else
         bind_err (fold_err (add_policy d mode) closing (rs, [], modes)) (\<lambda>(rs, jumps, modes).
         bind_err (jumpFrom (d_chain d) (d_dispatch d) (add_chain (dispatch_for d mode jumps) rs)) (\<lambda>rs.
           Inr (rs, modes))))"

text \<open>
  \<open>Add\<close>: the new table and the mode each policy took effect in. The table passed in is
  not changed where it fails.
\<close>

definition nodepol_Add ::
  "'sel as_selector \<Rightarrow> ruleset \<Rightarrow> node_info \<Rightarrow> 'sel node_network_policy list \<Rightarrow>
     nodepol_error + ruleset \<times> (string \<Rightarrow> mode option)" where
  "nodepol_Add asel rs node policies =
     bind_err (selects asel node policies) (\<lambda>selected.
       fold_err (add_direction selected) [ingress, egress] (rs, Map.empty))"

end
