(* ===== verification/Nodepol_Spec.thy ===== *)
theory Nodepol_Spec
  imports Nodepol
begin

text \<open>
  What a NodeNetworkPolicy promises, said over the API objects and a packet, without tables
  or texts; and the proof that the chains \<open>nodepol.Add\<close> renders decide exactly that.
\<close>

section \<open>The specification\<close>

definition cidr_has :: "string \<Rightarrow> addr \<Rightarrow> bool" where
  "cidr_has c a \<longleftrightarrow> (case ParsePrefix c of Inr p \<Rightarrow> Contains p a | Inl _ \<Rightarrow> False)"

definition block_allows :: "k8s_ipblock \<Rightarrow> addr \<Rightarrow> bool" where
  "block_allows b a \<longleftrightarrow> cidr_has (ipb_CIDR b) a \<and> \<not> list_ex (\<lambda>e. cidr_has e a) (ipb_Except b)"

definition peer_allows :: "nnp_peer \<Rightarrow> addr \<Rightarrow> bool" where
  "peer_allows peer a \<longleftrightarrow> (case nnp_IPBlock peer of None \<Rightarrow> False | Some b \<Rightarrow> block_allows b a)"

definition port_allows :: "nnp_port \<Rightarrow> packet \<Rightarrow> bool" where
  "port_allows port p \<longleftrightarrow>
     pkt_l4 p = l4_name (nnp_Protocol port) \<and>
     (case nnp_Port port of
        None \<Rightarrow> True
      | Some n \<Rightarrow>
          n \<le> uint (pkt_dport p) \<and>
          uint (pkt_dport p) \<le> (case nnp_EndPort port of None \<Rightarrow> n | Some e \<Rightarrow> e))"

definition dir_side :: "direction \<Rightarrow> side" where
  "dir_side d = (if d_policyType d = PolicyTypeIngress then Saddr else Daddr)"

definition entry_allows :: "direction \<Rightarrow> entry \<Rightarrow> packet \<Rightarrow> bool" where
  "entry_allows d e p \<longleftrightarrow>
     (e_peers e = [] \<or> list_ex (\<lambda>peer. peer_allows peer (pkt_addr (dir_side d) p)) (e_peers e)) \<and>
     (e_ports e = [] \<or> list_ex (\<lambda>port. port_allows port p) (e_ports e))"

definition policy_allows :: "direction \<Rightarrow> 'sel node_network_policy \<Rightarrow> packet \<Rightarrow> bool" where
  "policy_allows d pol p \<longleftrightarrow> list_ex (\<lambda>e. entry_allows d e p) (entries d pol)"

text \<open>
  The policies of one direction together: a packet passes where nobody closes the
  direction, where a policy that closes it allows the packet, or where one of them only
  observes.
\<close>

definition direction_passes :: "direction \<Rightarrow> 'sel node_network_policy list \<Rightarrow> packet \<Rightarrow> bool" where
  "direction_passes d policies p \<longleftrightarrow>
     (let closing = filter (closes d) policies
      in closing = [] \<or> list_ex (\<lambda>pol. policy_allows d pol p) closing \<or>
         list_ex (\<lambda>pol. spec_Mode (nnp_Spec pol) \<noteq> ModeEnforce) closing)"

section \<open>The text of one rule\<close>

lemma cidr_prefix_Inr:
  assumes "cidr_prefix c = Inr p"
  shows "ParsePrefix c = Inr p" "Masked p = p" "wf_prefix p" "Prefix_IsValid p"
  using assms ParsePrefix_wf [of c] by (auto simp: cidr_prefix_def split: sum.splits if_splits)

lemma cidr_prefix_denotes:
  assumes "cidr_prefix c = Inr p" "plain_addr a"
  shows "denotes (Prefix_String p) a \<longleftrightarrow> cidr_has c a"
  using denotes_Prefix [of p a] cidr_prefix_Inr [OF assms(1)] assms(2) by (simp add: cidr_has_def)

lemma cidr_prefix_token: "cidr_prefix c = Inr p \<Longrightarrow> prefix_token (Prefix_String p)"
  using Prefix_String_chars [of p] cidr_prefix_Inr [of c p]
  by (simp add: prefix_token_def Prefix_String_def)

lemma portNumber_Inr: "portNumber n = Inr w \<longleftrightarrow> 1 \<le> n \<and> n \<le> 65535 \<and> uint w = n"
proof -
  have "word_of_int n = w \<longleftrightarrow> uint w = n" if "1 \<le> n" "n \<le> 65535"
    using that by (auto simp: uint_word_of_int)
  then show ?thesis by (auto simp: portNumber_def)
qed

lemma protocol_Inr: "protocol q = Inr t \<Longrightarrow> t = l4_name q \<and> t \<in> set port_protocols"
  by (auto simp: protocol_def l4_name_def ToLower_protocols port_protocols_def split: if_splits)

lemma portMatch_atom:
  assumes "portMatch port = Inr t"
  shows "\<exists>q. t = atoms_text [q] \<and> wf_atom q \<and> (\<forall>S p. holds S p q = port_allows port p)"
proof -
  obtain q where q: "protocol (nnp_Protocol port) = Inr q" "q = l4_name (nnp_Protocol port)"
    "q \<in> set port_protocols"
    using assms protocol_Inr unfolding portMatch_def bind_err_Inr by blast
  show ?thesis
  proof (cases "nnp_Port port")
    case None
    then show ?thesis using assms q
      by (intro exI [of _ "L4Proto q"])
         (auto simp: portMatch_def atoms_text_def port_allows_def split: option.splits)
  next
    case (Some n)
    then obtain a where a: "portNumber n = Inr a" using assms q by (auto simp: portMatch_def bind_err_Inr)
    then have ua: "uint a = n" by (simp add: portNumber_Inr)
    then have eq: "pkt_dport p = a \<longleftrightarrow> uint (pkt_dport p) = n" for p
      by (auto simp: word_uint_eq_iff)
    show ?thesis
    proof (cases "nnp_EndPort port")
      case None
      then show ?thesis using assms q a ua Some
        by (intro exI [of _ "DPort q a"])
           (auto simp: portMatch_def atoms_text_def port_allows_def eq)
    next
      case e: (Some e)
      then obtain b where b: "portNumber e = Inr b" "a \<le> b" "t = q @ '' dport '' @ itoa (unat a) @ ''-'' @ itoa (unat b)"
        using assms q a Some by (auto simp: portMatch_def bind_err_Inr not_less split: if_splits)
      then show ?thesis using q ua Some e
        by (intro exI [of _ "DPortRange q a b"])
           (auto simp: atoms_text_def port_allows_def portNumber_Inr word_le_def)
    qed
  qed
qed

lemma except_text_Inr:
  assumes "except_text block e = Inr t"
  obtains x where "cidr_prefix e = Inr x" "t = Prefix_String x"
  using assms by (auto simp: except_text_def bind_err_Inr split: if_splits)

lemma excepts_denote:
  assumes "list_all2 (\<lambda>e t. except_text block e = Inr t) es ts" "plain_addr a"
  shows "list_all prefix_token ts \<and> list_ex (\<lambda>t. denotes t a) ts = list_ex (\<lambda>e. cidr_has e a) es"
  using assms(1)
  by (induction rule: list_all2_induct)
     (auto elim!: except_text_Inr simp: cidr_prefix_token cidr_prefix_denotes [OF _ assms(2)])

lemma peerMatch_atoms:
  assumes "peerMatch (side_text s) peer = Inr t"
  shows "\<exists>as. t = atoms_text as \<and> list_all wf_atom as \<and>
    (\<forall>S p. plain_packet p \<longrightarrow> list_all (holds S p) as = peer_allows peer (pkt_addr s p))"
proof -
  obtain b block where b: "nnp_IPBlock peer = Some b" "cidr_prefix (ipb_CIDR b) = Inr block"
    using assms by (auto simp: peerMatch_def bind_err_Inr split: option.splits)
  let ?f = "prefix_fam block"
  let ?in = "InPrefix ?f s (Prefix_String block)"
  have block: "holds S p ?in = cidr_has (ipb_CIDR b) (pkt_addr s p)" if "plain_packet p" for S p
    using cidr_prefix_denotes [OF b(2) plain_packet_addr [OF that]] cidr_prefix_Inr(1) [OF b(2)]
      Contains_fam [of block]
    by (auto simp: cidr_has_def)
  have fam: "(if Is6 (Prefix_Addr block) then ''ip6'' else ''ip'') = fam_text ?f"
    by (simp add: prefix_fam_def)
  show ?thesis
  proof (cases "ipb_Except b = []")
    case True
    then show ?thesis using assms b block cidr_prefix_token [OF b(2)]
      by (intro exI [of _ "[?in]"])
         (auto simp: peerMatch_def fam atoms_text_def peer_allows_def block_allows_def Let_def)
  next
    case False
    then obtain ts where ts: "list_all2 (\<lambda>e t. except_text block e = Inr t) (ipb_Except b) ts"
      and t: "t = atom_text ?in @ '' '' @ atom_text (NoneOf ?f s ts)"
      using assms b by (auto simp: peerMatch_def fam bind_err_Inr collect_err_Inr Let_def)
    have "ts \<noteq> []" using False ts by auto
    moreover have "list_all prefix_token ts"
      using excepts_denote [OF ts, of "Addr4 0"] by (simp add: plain_addr_def)
    moreover have "of_fam ?f a" if "cidr_has (ipb_CIDR b) a" for a
      using that cidr_prefix_Inr(1) [OF b(2)] Contains_fam [of block a] by (simp add: cidr_has_def)
    ultimately show ?thesis
      using b(1) t block cidr_prefix_token [OF b(2)] excepts_denote [OF ts plain_packet_addr]
      by (intro exI [of _ "[?in, NoneOf ?f s ts]"])
         (auto simp: atoms_text_def peer_allows_def block_allows_def)
  qed
qed

section \<open>The chain of one policy\<close>

lemma collect_atoms:
  assumes "collect f xs = Inr ts"
    and f: "\<And>x t. f x = Inr t \<Longrightarrow> \<exists>as. t = atoms_text as \<and> list_all wf_atom as \<and>
          (\<forall>S p. plain_packet p \<longrightarrow> list_all (holds S p) as = ok x p)"
  obtains ass where "ts = map atoms_text ass" "\<forall>as \<in> set ass. list_all wf_atom as"
    "\<And>S p. plain_packet p \<Longrightarrow> (\<exists>as \<in> set ass. list_all (holds S p) as) \<longleftrightarrow> xs = [] \<or> list_ex (\<lambda>x. ok x p) xs"
proof (cases "xs = []")
  case True
  then show thesis using assms(1) that [of "[[]]"] by (auto simp: collect_def atoms_text_def)
next
  case False
  then have "list_all2 (\<lambda>x t. f x = Inr t) xs ts"
    using assms(1) by (simp add: collect_def collect_err_Inr)
  then have "\<exists>ass. ts = map atoms_text ass \<and> (\<forall>as \<in> set ass. list_all wf_atom as) \<and>
    (\<forall>S p. plain_packet p \<longrightarrow> (\<exists>as \<in> set ass. list_all (holds S p) as) = list_ex (\<lambda>x. ok x p) xs)"
  proof (induction rule: list_all2_induct)
    case (Cons x xs t ts)
    then obtain as ass where "t = atoms_text as" "list_all wf_atom as"
      "\<forall>S p. plain_packet p \<longrightarrow> list_all (holds S p) as = ok x p"
      "ts = map atoms_text ass" "\<forall>as \<in> set ass. list_all wf_atom as"
      "\<forall>S p. plain_packet p \<longrightarrow> (\<exists>as \<in> set ass. list_all (holds S p) as) = list_ex (\<lambda>x. ok x p) xs"
      using f [of x t] by blast
    then show ?case by (intro exI [of _ "as # ass"]) auto
  qed simp
  with False that show thesis by blast
qed

lemma dir_side_text: "d \<in> {ingress, egress} \<Longrightarrow> d_addr d = side_text (dir_side d)"
  by (auto simp: ingress_def egress_def dir_side_def PolicyTypeIngress_def PolicyTypeEgress_def)

context nft_matcher
begin

lemma nodepol_matches_ev:
  assumes d: "d \<in> {ingress, egress}" and m: "nodepol_matches d e = Inr ms" and p: "plain_packet p"
  shows "list_ex (ev S p) ms = entry_allows d e p"
proof -
  obtain ts us where t: "collect (peerMatch (side_text (dir_side d))) (e_peers e) = Inr ts"
    and u: "collect portMatch (e_ports e) = Inr us"
    and ms: "ms = concat (map (\<lambda>peer. map (\<lambda>port. TrimSpace (peer @ '' '' @ port)) us) ts)"
    using m by (auto simp: nodepol_matches_def bind_err_Inr dir_side_text [OF d])
  obtain pas where pas: "ts = map atoms_text pas" "\<forall>as \<in> set pas. list_all wf_atom as"
    "\<And>S p. plain_packet p \<Longrightarrow> (\<exists>as \<in> set pas. list_all (holds S p) as) \<longleftrightarrow>
        e_peers e = [] \<or> list_ex (\<lambda>x. peer_allows x (pkt_addr (dir_side d) p)) (e_peers e)"
    by (rule collect_atoms [OF t, where ok = "\<lambda>x p. peer_allows x (pkt_addr (dir_side d) p)"])
       (use peerMatch_atoms in blast)+
  have one: "portMatch x = Inr t \<Longrightarrow> \<exists>as. t = atoms_text as \<and> list_all wf_atom as \<and>
      (\<forall>S p. plain_packet p \<longrightarrow> list_all (holds S p) as = port_allows x p)" for x t
  proof -
    assume "portMatch x = Inr t"
    then obtain q where "t = atoms_text [q]" "wf_atom q" "\<forall>S p. holds S p q = port_allows x p"
      using portMatch_atom by blast
    then show ?thesis by (intro exI [of _ "[q]"]) simp
  qed
  obtain qas where qas: "us = map atoms_text qas" "\<forall>as \<in> set qas. list_all wf_atom as"
    "\<And>S p. plain_packet p \<Longrightarrow> (\<exists>as \<in> set qas. list_all (holds S p) as) \<longleftrightarrow>
        e_ports e = [] \<or> list_ex (\<lambda>x. port_allows x p) (e_ports e)"
    by (rule collect_atoms [OF u one]) blast+
  have "ev S p (TrimSpace (atoms_text as @ '' '' @ atoms_text bs)) \<longleftrightarrow>
      list_all (holds S p) as \<and> list_all (holds S p) bs" if "as \<in> set pas" "bs \<in> set qas" for as bs
    using that pas(2) qas(2) ev_atoms [of "as @ bs"] TrimSpace_atoms [of as bs] by simp
  then show ?thesis
    using pas(3) [OF p, of S] qas(3) [OF p, of S]
    by (auto simp: ms pas(1) qas(1) list_ex_iff entry_allows_def)
qed

lemma chainFor_ev:
  assumes "d \<in> {ingress, egress}" and "chainFor d pol = Inr c" and "plain_packet p"
  shows "list_ex (\<lambda>x. ev S p (rule_Match x)) (chain_Rules c) = policy_allows d pol p"
proof -
  obtain mss where mss: "list_all2 (\<lambda>e ms. nodepol_matches d e = Inr ms) (entries d pol) mss"
    and c: "chain_Rules c = map (\<lambda>m. rule m ''accept'' (nodepol_comment (nnp_Name pol))) (concat mss)"
    using assms(2) by (auto simp: chainFor_def bind_err_Inr collect_err_Inr)
  have "list_ex (list_ex (ev S p)) mss = list_ex (\<lambda>e. entry_allows d e p) (entries d pol)"
    using mss by (induction rule: list_all2_induct) (simp_all add: nodepol_matches_ev [OF assms(1) _ assms(3)])
  then show ?thesis by (auto simp: c policy_allows_def list_ex_iff)
qed

end

section \<open>The chains of one direction\<close>

definition policy_jump :: "'sel node_network_policy \<Rightarrow> nft_chain \<Rightarrow> nft_rule" where
  "policy_jump pol c = rule [] (''jump '' @ chain_Name c) (nodepol_comment (nnp_Name pol))"

definition dispatch_jump :: "direction \<Rightarrow> nft_rule" where
  "dispatch_jump d =
     rule [] (''jump '' @ d_dispatch d) ''nodenetworkpolicy: everything the safe rules did not accept''"

definition append_rule :: "nft_rule \<Rightarrow> nft_chain \<Rightarrow> nft_chain" where
  "append_rule x c = c\<lparr>chain_Rules := chain_Rules c @ [x]\<rparr>"

lemma append_rule_sel [simp]:
  "chain_Name (append_rule x c) = chain_Name c" "chain_Rules (append_rule x c) = chain_Rules c @ [x]"
  by (simp_all add: append_rule_def)

lemma fold_add_policy:
  "fold_err (add_policy d mode) ps (rs, js, ms) =
     bind_err (collect_err (chainFor d) ps) (\<lambda>cs.
       Inr (fold add_chain cs rs, js @ map2 policy_jump ps cs, fold (\<lambda>p. note_mode mode (nnp_Name p)) ps ms))"
proof (induction ps arbitrary: rs js ms)
  case (Cons p ps)
  then show ?case
    by (cases "chainFor d p"; cases "collect_err (chainFor d) ps") (auto simp: add_policy_def policy_jump_def)
qed simp

lemma add_direction_Inr:
  assumes "closedBy d sel \<noteq> []"
  shows "add_direction sel d (rs, ms) = Inr (rs', ms') \<longleftrightarrow>
    (\<exists>cs. let mode = effectiveMode (closedBy d sel);
              rs1 = add_chain (dispatch_for d mode (map2 policy_jump (closedBy d sel) cs)) (fold add_chain cs rs)
          in collect_err (chainFor d) (closedBy d sel) = Inr cs \<and> Ruleset_Chain rs1 (d_chain d) \<noteq> None \<and>
             rs' = with_chain (d_chain d) (append_rule (dispatch_jump d)) rs1 \<and>
             ms' = fold (\<lambda>p. note_mode mode (nnp_Name p)) (closedBy d sel) ms)"
  using assms
  by (cases "collect_err (chainFor d) (closedBy d sel)")
     (auto simp: add_direction_def Let_def fold_add_policy jumpFrom_def dispatch_jump_def append_rule_def [abs_def]
       split: option.splits)

lemma add_direction_open: "closedBy d sel = [] \<Longrightarrow> add_direction sel d (rs, ms) = Inr (rs, ms)"
  by (simp add: add_direction_def)

lemma add_direction_cases:
  assumes "add_direction sel d (rs, ms) = Inr (rs', ms')"
  obtains (untouched) "closedBy d sel = []" "rs' = rs" "ms' = ms"
    | (closed) cs where "closedBy d sel \<noteq> []" "collect_err (chainFor d) (closedBy d sel) = Inr cs"
        "rs' = with_chain (d_chain d) (append_rule (dispatch_jump d))
           (add_chain (dispatch_for d (effectiveMode (closedBy d sel)) (map2 policy_jump (closedBy d sel) cs))
             (fold add_chain cs rs))"
        "ms' = fold (\<lambda>p. note_mode (effectiveMode (closedBy d sel)) (nnp_Name p)) (closedBy d sel) ms"
  using assms by (cases "closedBy d sel = []") (auto simp: add_direction_open add_direction_Inr Let_def)

lemma add_direction_sets:
  "add_direction sel d (rs, ms) = Inr (rs', ms') \<Longrightarrow> rs_Sets rs' = rs_Sets rs"
  by (erule add_direction_cases) simp_all

text \<open>A direction leaves every chain of the table as it was, but the base chain it jumps from.\<close>

lemma add_direction_keeps:
  assumes "add_direction sel d (rs, ms) = Inr (rs', ms')" "n \<noteq> d_chain d" "Ruleset_Chain rs n = Some c"
  shows "Ruleset_Chain rs' n = Some c"
  using assms(1)
proof (cases rule: add_direction_cases)
  case (closed cs)
  then show ?thesis using assms(2) chains.look_fold_old [OF assms(3), of cs] by simp
qed (use assms in simp)

section \<open>Names\<close>

lemma chainFor_name:
  assumes "chainFor d pol = Inr c"
  shows "Identifier (d_prefix d) [nnp_Name pol] = Inr (chain_Name c)"
    and "accepts_only (chain_Rules c)"
  using assms by (auto simp: chainFor_def bind_err_Inr accepts_only_def list_all_iff)

lemma chainFor_prefix:
  assumes "chainFor d pol = Inr c" "d \<in> {ingress, egress}"
  shows "HasPrefix (chain_Name c) (d_prefix d)"
  using Identifier_prefix [OF chainFor_name(1) [OF assms(1)]] assms(2)
  by (auto simp: ingress_def egress_def)

lemma chainFor_short_name:
  assumes "chainFor d pol = Inr c" "d \<in> {ingress, egress}" "length (nnp_Name pol) \<le> 243"
  shows "chain_Name c = d_prefix d @ nnp_Name pol"
  using chainFor_name(1) [OF assms(1)] assms(2,3)
  by (auto simp: Identifier_Inr ingress_def egress_def)

text \<open>
  A table the policies can be added to: it holds no chain under a name they use. The
  skeleton and the NetworkPolicy renderer leave such a table.
\<close>

definition nodepol_fresh :: "ruleset \<Rightarrow> bool" where
  "nodepol_fresh rs \<longleftrightarrow>
     list_all (\<lambda>c. \<not> HasPrefix (chain_Name c) ''nodepol_'' \<and>
       chain_Name c \<noteq> ChainInputDispatch \<and> chain_Name c \<noteq> ChainOutputDispatch) (rs_Chains rs)"

definition short_names :: "'sel node_network_policy list \<Rightarrow> bool" where
  "short_names ps \<longleftrightarrow> distinct (map nnp_Name ps) \<and> list_all (\<lambda>p. length (nnp_Name p) \<le> 243) ps"

lemma short_names_filter: "short_names ps \<Longrightarrow> short_names (filter P ps)"
  by (simp add: short_names_def list_all_iff distinct_map_filter)

lemma chains_distinct:
  assumes "d \<in> {ingress, egress}" "short_names ps" "collect_err (chainFor d) ps = Inr cs"
  shows "distinct (map chain_Name cs)"
proof -
  have "list_all2 (\<lambda>p c. chainFor d p = Inr c) ps cs"
    using assms(3) by (simp add: collect_err_Inr)
  then have "map chain_Name cs = map (\<lambda>p. d_prefix d @ nnp_Name p) ps"
    using assms(2) by (induction rule: list_all2_induct)
      (auto simp: short_names_def chainFor_short_name [OF _ assms(1)])
  moreover have "distinct (map (\<lambda>p. d_prefix d @ nnp_Name p) ps)"
    using assms(2) by (auto simp: short_names_def distinct_map inj_on_def)
  ultimately show ?thesis by simp
qed

section \<open>One direction, installed\<close>

definition installed ::
  "direction \<Rightarrow> 'sel node_network_policy list \<Rightarrow> nft_chain \<Rightarrow> ruleset \<Rightarrow> bool" where
  "installed d sel base r \<longleftrightarrow>
     (if closedBy d sel = [] then Ruleset_Chain r (d_chain d) = Some base
      else \<exists>cs. collect_err (chainFor d) (closedBy d sel) = Inr cs \<and>
        Ruleset_Chain r (d_chain d) = Some (append_rule (dispatch_jump d) base) \<and>
        Ruleset_Chain r (d_dispatch d) =
          Some (dispatch_for d (effectiveMode (closedBy d sel)) (map2 policy_jump (closedBy d sel) cs)) \<and>
        (\<forall>c \<in> set cs. Ruleset_Chain r (chain_Name c) = Some c))"

lemma direction_names:
  assumes "d \<in> {ingress, egress}" and "d' \<in> {ingress, egress}"
  shows "\<not> HasPrefix (d_chain d) ''nodepol_''" "\<not> HasPrefix (d_dispatch d) ''nodepol_''"
    "HasPrefix s (d_prefix d) \<Longrightarrow> HasPrefix s ''nodepol_''"
    "d_dispatch d \<in> {ChainInputDispatch, ChainOutputDispatch}" "d_dispatch d \<noteq> d_chain d'"
  using assms
  by (auto simp: ingress_def egress_def HasPrefix_iff ChainInput_def ChainOutput_def
      ChainInputDispatch_def ChainOutputDispatch_def)

lemma fresh_None:
  assumes "nodepol_fresh rs"
  shows "HasPrefix n ''nodepol_'' \<or> n \<in> {ChainInputDispatch, ChainOutputDispatch} \<Longrightarrow> Ruleset_Chain rs n = None"
  using assms by (auto simp: nodepol_fresh_def Ruleset_Chain_def find_None_iff list_all_iff)

lemma chainFor_all_prefix:
  assumes "d \<in> {ingress, egress}" "collect_err (chainFor d) ps = Inr cs" "c \<in> set cs"
  shows "HasPrefix (chain_Name c) (d_prefix d)"
  using assms(2,3) chainFor_prefix [OF _ assms(1)]
  by (fastforce simp: collect_err_Inr list_all2_conv_all_nth in_set_conv_nth)

lemma add_direction_installs:
  assumes d: "d \<in> {ingress, egress}" and add: "add_direction sel d (rs, ms) = Inr (rs', ms')"
    and base: "Ruleset_Chain rs (d_chain d) = Some base" and sel: "short_names sel"
    and fresh: "\<And>n. HasPrefix n (d_prefix d) \<or> n = d_dispatch d \<Longrightarrow> Ruleset_Chain rs n = None"
  shows "installed d sel base rs'"
  using add
proof (cases rule: add_direction_cases)
  case (closed cs)
  note pre = chainFor_all_prefix [OF d closed(2)]
  have dist: "distinct (map chain_Name cs)"
    using chains_distinct [OF d _ closed(2)] short_names_filter [OF sel] by (simp add: closedBy_def)
  have new: "c \<in> set cs \<Longrightarrow> Ruleset_Chain (fold add_chain cs rs) (chain_Name c) = Some c" for c
    using chains.look_fold_mem [OF fresh dist] pre by blast
  have "d_dispatch d \<notin> chain_Name ` set cs"
    using pre direction_names(3) [OF d d, of "d_dispatch d"] direction_names(2) [OF d d] by auto
  then have disp: "Ruleset_Chain (fold add_chain cs rs) (d_dispatch d) = None"
    using fresh [of "d_dispatch d"] by (simp add: chains.look_fold_other)
  have "chain_Name c \<noteq> d_chain d" if "c \<in> set cs" for c
    using pre [OF that] direction_names(1,3) [OF d d] by metis
  then show ?thesis
    using closed(1-3) disp new chains.look_fold_old [OF base] direction_names(5) [OF d d]
    by (auto simp: installed_def dispatch_for_def)
qed (use base in \<open>simp add: installed_def\<close>)

lemma installed_keeps:
  assumes "installed d sel base r" "d \<in> {ingress, egress}" "d' \<in> {ingress, egress}" "d_chain d \<noteq> d_chain d'"
    and add: "add_direction sel' d' (r, ms) = Inr (r', ms')"
  shows "installed d sel base r'"
proof -
  note keep = add_direction_keeps [OF add]
  have "chain_Name c \<noteq> d_chain d'" if "collect_err (chainFor d) (closedBy d sel) = Inr cs" "c \<in> set cs" for cs c
    using chainFor_all_prefix [OF assms(2) that] direction_names(3) [OF assms(2,2)]
      direction_names(1) [OF assms(3,3)] by metis
  with assms(1,4) keep direction_names(5) [OF assms(2,3)] show ?thesis
    unfolding installed_def by (auto split: if_splits)
qed

lemma add_direction_fresh:
  assumes d: "d \<in> {ingress, egress}" and add: "add_direction sel d (rs, ms) = Inr (rs', ms')"
    and n: "Ruleset_Chain rs n = None" "\<not> HasPrefix n (d_prefix d)" "n \<noteq> d_dispatch d"
  shows "Ruleset_Chain rs' n = None"
  using add
proof (cases rule: add_direction_cases)
  case (closed cs)
  then have "n \<notin> chain_Name ` set cs"
    using chainFor_all_prefix [OF d closed(2)] n(2) by auto
  then show ?thesis using closed n chains.look_fold_other [of n cs rs]
    by (auto simp: dispatch_for_def)
qed (use n in simp)

lemma prefixes_differ: "HasPrefix s ''nodepol_out_'' \<Longrightarrow> \<not> HasPrefix s ''nodepol_in_''"
  by (auto simp: HasPrefix_iff)

lemma nodepol_Add_installs:
  assumes add: "nodepol_Add asel rs node policies = Inr (rs', modes)" and sel: "selects asel node policies = Inr sel"
    and base: "Ruleset_Chain rs ChainInput = Some bi" "Ruleset_Chain rs ChainOutput = Some bo"
    and fresh: "nodepol_fresh rs" and short: "short_names sel"
  shows "installed ingress sel bi rs'" "installed egress sel bo rs'" "rs_Sets rs' = rs_Sets rs"
proof -
  obtain rs1 ms1 where i: "add_direction sel ingress (rs, Map.empty) = Inr (rs1, ms1)"
    and e: "add_direction sel egress (rs1, ms1) = Inr (rs', modes)"
    using add sel by (auto simp: nodepol_Add_def bind_err_Inr)
  have nm: "d_chain ingress = ChainInput" "d_chain egress = ChainOutput" "d_prefix ingress = ''nodepol_in_''"
    "d_prefix egress = ''nodepol_out_''" "d_dispatch ingress = ChainInputDispatch"
    "d_dispatch egress = ChainOutputDispatch" "ChainInput \<noteq> ChainOutput" "ChainInputDispatch \<noteq> ChainOutputDispatch"
    "\<not> HasPrefix ChainOutputDispatch ''nodepol_in_''" "\<not> HasPrefix ChainInputDispatch ''nodepol_out_''"
    by (simp_all add: ingress_def egress_def ChainInput_def ChainOutput_def ChainInputDispatch_def
        ChainOutputDispatch_def HasPrefix_def)
  have none: "Ruleset_Chain rs n = None" if "d \<in> {ingress, egress}" "HasPrefix n (d_prefix d) \<or> n = d_dispatch d" for n d
    using direction_names(3) [OF that(1,1), of n] direction_names(4) [OF that(1,1)] that(2)
    by (intro fresh_None [OF fresh]) auto
  have "installed ingress sel bi rs1"
    by (rule add_direction_installs [OF _ i]) (use base none [of ingress] short nm in auto)
  then show "installed ingress sel bi rs'"
    by (rule installed_keeps [OF _ _ _ _ e]) (use nm in auto)
  have "Ruleset_Chain rs1 n = None" if "HasPrefix n (d_prefix egress) \<or> n = d_dispatch egress" for n
    by (rule add_direction_fresh [OF _ i]) (use none [of egress] that nm prefixes_differ [of n] in auto)
  moreover have "Ruleset_Chain rs1 ChainOutput = Some bo"
    by (rule add_direction_keeps [OF i]) (use nm base in auto)
  ultimately show "installed egress sel bo rs'"
    by (intro add_direction_installs [OF _ e]) (use short nm in auto)
  show "rs_Sets rs' = rs_Sets rs"
    using add_direction_sets [OF i] add_direction_sets [OF e] by simp
qed

section \<open>What the installed chains decide\<close>

lemma effectiveMode_Enforce:
  "effectiveMode ps = ModeEnforce \<longleftrightarrow> list_all (\<lambda>p. spec_Mode (nnp_Spec p) = ModeEnforce) ps"
  by (induction ps) (auto simp: ModeEnforce_def ModePermissive_def)

lemma walk_policy_jumps:
  assumes "list_all2 (\<lambda>pol c. chainFor d pol = Inr c) ps cs" "m []"
    and "\<forall>c \<in> set cs. Ruleset_Chain r (chain_Name c) = Some c"
  shows "walk (Suc k) m r (map2 policy_jump ps cs) =
    (if list_ex (\<lambda>c. list_ex (\<lambda>x. m (rule_Match x)) (chain_Rules c)) cs then Accepted else Fell)"
  using assms
  by (induction rule: list_all2_induct) (auto simp: policy_jump_def walk_accepts chainFor_name(2))

lemma walk_verdict_rules:
  assumes "m []"
  shows "walk k m r (verdict_rules mode) = (if mode = ModeEnforce then Dropped else Fell)"
  using assms by (auto simp: verdict_rules_def verdict_of_def HasPrefix_def logPrefix_def)

lemma direction_passes_iff:
  "direction_passes d sel p \<longleftrightarrow>
     closedBy d sel = [] \<or> list_ex (\<lambda>pol. policy_allows d pol p) (closedBy d sel) \<or>
     effectiveMode (closedBy d sel) \<noteq> ModeEnforce"
  by (auto simp: direction_passes_def closedBy_def effectiveMode_Enforce Let_def list_ex_iff list_all_iff)

context nft_matcher
begin

lemma installed_hook:
  assumes d: "d \<in> {ingress, egress}" and inst: "installed d sel base r"
    and base: "accepts_only (chain_Rules base)" and p: "plain_packet p"
  shows "hook ev r (d_chain d) p =
    (if list_ex (\<lambda>x. ev (rs_Sets r) p (rule_Match x)) (chain_Rules base) \<or> direction_passes d sel p
     then Accepted else Dropped)"
proof (cases "closedBy d sel = []")
  case True
  then show ?thesis using inst base
    by (auto simp: installed_def hook_def walk_accepts direction_passes_iff)
next
  case False
  let ?m = "ev (rs_Sets r) p" and ?ps = "closedBy d sel"
  obtain cs where cs: "list_all2 (\<lambda>pol c. chainFor d pol = Inr c) ?ps cs"
    "\<forall>c \<in> set cs. Ruleset_Chain r (chain_Name c) = Some c"
    and b: "Ruleset_Chain r (d_chain d) = Some (append_rule (dispatch_jump d) base)"
    and disp: "Ruleset_Chain r (d_dispatch d) = Some (dispatch_for d (effectiveMode ?ps) (map2 policy_jump ?ps cs))"
    using inst False by (auto simp: installed_def collect_err_Inr)
  have "list_ex (\<lambda>c. list_ex (\<lambda>x. ?m (rule_Match x)) (chain_Rules c)) cs =
      list_ex (\<lambda>pol. policy_allows d pol p) ?ps"
    using cs(1) by (induction rule: list_all2_induct) (simp_all add: chainFor_ev [OF d _ p])
  then have "walk (Suc k) ?m r (chain_Rules (dispatch_for d (effectiveMode ?ps) (map2 policy_jump ?ps cs))) =
      (if list_ex (\<lambda>pol. policy_allows d pol p) ?ps then Accepted
       else if effectiveMode ?ps = ModeEnforce then Dropped else Fell)" for k
    using walk_policy_jumps [OF cs(1) _ cs(2), of ?m k] ev_any walk_verdict_rules [of ?m]
    by (simp add: dispatch_for_def walk_append)
  then have "walk (Suc (Suc k)) ?m r [dispatch_jump d] =
      (if list_ex (\<lambda>pol. policy_allows d pol p) ?ps then Accepted
       else if effectiveMode ?ps = ModeEnforce then Dropped else Fell)" for k
    using disp ev_any by (simp add: dispatch_jump_def)
  then have "walk jump_stack ?m r [dispatch_jump d] =
      (if list_ex (\<lambda>pol. policy_allows d pol p) ?ps then Accepted
       else if effectiveMode ?ps = ModeEnforce then Dropped else Fell)"
    using jump_stack_Suc by metis
  then show ?thesis
    using b False
    by (simp add: hook_def walk_append walk_accepts [OF base] direction_passes_iff del: walk.simps)
qed

end

section \<open>Which policies select the node\<close>

definition selected_by :: "'sel as_selector \<Rightarrow> node_info \<Rightarrow> 'sel node_network_policy \<Rightarrow> bool" where
  "selected_by asel node pol \<longleftrightarrow>
     (case asel (spec_NodeSelector (nnp_Spec pol)) of Inl _ \<Rightarrow> False | Inr f \<Rightarrow> f (ni_Labels node))"

lemma matching_policies_Inr:
  "matching_policies asel ls ps = Inr sel \<Longrightarrow>
     sel = filter (\<lambda>p. case asel (spec_NodeSelector (nnp_Spec p)) of Inl _ \<Rightarrow> False | Inr f \<Rightarrow> f ls) ps"
  by (induction ps arbitrary: sel) (auto simp: bind_err_Inr)

lemma selects_Inr:
  "selects asel node ps = Inr sel \<Longrightarrow> sel = sort_key nnp_Name (filter (selected_by asel node) ps)"
  by (auto simp: selects_def bind_err_Inr selected_by_def [abs_def] dest!: matching_policies_Inr)

lemma direction_passes_cong: "set ps = set qs \<Longrightarrow> direction_passes d ps p = direction_passes d qs p"
  by (auto simp: direction_passes_def Let_def list_ex_iff filter_empty_conv)

lemma short_names_sorted: "short_names ps \<Longrightarrow> short_names (sort_key nnp_Name (filter P ps))"
proof -
  assume "short_names ps"
  then have "short_names (filter P ps)" by (rule short_names_filter)
  moreover have "distinct (map nnp_Name (sort_key nnp_Name qs)) = distinct (map nnp_Name qs)"
    for qs :: "'a node_network_policy list"
    by (metis mset_eq_imp_distinct_iff mset_map mset_sort)
  ultimately show ?thesis by (simp add: short_names_def list_all_iff)
qed

lemma nodepol_Add_selects: "nodepol_Add asel rs node ps = Inr out \<Longrightarrow> \<exists>sel. selects asel node ps = Inr sel"
  by (auto simp: nodepol_Add_def bind_err_Inr)

lemma nodepol_Add_both:
  assumes "nodepol_Add asel rs node policies = Inr (rs', modes)" "nodepol_fresh rs" "short_names policies"
    and "Ruleset_Chain rs ChainInput = Some bi" "Ruleset_Chain rs ChainOutput = Some bo"
  shows "\<exists>sel. set sel = set (filter (selected_by asel node) policies) \<and>
    installed ingress sel bi rs' \<and> installed egress sel bo rs' \<and> rs_Sets rs' = rs_Sets rs"
proof -
  obtain sel where sel: "selects asel node policies = Inr sel"
    using nodepol_Add_selects [OF assms(1)] by blast
  then have s: "sel = sort_key nnp_Name (filter (selected_by asel node) policies)"
    by (rule selects_Inr)
  have "short_names sel" using short_names_sorted [OF assms(3)] by (simp add: s)
  then show ?thesis
    using nodepol_Add_installs [OF assms(1) sel assms(4,5,2)] s by (intro exI [of _ sel]) auto
qed

section \<open>Which policies are refused\<close>

definition valid_port :: "nnp_port \<Rightarrow> bool" where
  "valid_port port \<longleftrightarrow>
     nnp_Protocol port \<in> {[], ''TCP'', ''UDP'', ''SCTP''} \<and>
     (case nnp_Port port of
        None \<Rightarrow> nnp_EndPort port = None
      | Some n \<Rightarrow> 1 \<le> n \<and> n \<le> 65535 \<and>
          (case nnp_EndPort port of None \<Rightarrow> True | Some e \<Rightarrow> n \<le> e \<and> e \<le> 65535))"

definition valid_cidr :: "string \<Rightarrow> bool" where
  "valid_cidr c \<longleftrightarrow> (case ParsePrefix c of Inl _ \<Rightarrow> False | Inr p \<Rightarrow> Masked p = p)"

definition cidr_v6 :: "string \<Rightarrow> bool" where
  "cidr_v6 c \<longleftrightarrow> (case ParsePrefix c of Inl _ \<Rightarrow> False | Inr p \<Rightarrow> Is6 (Prefix_Addr p))"

definition valid_peer :: "nnp_peer \<Rightarrow> bool" where
  "valid_peer peer \<longleftrightarrow>
     (case nnp_IPBlock peer of
        None \<Rightarrow> False
      | Some b \<Rightarrow> valid_cidr (ipb_CIDR b) \<and>
          list_all (\<lambda>e. valid_cidr e \<and> cidr_v6 e = cidr_v6 (ipb_CIDR b)) (ipb_Except b))"

definition valid_entry :: "entry \<Rightarrow> bool" where
  "valid_entry e \<longleftrightarrow> list_all valid_peer (e_peers e) \<and> list_all valid_port (e_ports e)"

definition valid_policy :: "direction \<Rightarrow> 'sel node_network_policy \<Rightarrow> bool" where
  "valid_policy d p \<longleftrightarrow> identifierPart (nnp_Name p) \<and> list_all valid_entry (entries d p)"

lemma portNumber_isl: "isl (portNumber n) \<longleftrightarrow> \<not> (1 \<le> n \<and> n \<le> 65535)"
  by (auto simp: portNumber_def)

lemma portMatch_isl: "isl (portMatch port) \<longleftrightarrow> \<not> valid_port port"
proof -
  have "isl (protocol (nnp_Protocol port)) \<longleftrightarrow> nnp_Protocol port \<notin> {[], ''TCP'', ''UDP'', ''SCTP''}"
    by (auto simp: protocol_def)
  moreover have "projr (portNumber e) < projr (portNumber n) \<longleftrightarrow> e < n"
    if "1 \<le> n" "n \<le> 65535" "1 \<le> e" "e \<le> 65535" for n e
    using that by (simp add: portNumber_def word_less_def uint_word_of_int)
  ultimately show ?thesis
    by (auto simp: portMatch_def isl_bind_err valid_port_def portNumber_isl not_less split: option.splits)
qed

lemma cidr_prefix_isl: "isl (cidr_prefix c) \<longleftrightarrow> \<not> valid_cidr c"
  by (auto simp: cidr_prefix_def valid_cidr_def split: sum.splits)

lemma cidr_prefix_v6: "valid_cidr c \<Longrightarrow> Is6 (Prefix_Addr (projr (cidr_prefix c))) = cidr_v6 c"
  by (auto simp: cidr_prefix_def valid_cidr_def cidr_v6_def split: sum.splits)

lemma projr_map_err: "\<not> isl m \<Longrightarrow> projr (map_err f m) = projr m"
  by (cases m) auto

lemma except_text_isl:
  "isl (except_text block e) \<longleftrightarrow> \<not> (valid_cidr e \<and> cidr_v6 e = Is6 (Prefix_Addr block))"
  using cidr_prefix_v6 [of e]
  by (auto simp: except_text_def isl_bind_err cidr_prefix_isl projr_map_err)

lemma peerMatch_isl: "isl (peerMatch addr peer) \<longleftrightarrow> \<not> valid_peer peer"
proof (cases "nnp_IPBlock peer")
  case (Some b)
  then show ?thesis using cidr_prefix_v6 [of "ipb_CIDR b"]
    by (cases "valid_cidr (ipb_CIDR b)")
       (auto simp: peerMatch_def valid_peer_def isl_bind_err cidr_prefix_isl projr_map_err isl_collect_err
         except_text_isl Let_def list_ex_iff list_all_iff)
qed (simp add: peerMatch_def valid_peer_def)

lemma collect_isl: "isl (collect f xs) \<longleftrightarrow> list_ex (\<lambda>x. isl (f x)) xs"
  by (auto simp: collect_def isl_collect_err)

lemma chainFor_isl: "isl (chainFor d p) \<longleftrightarrow> \<not> valid_policy d p"
proof -
  have "isl (Identifier pre [n]) \<longleftrightarrow> \<not> identifierPart n" for pre n
    by (auto simp: Identifier_def Let_def)
  then show ?thesis
    by (auto simp: chainFor_def isl_bind_err isl_collect_err nodepol_matches_def collect_isl peerMatch_isl
        portMatch_isl valid_policy_def valid_entry_def list_ex_iff list_all_iff)
qed

lemma matching_policies_isl:
  "isl (matching_policies asel ls ps) \<longleftrightarrow> list_ex (\<lambda>p. isl (asel (spec_NodeSelector (nnp_Spec p)))) ps"
  by (induction ps) (auto simp: isl_bind_err)

lemma selects_isl:
  "isl (selects asel node ps) \<longleftrightarrow> list_ex (\<lambda>p. isl (asel (spec_NodeSelector (nnp_Spec p)))) ps"
  by (auto simp: selects_def isl_bind_err matching_policies_isl)

lemma add_direction_isl:
  assumes "Ruleset_Chain rs (d_chain d) \<noteq> None"
  shows "isl (add_direction sel d (rs, ms)) \<longleftrightarrow> list_ex (\<lambda>p. \<not> valid_policy d p) (closedBy d sel)"
proof (cases "collect_err (chainFor d) (closedBy d sel)")
  case (Inl e)
  then have "list_ex (\<lambda>p. \<not> valid_policy d p) (closedBy d sel)"
    using isl_collect_err [of "chainFor d" "closedBy d sel"] by (simp add: chainFor_isl)
  then show ?thesis using Inl
    by (auto simp: add_direction_def Let_def fold_add_policy)
next
  case (Inr cs)
  then have ok: "\<not> list_ex (\<lambda>p. \<not> valid_policy d p) (closedBy d sel)"
    using isl_collect_err [of "chainFor d" "closedBy d sel"] by (simp add: chainFor_isl)
  obtain c where "Ruleset_Chain rs (d_chain d) = Some c" using assms by blast
  then have "Ruleset_Chain (fold add_chain cs rs) (d_chain d) = Some c"
    by (rule chains.look_fold_old)
  then show ?thesis using Inr ok
    by (auto simp: add_direction_def Let_def fold_add_policy jumpFrom_def)
qed

definition refused :: "'sel as_selector \<Rightarrow> node_info \<Rightarrow> 'sel node_network_policy \<Rightarrow> bool" where
  "refused asel node p \<longleftrightarrow>
     isl (asel (spec_NodeSelector (nnp_Spec p))) \<or>
     (selected_by asel node p \<and> list_ex (\<lambda>d. closes d p \<and> \<not> valid_policy d p) [ingress, egress])"

definition blames :: "nodepol_error \<Rightarrow> 'sel node_network_policy \<Rightarrow> bool" where
  "blames e p \<longleftrightarrow> (case e of PolicyError n m \<Rightarrow> n = nnp_Name p | TableError m \<Rightarrow> False)"

lemma chainFor_blames: "chainFor d p = Inl e \<Longrightarrow> blames e p \<and> \<not> valid_policy d p"
  using chainFor_isl [of d p]
  by (auto simp: chainFor_def bind_err_Inl blames_def map_err_Inl)

lemma matching_policies_blames:
  "matching_policies asel ls ps = Inl e \<Longrightarrow>
     \<exists>p \<in> set ps. blames e p \<and> isl (asel (spec_NodeSelector (nnp_Spec p)))"
  by (induction ps) (auto simp: bind_err_Inl blames_def map_err_Inl)

lemma add_direction_blames:
  assumes "add_direction sel d (rs, ms) = Inl e" "Ruleset_Chain rs (d_chain d) \<noteq> None"
  shows "\<exists>p \<in> set (closedBy d sel). blames e p \<and> \<not> valid_policy d p"
proof (cases "collect_err (chainFor d) (closedBy d sel)")
  case (Inl e')
  then have "e' = e" using assms(1) by (auto simp: add_direction_def Let_def fold_add_policy split: if_splits)
  then show ?thesis using collect_err_Inl [OF Inl] chainFor_blames by blast
next
  case (Inr cs)
  then show ?thesis
    using assms add_direction_isl [OF assms(2), of sel ms] isl_collect_err [of "chainFor d" "closedBy d sel"]
    by (simp add: chainFor_isl)
qed

lemma nodepol_Add_split:
  "nodepol_Add asel rs node ps =
     bind_err (selects asel node ps) (\<lambda>sel.
     bind_err (add_direction sel ingress (rs, Map.empty)) (add_direction sel egress))"
  by (simp add: nodepol_Add_def fold_err_two del: fold_err.simps)

lemma nodepol_Add_steps:
  assumes "nodepol_Add asel rs node ps = Inr (rs', modes)"
  obtains sel rs1 ms1 where "selects asel node ps = Inr sel"
    "add_direction sel ingress (rs, Map.empty) = Inr (rs1, ms1)"
    "add_direction sel egress (rs1, ms1) = Inr (rs', modes)"
  using assms by (auto simp: nodepol_Add_split bind_err_Inr)

lemma direction_chains: "d_chain ingress = ChainInput" "d_chain egress = ChainOutput" "ChainOutput \<noteq> ChainInput"
  by (simp_all add: ingress_def egress_def ChainInput_def ChainOutput_def)

lemma nodepol_Add_Inl:
  assumes "Ruleset_Chain rs ChainInput \<noteq> None" "Ruleset_Chain rs ChainOutput \<noteq> None"
    and "nodepol_Add asel rs node ps = Inl e"
  shows "\<exists>p \<in> set ps. blames e p \<and> refused asel node p"
proof (cases "selects asel node ps")
  case (Inl e')
  then show ?thesis
    using assms(3) by (auto simp: nodepol_Add_split selects_def bind_err_Inl refused_def dest!: matching_policies_blames)
next
  case (Inr sel)
  have who: "\<exists>p \<in> set ps. blames e p \<and> refused asel node p"
    if "p \<in> set (closedBy d sel)" "blames e p" "\<not> valid_policy d p" "d \<in> {ingress, egress}" for d p
    using that selects_Inr [OF Inr] by (auto simp: closedBy_def refused_def)
  show ?thesis
  proof (cases "add_direction sel ingress (rs, Map.empty)")
    case (Inl e')
    then show ?thesis
      using assms Inr who [where d = ingress] add_direction_blames [OF Inl]
      by (auto simp: nodepol_Add_split direction_chains)
  next
    case i: (Inr st)
    obtain rs1 ms1 where st: "st = (rs1, ms1)" by (cases st)
    then have "Ruleset_Chain rs1 (d_chain egress) \<noteq> None"
      using add_direction_keeps [OF i [unfolded st]] assms(2) by (auto simp: direction_chains)
    then show ?thesis
      using assms Inr i st who [where d = egress] add_direction_blames [of sel egress rs1 ms1 e]
      by (auto simp: nodepol_Add_split)
  qed
qed

lemma nodepol_Add_Inr:
  assumes "nodepol_Add asel rs node ps = Inr out" "p \<in> set ps"
  shows "\<not> refused asel node p"
proof -
  obtain sel st where sel: "selects asel node ps = Inr sel"
    and i: "add_direction sel ingress (rs, Map.empty) = Inr st" and e: "add_direction sel egress st = Inr out"
    using assms(1) by (auto simp: nodepol_Add_split bind_err_Inr)
  have ok: "valid_policy d p" if "add_direction sel d st = Inr out" "p \<in> set (closedBy d sel)" for d st out
    using that isl_collect_err [of "chainFor d" "closedBy d sel"]
    by (cases st; cases out) (auto elim!: add_direction_cases simp: chainFor_isl list_ex_iff)
  have "\<not> isl (asel (spec_NodeSelector (nnp_Spec p)))"
    using sel assms(2) selects_isl [of asel node ps] by (auto simp: list_ex_iff)
  moreover have "p \<in> set sel" if "selected_by asel node p"
    using that selects_Inr [OF sel] assms(2) by simp
  ultimately show ?thesis
    using ok [OF i] ok [OF e] by (auto simp: refused_def closedBy_def)
qed

section \<open>The base chains and the sets afterwards\<close>

lemma add_direction_same:
  assumes "add_direction sel d (rs, ms) = Inr (rs', ms')" "Ruleset_Chain rs n = Some c"
    and "n = d_chain d \<Longrightarrow> closedBy d sel = []"
  shows "Ruleset_Chain rs' n = Some c"
  using assms add_direction_keeps [OF assms(1) _ assms(2)]
  by (cases "n = d_chain d") (auto simp: add_direction_open)

lemma add_direction_base:
  assumes "add_direction sel d (rs, ms) = Inr (rs', ms')" "Ruleset_Chain rs n = Some c"
  shows "\<exists>c' more. Ruleset_Chain rs' n = Some c' \<and> chain_Rules c' = chain_Rules c @ more"
  using assms(1)
proof (cases rule: add_direction_cases)
  case (closed cs)
  then show ?thesis using chains.look_fold_old [OF assms(2), of cs]
    by (cases "n = d_chain d") auto
qed (use assms(2) in auto)

lemma nodepol_Add_base:
  assumes "nodepol_Add asel rs node ps = Inr (rs', modes)" "Ruleset_Chain rs n = Some c"
  shows "\<exists>c' more. Ruleset_Chain rs' n = Some c' \<and> chain_Rules c' = chain_Rules c @ more"
proof -
  obtain sel rs1 ms1 where "selects asel node ps = Inr sel"
    and i: "add_direction sel ingress (rs, Map.empty) = Inr (rs1, ms1)"
    and e: "add_direction sel egress (rs1, ms1) = Inr (rs', modes)"
    using assms(1) by (rule nodepol_Add_steps)
  then show ?thesis
    using add_direction_base [OF i assms(2)] add_direction_base [OF e] by fastforce
qed

lemma add_direction_bases:
  assumes "add_direction sel d (rs, ms) = Inr (rs', ms')"
  shows "bases rs' = bases rs"
proof -
  have "bases (fst st') = bases rs"
    if "fold_err (add_policy d mode) ps (rs, [], ms) = Inr st'" for ps mode st'
    using that by (rule fold_err_invariant) (auto simp: add_policy_def chainFor_def bind_err_Inr)
  then show ?thesis
    using assms
    by (fastforce simp: add_direction_def Let_def bind_err_Inr jumpFrom_def dispatch_for_def bases_with_chain
        split: if_splits option.splits)
qed

lemma nodepol_Add_bases: "nodepol_Add asel rs node ps = Inr (rs', modes) \<Longrightarrow> bases rs' = bases rs"
  by (auto simp: nodepol_Add_split bind_err_Inr dest!: add_direction_bases)

lemma nodepol_Add_sets: "nodepol_Add asel rs node ps = Inr (rs', modes) \<Longrightarrow> rs_Sets rs' = rs_Sets rs"
  by (auto simp: nodepol_Add_split bind_err_Inr dest!: add_direction_sets)

section \<open>The reported modes\<close>

lemma effectiveMode_Permissive: "effectiveMode ps = ModePermissive \<longleftrightarrow> effectiveMode ps \<noteq> ModeEnforce"
  by (induction ps) (auto simp: ModeEnforce_def ModePermissive_def)

lemma fold_note_mode:
  "fold (\<lambda>p. note_mode mode (nnp_Name p)) ps ms n =
     (if n \<in> nnp_Name ` set ps \<and> ms n \<noteq> Some ModePermissive then Some mode else ms n)"
  by (induction ps arbitrary: ms) (auto simp: note_mode_def)

lemma add_direction_modes:
  "add_direction sel d (rs, ms) = Inr (rs', ms') \<Longrightarrow>
     ms' n = (if n \<in> nnp_Name ` set (closedBy d sel) \<and> ms n \<noteq> Some ModePermissive
              then Some (effectiveMode (closedBy d sel)) else ms n)"
  by (erule add_direction_cases) (auto simp: fold_note_mode)

text \<open>Whether a direction of the node only observes: some selecting policy that closes it does.\<close>

definition observes :: "direction \<Rightarrow> 'sel node_network_policy list \<Rightarrow> bool" where
  "observes d policies \<longleftrightarrow> list_ex (\<lambda>q. closes d q \<and> spec_Mode (nnp_Spec q) \<noteq> ModeEnforce) policies"

lemma observes_effectiveMode: "observes d sel \<longleftrightarrow> effectiveMode (closedBy d sel) \<noteq> ModeEnforce"
  by (auto simp: observes_def effectiveMode_Enforce closedBy_def list_ex_iff list_all_iff)

section \<open>A concrete node\<close>

text \<open>
  The instance the witnesses evaluate: a node with the pod CIDR 10.0.0.0/24, the default
  safe ports and one enforcing policy that admits TCP 5432 from 192.0.2.0/24, except its
  upper half, and says nothing of egress but DNS-like UDP 5353.
\<close>

definition ex_params :: params where
  "ex_params = \<lparr>PodCIDRs = [Prefix (Addr4 0x0A000000) 24], ClusterPodCIDRs = [Prefix (Addr4 0x0A000000) 16],
     SafePorts = DefaultSafePorts\<rparr>"

definition ex_table :: ruleset where
  "ex_table = \<lparr>rs_Sets = Render_sets ex_params, rs_Chains = Render_chains DefaultSafePorts\<rparr>"

definition ex_asel :: "unit as_selector" where
  "ex_asel s = Inr (\<lambda>ls. True)"

definition ex_node :: node_info where
  "ex_node = \<lparr>ni_Name = ''n1'', ni_Labels = (\<lambda>k. None)\<rparr>"

definition ex_policy :: "unit node_network_policy" where
  "ex_policy = \<lparr>nnp_Name = ''db'', nnp_Generation = 1,
     nnp_Spec = \<lparr>spec_Mode = ModeEnforce, spec_NodeSelector = (), spec_PolicyTypes = [],
       spec_Ingress =
         [\<lparr>ir_From = [\<lparr>nnp_IPBlock = Some \<lparr>ipb_CIDR = ''192.0.2.0/24'', ipb_Except = [''192.0.2.128/25'']\<rparr>\<rparr>],
           ir_Ports = [\<lparr>nnp_Protocol = ''TCP'', nnp_Port = Some 5432, nnp_EndPort = None\<rparr>]\<rparr>],
       spec_Egress =
         [\<lparr>er_To = [], er_Ports = [\<lparr>nnp_Protocol = ''UDP'', nnp_Port = Some 5353, nnp_EndPort = None\<rparr>]\<rparr>]\<rparr>,
     nnp_Status_Nodes = []\<rparr>"

definition ex_packet :: "32 word \<Rightarrow> 32 word \<Rightarrow> string \<Rightarrow> 16 word \<Rightarrow> packet" where
  "ex_packet s d q n =
     \<lparr>pkt_src = Addr4 s, pkt_dst = Addr4 d, pkt_l4 = q, pkt_dport = n, pkt_facts = (\<lambda>t. False)\<rparr>"

lemma ex_cidrs:
  "ParsePrefix ''192.0.2.0/24'' = Inr (Prefix (Addr4 0xC0000200) 24)"
  "ParsePrefix ''192.0.2.128/25'' = Inr (Prefix (Addr4 0xC0000280) 25)"
  by (simp_all add: ParsePrefix_eval)

lemma ex_accepted: "\<not> refused ex_asel ex_node ex_policy"
  by (simp add: refused_def ex_asel_def ex_policy_def valid_policy_def entries_def ingress_def egress_def
      PolicyTypeIngress_def PolicyTypeEgress_def identifierPart_def ident_char_def valid_entry_def
      valid_peer_def valid_port_def valid_cidr_def cidr_v6_def ex_cidrs Masked_def PrefixFrom_def)

lemma ex_skeleton: "Render ex_params = Inr ex_table"
  by (simp add: Render_def validate_def ex_params_def ex_table_def DefaultSafePorts_def Prefix_IsValid_def)

lemma ex_facts:
  "Ruleset_Chain ex_table ChainInput = Some (inputChain (SafePorts ex_params))"
  "Ruleset_Chain ex_table ChainOutput = Some (outputChain (SafePorts ex_params))"
  "validate ex_params = Inr ()" "node_pods_kept ex_params ex_table"
  using Render_Chain [OF ex_skeleton] Render_Inr(1) [OF ex_skeleton] Render_node_pods [OF ex_skeleton] by simp_all

lemma ex_wf:
  "wf_params ex_params" "nodepol_fresh ex_table" "short_names [ex_policy]" "plain_packet (ex_packet s d q n)"
  by (simp_all add: wf_params_def ex_params_def wf_prefix_def nodepol_fresh_def ex_table_def Render_chains_def
      podChain_def dispatchChain_def inputChain_def outputChain_def postroutingChain_def chain_name_defs
      ChainInputDispatch_def ChainOutputDispatch_def short_names_def ex_policy_def plain_packet_def
      ex_packet_def plain_addr_def)

lemma ex_Add: "\<exists>rs' modes. nodepol_Add ex_asel ex_table ex_node [ex_policy] = Inr (rs', modes)"
proof (cases "nodepol_Add ex_asel ex_table ex_node [ex_policy]")
  case (Inl e)
  then show ?thesis using nodepol_Add_Inl [OF _ _ Inl] ex_facts ex_accepted by simp
qed auto

lemma ex_selected: "filter (selected_by ex_asel ex_node) [ex_policy] = [ex_policy]"
  by (simp add: selected_by_def ex_asel_def)

lemmas ex_eval =
  safe_input_def safe_output_def safe_common_def in_range_def ex_packet_def ex_params_def DefaultSafePorts_def
  direction_passes_def closes_def ex_policy_def policy_allows_def entries_def entry_allows_def
  peer_allows_def block_allows_def cidr_has_def ex_cidrs port_allows_def l4_name_def ToLower_protocols
  dir_side_def ingress_def egress_def PolicyTypeIngress_def PolicyTypeEgress_def Contains_def
  Prefix_IsValid_def ModeEnforce_def ModePermissive_def selected_by_def ex_asel_def

lemma nodepol_input_hook:
  assumes "nft_matcher ev"
    and "nodepol_Add asel rs node policies = Inr (rs', modes)"
    and "Ruleset_Chain rs ChainInput = Some (inputChain (SafePorts prm))"
    and "Ruleset_Chain rs ChainOutput = Some (outputChain (SafePorts prm))"
    and "validate prm = Inr ()" and "nodepol_fresh rs" and "short_names policies" and "plain_packet p"
  shows "hook ev rs' ChainInput p =
    (if safe_input (SafePorts prm) p \<or> direction_passes ingress (filter (selected_by asel node) policies) p
     then Accepted else Dropped)"
proof -
  obtain sel where sel: "set sel = set (filter (selected_by asel node) policies)"
    "installed ingress sel (inputChain (SafePorts prm)) rs'"
    using nodepol_Add_both [OF assms(2,6,7,3,4)] by blast
  show ?thesis
    using nft_matcher.installed_hook [OF assms(1) _ sel(2) safe_rules_accept(1) assms(8)]
      nft_matcher.inputRules_ev [OF assms(1,5)] direction_passes_cong [OF sel(1)]
    by (simp add: ingress_def inputChain_def)
qed

lemma nodepol_output_hook:
  assumes "nft_matcher ev"
    and "nodepol_Add asel rs node policies = Inr (rs', modes)"
    and "Ruleset_Chain rs ChainInput = Some (inputChain (SafePorts prm))"
    and "Ruleset_Chain rs ChainOutput = Some (outputChain (SafePorts prm))"
    and "validate prm = Inr ()" and "wf_params prm" and "node_pods_kept prm rs"
    and "nodepol_fresh rs" and "short_names policies" and "plain_packet p"
  shows "hook ev rs' ChainOutput p =
    (if safe_output (SafePorts prm) (PodCIDRs prm) p \<or>
        direction_passes egress (filter (selected_by asel node) policies) p
     then Accepted else Dropped)"
proof -
  obtain sel where sel: "set sel = set (filter (selected_by asel node) policies)"
    "installed egress sel (outputChain (SafePorts prm)) rs'" "rs_Sets rs' = rs_Sets rs"
    using nodepol_Add_both [OF assms(2,8,9,3,4)] by blast
  have "node_pods_kept prm rs'"
    using assms(7) sel(3) by (simp add: node_pods_kept_def Ruleset_Set_def)
  then show ?thesis
    using nft_matcher.installed_hook [OF assms(1) _ sel(2) safe_rules_accept(2) assms(10)]
      nft_matcher.outputRules_ev [OF assms(1,5,6)] direction_passes_cong [OF sel(1)] assms(10)
    by (simp add: egress_def outputChain_def plain_packet_def)
qed

section \<open>Properties\<close>

text \<open>
  C6: the input hook of the node, after \<open>nodepol.Add\<close> on a table whose input chain is the
  skeleton's, decides exactly what the NodeNetworkPolicies that select the node promise: a
  packet is accepted where a safe rule covers it, where no selecting policy closes ingress,
  where one that does allows the packet (one of its entries, by CIDR and exceptions and by
  protocol and port range), or where one of them is not in Enforce mode; it is dropped
  otherwise. It holds for every way of evaluating match texts that agrees with what nft
  documents of them.
\<close>

theorem nodepol_input_exact:
  assumes "nft_matcher ev"
    and "nodepol_Add asel rs node policies = Inr (rs', modes)"
    and "Ruleset_Chain rs ChainInput = Some (inputChain (SafePorts prm))"
    and "Ruleset_Chain rs ChainOutput = Some (outputChain (SafePorts prm))"
    and "validate prm = Inr ()" and "nodepol_fresh rs" and "short_names policies" and "plain_packet p"
  shows "hook ev rs' ChainInput p =
    (if safe_input (SafePorts prm) p \<or> direction_passes ingress (filter (selected_by asel node) policies) p
     then Accepted else Dropped)"
  using assms by (rule nodepol_input_hook)

theorem nodepol_input_exact_witness:
  "\<exists>rs' modes. nodepol_Add ex_asel ex_table ex_node [ex_policy] = Inr (rs', modes) \<and>
     hook read_match rs' ChainInput (ex_packet 0xC0000205 0x0A000001 ''tcp'' 5432) = Accepted \<and>
     hook read_match rs' ChainInput (ex_packet 0xC0000285 0x0A000001 ''tcp'' 5432) = Dropped \<and>
     hook read_match rs' ChainInput (ex_packet 0xC0000285 0x0A000001 ''tcp'' 22) = Accepted"
proof -
  obtain rs' modes where add: "nodepol_Add ex_asel ex_table ex_node [ex_policy] = Inr (rs', modes)"
    using ex_Add by blast
  note h = nodepol_input_exact [OF reader.nft_matcher_axioms add ex_facts(1-3) ex_wf(2-4)]
  show ?thesis
    by (intro exI conjI, rule add)
       (simp_all add: h ex_selected, simp_all add: ex_eval)
qed

text \<open>
  C7: the output hook likewise, with the safe rules for what the node itself must reach,
  the pods of this node by their CIDRs included.
\<close>

theorem nodepol_output_exact:
  assumes "nft_matcher ev"
    and "nodepol_Add asel rs node policies = Inr (rs', modes)"
    and "Ruleset_Chain rs ChainInput = Some (inputChain (SafePorts prm))"
    and "Ruleset_Chain rs ChainOutput = Some (outputChain (SafePorts prm))"
    and "validate prm = Inr ()" and "wf_params prm" and "node_pods_kept prm rs"
    and "nodepol_fresh rs" and "short_names policies" and "plain_packet p"
  shows "hook ev rs' ChainOutput p =
    (if safe_output (SafePorts prm) (PodCIDRs prm) p \<or>
        direction_passes egress (filter (selected_by asel node) policies) p
     then Accepted else Dropped)"
  using assms by (rule nodepol_output_hook)

theorem nodepol_output_exact_witness:
  "\<exists>rs' modes. nodepol_Add ex_asel ex_table ex_node [ex_policy] = Inr (rs', modes) \<and>
     hook read_match rs' ChainOutput (ex_packet 0x0A000001 0xC0000205 ''udp'' 5353) = Accepted \<and>
     hook read_match rs' ChainOutput (ex_packet 0x0A000001 0xC0000205 ''tcp'' 80) = Dropped \<and>
     hook read_match rs' ChainOutput (ex_packet 0x0A000001 0x0A000042 ''tcp'' 80) = Accepted"
proof -
  obtain rs' modes where add: "nodepol_Add ex_asel ex_table ex_node [ex_policy] = Inr (rs', modes)"
    using ex_Add by blast
  note h = nodepol_output_exact [OF reader.nft_matcher_axioms add ex_facts(1-3) ex_wf(1) ex_facts(4) ex_wf(2-4)]
  show ?thesis
    by (intro exI conjI, rule add) (simp_all add: h ex_selected, simp_all add: ex_eval)
qed

text \<open>
  C25: \<open>nodepol.Add\<close> fails exactly where a policy is one it must refuse, a selector that does
  not parse or, on a selecting policy and in a direction it closes, a name nft could not
  read back, a peer without a canonical CIDR or with an exception of the other family, or a
  port or range outside its bounds; and the error names such a policy.
\<close>

theorem nodepol_Add_errors:
  assumes "Ruleset_Chain rs ChainInput \<noteq> None" and "Ruleset_Chain rs ChainOutput \<noteq> None"
  shows "case nodepol_Add asel rs node policies of
      Inl e \<Rightarrow> \<exists>p \<in> set policies. blames e p \<and> refused asel node p
    | Inr out \<Rightarrow> \<forall>p \<in> set policies. \<not> refused asel node p"
proof (cases "nodepol_Add asel rs node policies")
  case (Inl e)
  then show ?thesis using nodepol_Add_Inl [OF assms Inl] by simp
next
  case (Inr out)
  then show ?thesis using nodepol_Add_Inr [OF Inr] by simp
qed

theorem nodepol_Add_errors_witness:
  "\<exists>e. nodepol_Add ex_asel ex_table ex_node [ex_policy\<lparr>nnp_Name := ''d b''\<rparr>] = Inl e \<and> blames e (ex_policy\<lparr>nnp_Name := ''d b''\<rparr>)"
proof -
  let ?p = "ex_policy\<lparr>nnp_Name := ''d b''\<rparr>"
  have "refused ex_asel ex_node ?p"
    by (simp add: refused_def ex_asel_def ex_policy_def selected_by_def closes_def valid_policy_def entries_def ingress_def egress_def
        PolicyTypeIngress_def PolicyTypeEgress_def identifierPart_def ident_char_def)
  then show ?thesis
    using nodepol_Add_errors [of ex_table "[?p]" ex_asel ex_node]
    by (cases "nodepol_Add ex_asel ex_table ex_node [?p]") (simp_all add: ex_facts)
qed

text \<open>
  C4: no policy can lock the node out. Whatever policies are added, under whatever names,
  and whatever way match texts are evaluated, a packet one of the accepting rules of the
  base chain matches is still accepted by that chain afterwards.
\<close>

theorem nodepol_no_lockout:
  assumes "nodepol_Add asel rs node policies = Inr (rs', modes)"
    and "chain \<in> {ChainInput, ChainOutput}"
    and "Ruleset_Chain rs chain = Some base" and "accepts_only (chain_Rules base)"
    and "x \<in> set (chain_Rules base)" and "ev (rs_Sets rs) p (rule_Match x)"
  shows "hook ev rs' chain p = Accepted"
proof -
  obtain base' more where "Ruleset_Chain rs' chain = Some base'" "chain_Rules base' = chain_Rules base @ more"
    using nodepol_Add_base [OF assms(1,3)] by blast
  moreover have "list_ex (\<lambda>x. ev (rs_Sets rs) p (rule_Match x)) (chain_Rules base)"
    using assms(5,6) by (auto simp: list_ex_iff)
  ultimately show ?thesis
    using assms(4) nodepol_Add_sets [OF assms(1)] by (simp add: hook_def walk_append walk_accepts)
qed

theorem nodepol_no_lockout_witness:
  "\<exists>rs' modes. nodepol_Add ex_asel ex_table ex_node [ex_policy] = Inr (rs', modes) \<and>
     hook (\<lambda>S p t. t = ''tcp dport 22'') rs' ChainInput (ex_packet 0xC0000285 0x0A000001 ''tcp'' 22) = Accepted"
proof -
  obtain rs' modes where add: "nodepol_Add ex_asel ex_table ex_node [ex_policy] = Inr (rs', modes)"
    using ex_Add by blast
  have "safePort ''tcp'' (single 22) ''ssh'' \<in> set (chain_Rules (inputChain (SafePorts ex_params)))"
    by (simp add: inputChain_def inputRules_def ex_params_def DefaultSafePorts_def)
  then have "hook (\<lambda>S p t. t = ''tcp dport 22'') rs' ChainInput (ex_packet 0xC0000285 0x0A000001 ''tcp'' 22) = Accepted"
    using nodepol_no_lockout [OF add _ ex_facts(1) safe_rules_accept(1),
        where ev = "\<lambda>S p t. t = ''tcp dport 22''" and x = "safePort ''tcp'' (single 22) ''ssh''"]
    by (simp add: safePort_def single_def PortRange_String_def itoa_eval)
  with add show ?thesis by blast
qed

text \<open>
  \<open>nodepol.Add\<close> changes nothing but what it owns: the sets and every chain of the table
  other than \<open>input\<close> and \<open>output\<close> are as they were, and so are those two where no selecting
  policy closes their direction.
\<close>

lemma nodepol_Add_frame:
  assumes "nodepol_Add asel rs node policies = Inr (rs', modes)" and "Ruleset_Chain rs n = Some c"
    and "n = ChainInput \<Longrightarrow> \<forall>p \<in> set policies. \<not> (selected_by asel node p \<and> closes ingress p)"
    and "n = ChainOutput \<Longrightarrow> \<forall>p \<in> set policies. \<not> (selected_by asel node p \<and> closes egress p)"
  shows "Ruleset_Chain rs' n = Some c \<and> rs_Sets rs' = rs_Sets rs"
proof -
  obtain sel rs1 ms1 where sel: "selects asel node policies = Inr sel"
    and i: "add_direction sel ingress (rs, Map.empty) = Inr (rs1, ms1)"
    and e: "add_direction sel egress (rs1, ms1) = Inr (rs', modes)"
    using assms(1) by (rule nodepol_Add_steps)
  have set: "set sel = set (filter (selected_by asel node) policies)"
    using selects_Inr [OF sel] by simp
  have "n = d_chain ingress \<Longrightarrow> closedBy ingress sel = []" "n = d_chain egress \<Longrightarrow> closedBy egress sel = []"
    using assms(3,4) set by (auto simp: closedBy_def filter_empty_conv direction_chains)
  then have "Ruleset_Chain rs' n = Some c"
    using add_direction_same [OF e] add_direction_same [OF i] assms(2) by simp
  then show ?thesis using nodepol_Add_sets [OF assms(1)] by simp
qed

text \<open>
  C26: the mode \<open>nodepol.Add\<close> reports for a selecting policy is the one it took effect in:
  none where it closes no direction, Permissive where a direction it closes observes
  because this policy or another is not in Enforce mode, and Enforce otherwise.
\<close>

theorem nodepol_modes_exact:
  assumes "nodepol_Add asel rs node policies = Inr (rs', modes)"
    and "distinct (map nnp_Name policies)" and "p \<in> set policies" and "selected_by asel node p"
  shows "modes (nnp_Name p) =
    (let ds = filter (\<lambda>d. closes d p) [ingress, egress]
     in if ds = [] then None
        else if list_ex (\<lambda>d. observes d (filter (selected_by asel node) policies)) ds then Some ModePermissive
        else Some ModeEnforce)"
proof -
  obtain sel rs1 ms1 where sel: "selects asel node policies = Inr sel"
    and i: "add_direction sel ingress (rs, Map.empty) = Inr (rs1, ms1)"
    and e: "add_direction sel egress (rs1, ms1) = Inr (rs', modes)"
    using assms(1) by (rule nodepol_Add_steps)
  have set: "set sel = set (filter (selected_by asel node) policies)"
    using selects_Inr [OF sel] by simp
  have mem: "nnp_Name p \<in> nnp_Name ` set (closedBy d sel) \<longleftrightarrow> closes d p" for d
    using assms(2-4) set by (auto simp: closedBy_def distinct_map inj_on_def)
  have obs: "observes d (filter (selected_by asel node) policies) \<longleftrightarrow> effectiveMode (closedBy d sel) \<noteq> ModeEnforce" for d
    using observes_effectiveMode [of d sel] set by (auto simp: observes_def list_ex_iff)
  show ?thesis
    using add_direction_modes [OF i, of "nnp_Name p"] add_direction_modes [OF e, of "nnp_Name p"]
      effectiveMode_Permissive [of "closedBy ingress sel"] effectiveMode_Permissive [of "closedBy egress sel"]
    by (auto simp: mem obs)
qed

theorem nodepol_modes_exact_witness:
  "\<exists>rs' modes. nodepol_Add ex_asel ex_table ex_node [ex_policy] = Inr (rs', modes) \<and>
     modes ''db'' = Some ModeEnforce"
proof -
  obtain rs' modes where add: "nodepol_Add ex_asel ex_table ex_node [ex_policy] = Inr (rs', modes)"
    using ex_Add by blast
  have "modes (nnp_Name ex_policy) = Some ModeEnforce"
    using nodepol_modes_exact [OF add, of ex_policy] by (simp add: ex_eval observes_def)
  then show ?thesis using add by (auto simp: ex_policy_def)
qed

end
