(* ===== verification/Netpol_Spec.thy ===== *)
theory Netpol_Spec
  imports Netpol_Names Nodepol_Spec
begin

text \<open>
  What the table of \<open>netpol.Add\<close> decides at the forward hook, which addresses it isolates, what
  it leaves of the skeleton, when it fails and that the order of its input does not matter.
\<close>

section \<open>The forward hook\<close>

definition dir_isolated :: "dir \<Rightarrow> fam \<Rightarrow> string" where
  "dir_isolated d f = (case f of V4 \<Rightarrow> dir_isolatedV4 d | V6 \<Rightarrow> dir_isolatedV6 d)"

lemma list_ex_sorted: "list_ex Q (sort_key k xs) = list_ex Q xs"
  by (simp add: list_ex_iff)

lemma applies_plain:
  assumes "wf_np_params P" "applies asel P d a pol"
  shows "plain_addr a"
proof -
  obtain pod where "pod \<in> set (np_Pods P)" "a \<in> set (own_addrs pod)"
    using assms(2) by (auto simp: applies_def list_ex_iff pod_owns_def)
  then show ?thesis using assms(1) by (auto simp: wf_np_params_def wf_pod_def list_all_iff)
qed

text \<open>What \<open>settled\<close> says of one direction.\<close>

lemma settledE:
  assumes "settled ev asel P r0 r1" "d \<in> {np_ingress, np_egress}"
  obtains b where "isolates asel P (\<lambda>d. sort_key policy_key (np_Policies P)) b"
    and "map_option set_Elements (Ruleset_Set r1 (dir_isolatedV4 d)) =
         Some (map Addr_String (filter Is4 (sort (remdups (bld_isolated b (dir_typ d))))))"
    and "map_option set_Elements (Ruleset_Set r1 (dir_isolatedV6 d)) =
         Some (map Addr_String (filter (\<lambda>a. \<not> Is4 a) (sort (remdups (bld_isolated b (dir_typ d))))))"
  using assms(1) unfolding settled_def np_inv_def
  by (elim exE conjE) (drule bspec [OF _ assms(2)], elim conjE, rule that)

lemma isolatesD:
  "isolates asel P ps b \<Longrightarrow> d \<in> {np_ingress, np_egress} \<Longrightarrow>
     a \<in> set (bld_isolated b (dir_typ d)) \<longleftrightarrow> list_ex (applies asel P d a) (ps d)"
  unfolding isolates_def by blast

lemma isolated_has:
  assumes st: "settled ev asel P r0 r1" and wf: "wf_np_params P" and d: "d \<in> {np_ingress, np_egress}"
    and a: "plain_addr a" "of_fam f a"
  shows "set_has (rs_Sets r1) (dir_isolated d f) a \<longleftrightarrow> list_ex (applies asel P d a) (np_Policies P)"
proof -
  obtain b where isol: "isolates asel P (\<lambda>d. sort_key policy_key (np_Policies P)) b"
    and s4: "map_option set_Elements (Ruleset_Set r1 (dir_isolatedV4 d)) =
         Some (map Addr_String (filter Is4 (sort (remdups (bld_isolated b (dir_typ d))))))"
    and s6: "map_option set_Elements (Ruleset_Set r1 (dir_isolatedV6 d)) =
         Some (map Addr_String (filter (\<lambda>a. \<not> Is4 a) (sort (remdups (bld_isolated b (dir_typ d))))))"
    using st d by (rule settledE)
  note iso = isolatesD [OF isol d, unfolded list_ex_sorted]
  have den: "denotes (Addr_String a') a \<longleftrightarrow> a' = a" if "a' \<in> set (bld_isolated b (dir_typ d))" for a'
    using that iso [of a'] applies_plain [OF wf, of asel d a'] denotes_Addr [OF _ a(1)] by (auto simp: list_ex_iff)
  show ?thesis
  proof (cases f)
    case V4
    then show ?thesis using s4 a(2) den iso [of a]
      by (auto simp: set_has_Set dir_isolated_def list_ex_iff)
  next
    case V6
    then have "\<not> Is4 a" using a by (auto elim: plain_addr_cases)
    then show ?thesis using V6 s6 den iso [of a]
      by (auto simp: set_has_Set dir_isolated_def list_ex_iff)
  qed
qed

lemma walk_links:
  assumes "\<forall>l \<in> set ls. Ruleset_Chain r (chain_Name (link_chain l)) = Some (link_chain l) \<and>
      accepts_only (chain_Rules (link_chain l))"
  shows "walk (Suc k) (ev S p) r (map link_rule ls) = (if list_ex (link_fires ev S p) ls then Accepted else Fell)"
  using assms by (induction ls) (auto simp: walk_accepts)

lemma Render_podChain:
  assumes "Render prm = Inr r0"
  shows "Ruleset_Chain r0 ChainEgress = Some (podChain ChainEgress ''filter'' ''saddr''
      SetIsolatedEgressV4 SetIsolatedEgressV6 ChainEgressDispatch
      ''NetworkPolicy egress, keyed on the source pod (ADR 0003)'')"
    and "Ruleset_Chain r0 ChainIngress = Some (podChain ChainIngress ''filter + 1'' ''daddr''
      SetIsolatedIngressV4 SetIsolatedIngressV6 ChainIngressDispatch
      ''NetworkPolicy ingress, keyed on the destination pod (ADR 0003)'')"
  by (simp_all add: Render_Inr [OF assms] Ruleset_Chain_def Render_chains_def podChain_def
      dispatchChain_def chain_name_defs)

lemma podChain_Rules:
  "chain_Rules (podChain n pr (side_text sd) s4 s6 disp com) =
     [rule established_text ''accept'' ''replies follow the connection'',
      rule nd_text ''accept'' ''neighbour discovery is not policy traffic'',
      rule (atom_text (InSet V4 sd s4)) (''jump '' @ disp) (''isolated for '' @ n),
      rule (atom_text (InSet V6 sd s6)) (''jump '' @ disp) (''isolated for '' @ n)]"
  by (simp add: podChain_def established_text_def nd_text_def)

lemma dir_chains:
  "dir_chain np_ingress = ChainIngress" "dir_chain np_egress = ChainEgress"
  "dir_self np_ingress = Daddr" "dir_self np_egress = Saddr"
  using np_dirs(4) by (simp_all add: dir_chain_def dir_self_def np_dirs(1,2))

lemma podChain_rules:
  assumes "d \<in> {np_ingress, np_egress}" "Render prm = Inr r0"
  obtains c where "Ruleset_Chain r0 (dir_chain d) = Some c"
    "chain_Rules c =
       [rule established_text ''accept'' ''replies follow the connection'',
        rule nd_text ''accept'' ''neighbour discovery is not policy traffic'',
        rule (atom_text (InSet V4 (dir_self d) (dir_isolated d V4))) (''jump '' @ dir_dispatch d) (''isolated for '' @ dir_chain d),
        rule (atom_text (InSet V6 (dir_self d) (dir_isolated d V6))) (''jump '' @ dir_dispatch d) (''isolated for '' @ dir_chain d)]"
proof (cases "d = np_ingress")
  case True
  show ?thesis
    by (rule that [unfolded True, OF Render_podChain(2) [OF assms(2), folded dir_chains]])
      (simp only: podChain_Rules [of _ _ Daddr, unfolded side_text.simps] True dir_chains np_dirs isolated_names
        dir_isolated_def fam.case)
next
  case False
  then have d: "d = np_egress" using assms(1) by simp
  show ?thesis
    by (rule that [unfolded d, OF Render_podChain(1) [OF assms(2), folded dir_chains]])
      (simp only: podChain_Rules [of _ _ Saddr, unfolded side_text.simps] d dir_chains np_dirs isolated_names
        dir_isolated_def fam.case)
qed

lemma dir_chain_names:
  assumes "d \<in> {np_ingress, np_egress}"
  shows "dir_chain d \<notin> {ChainInput, ChainOutput}" "dir_dispatch d \<notin> {ChainInput, ChainOutput}"
    "dir_chain d \<noteq> ChainIngressDispatch" "dir_chain d \<noteq> ChainEgressDispatch"
proof -
  consider "d = np_ingress" | "d = np_egress" using assms by blast
  then show "dir_chain d \<notin> {ChainInput, ChainOutput}" "dir_dispatch d \<notin> {ChainInput, ChainOutput}"
    "dir_chain d \<noteq> ChainIngressDispatch" "dir_chain d \<noteq> ChainEgressDispatch"
    by (cases; simp add: dir_chains np_dirs chain_name_defs)+
qed

context nft_matcher
begin

lemma settled_hook:
  assumes r0: "Render prm = Inr r0" and st: "settled ev asel P r0 r1" and uniq: "unique_names r1"
    and wf: "wf_np_params P" and p: "good_packet p" and d: "d \<in> {np_ingress, np_egress}"
    and R: "rs_Sets R = rs_Sets r1"
      "\<And>n c. Ruleset_Chain r1 n = Some c \<Longrightarrow> n \<notin> {ChainInput, ChainOutput} \<Longrightarrow> Ruleset_Chain R n = Some c"
  shows "hook ev R (dir_chain d) p =
    (if pkt_facts p established_text \<or> pkt_facts p nd_text \<or> np_passes asel P d p then Accepted else Dropped)"
proof -
  let ?S = "rs_Sets r1" and ?self = "pkt_addr (dir_self d) p"
  obtain ss cs ls b where inv: "np_inv ev asel P r0 (\<lambda>d. sort_key policy_key (np_Policies P)) ss cs ls b"
    and ch: "rs_Chains r1 = rs_Chains (bld_ruleset b)" and pres: "present ?S ss"
    using st by (auto simp: settled_def)
  have r1: "Ruleset_Chain r1 n = Ruleset_Chain (bld_ruleset b) n" for n by (simp add: Ruleset_Chain_def ch)
  obtain c where c: "Ruleset_Chain r0 (dir_chain d) = Some c" and rules: "chain_Rules c =
       [rule established_text ''accept'' ''replies follow the connection'',
        rule nd_text ''accept'' ''neighbour discovery is not policy traffic'',
        rule (atom_text (InSet V4 (dir_self d) (dir_isolated d V4))) (''jump '' @ dir_dispatch d) (''isolated for '' @ dir_chain d),
        rule (atom_text (InSet V6 (dir_self d) (dir_isolated d V6))) (''jump '' @ dir_dispatch d) (''isolated for '' @ dir_chain d)]"
    using d r0 by (rule podChain_rules)
  have base: "Ruleset_Chain R (dir_chain d) = Some c"
    using inv c dir_chain_names [OF d] by (intro R(2)) (simp_all add: r1 np_inv_def frame_def)
  obtain D where D1: "Ruleset_Chain r1 (dir_dispatch d) = Some D" and D: "chain_Rules D = map link_rule (ls d) @ [dispatch_drop]"
    and ls: "\<forall>l \<in> set (ls d). link_chain l \<in> set cs \<and> accepts_only (chain_Rules (link_chain l))"
    using inv d by (auto simp: np_inv_def dispatches_def r1)
  from D1 have disp: "Ruleset_Chain R (dir_dispatch d) = Some D"
    using dir_chain_names(2) [OF d] by (rule R(2))
  have links: "\<forall>l \<in> set (ls d). Ruleset_Chain R (chain_Name (link_chain l)) = Some (link_chain l) \<and>
      accepts_only (chain_Rules (link_chain l))"
  proof
    fix l assume l: "l \<in> set (ls d)"
    then have "link_chain l \<in> set (rs_Chains r1)" "policy_chain (link_chain l)"
      using ls inv by (auto simp: ch np_inv_def frame_def list_all_iff)
    then have "Ruleset_Chain r1 (chain_Name (link_chain l)) = Some (link_chain l)"
      "chain_Name (link_chain l) \<notin> {ChainInput, ChainOutput}"
      using uniq by (auto simp: Ruleset_Chain_def unique_names_def find_distinct policy_chain_def chain_name_defs)
    then show "Ruleset_Chain R (chain_Name (link_chain l)) = Some (link_chain l) \<and>
        accepts_only (chain_Rules (link_chain l))"
      using R(2) ls l by blast
  qed
  have dec: "list_ex (link_fires ev ?S p) (ls d) = list_ex (allowed_by asel P d p) (np_Policies P)"
    using inv pres p d unfolding np_inv_def decides_def list_ex_sorted by blast
  have into: "walk (Suc k) (ev ?S p) R (chain_Rules D) =
      (if list_ex (allowed_by asel P d p) (np_Policies P) then Accepted else Dropped)" for k
    using walk_links [OF links, of k ev ?S p] ev_any [of ?S p] by (simp add: D walk_append dec dispatch_drop_def)
  have iso: "ev ?S p (atom_text (InSet f (dir_self d) (dir_isolated d f))) \<longleftrightarrow>
      of_fam f ?self \<and> list_ex (applies asel P d ?self) (np_Policies P)" for f
  proof -
    have "name_token (dir_isolated d f)"
      using d by (cases f) (auto simp: dir_isolated_def isolated_names name_token_def set_name_defs id_char_def ident_char_def)
    then show ?thesis
      using isolated_has [OF st wf d, of ?self f] p plain_packet_addr [of p "dir_self d"] ev_one
      by (auto simp: good_packet_def simp del: atom_text.simps)
  qed
  have facts: "ev ?S p established_text = pkt_facts p established_text" "ev ?S p nd_text = pkt_facts p nd_text"
    by (simp_all add: ev_fact fact_texts_def)
  have passes: "np_passes asel P d p \<longleftrightarrow> \<not> list_ex (applies asel P d ?self) (np_Policies P) \<or>
      list_ex (allowed_by asel P d p) (np_Policies P)"
    by (simp add: np_passes_def allowed_by_def [abs_def] Let_def)
  have "walk (Suc (Suc k)) (ev ?S p) R (chain_Rules c) =
     (if pkt_facts p established_text \<or> pkt_facts p nd_text then Accepted
      else if list_ex (applies asel P d ?self) (np_Policies P)
      then if list_ex (allowed_by asel P d p) (np_Policies P) then Accepted else Dropped else Fell)" for k
    using of_fam_some [OF p, of "dir_self d"]
    by (auto simp: rules facts iso disp into simp del: atom_text.simps of_fam.simps)
  then have "walk jump_stack (ev ?S p) R (chain_Rules c) =
     (if pkt_facts p established_text \<or> pkt_facts p nd_text then Accepted
      else if list_ex (applies asel P d ?self) (np_Policies P)
      then if list_ex (allowed_by asel P d p) (np_Policies P) then Accepted else Dropped else Fell)"
    using jump_stack_Suc by metis
  then show ?thesis by (simp add: hook_def base R(1) passes)
qed

lemma settled_forward:
  assumes "Render prm = Inr r0" "settled ev asel P r0 r1" "unique_names r1" "wf_np_params P" "good_packet p"
    "rs_Sets R = rs_Sets r1"
    and R: "\<And>n c. Ruleset_Chain r1 n = Some c \<Longrightarrow> n \<notin> {ChainInput, ChainOutput} \<Longrightarrow> Ruleset_Chain R n = Some c"
  shows "forward_hook ev R p =
    (if pkt_facts p established_text \<or> pkt_facts p nd_text \<or>
        np_passes asel P np_egress p \<and> np_passes asel P np_ingress p
     then Accepted else Dropped)"
  using settled_hook [OF assms(1-5) _ assms(6) R, of np_egress] settled_hook [OF assms(1-5) _ assms(6) R, of np_ingress]
  by (auto simp: forward_hook_def dir_chains)

end

section \<open>What is left of the skeleton\<close>

lemma settled_Chain:
  assumes "settled ev asel P r0 r1" "Ruleset_Chain r0 n = Some c" "n \<noteq> ChainIngressDispatch" "n \<noteq> ChainEgressDispatch"
  shows "Ruleset_Chain r1 n = Some c"
proof -
  obtain ss cs ls b where "np_inv ev asel P r0 (\<lambda>d. sort_key policy_key (np_Policies P)) ss cs ls b"
    "rs_Chains r1 = rs_Chains (bld_ruleset b)"
    using assms(1) unfolding settled_def by blast
  then show ?thesis using assms(2-4) by (simp add: np_inv_def frame_def Ruleset_Chain_def)
qed

lemma settled_bases: "settled ev asel P r0 r1 \<Longrightarrow> bases r1 = bases r0"
  unfolding settled_def np_inv_def frame_def by (auto dest: bases_cong)

lemma skeleton_base_chains:
  assumes "Render prm = Inr r0"
  shows "\<forall>n \<in> {ChainEgress, ChainIngress, ChainInput, ChainOutput}.
    Ruleset_Chain r0 n \<noteq> None \<and> n \<noteq> ChainIngressDispatch \<and> n \<noteq> ChainEgressDispatch"
  by (simp add: Ruleset_Chain_def Render_Inr [OF assms] Render_chains_def podChain_def dispatchChain_def inputChain_def
      outputChain_def chain_name_defs)

lemma settled_base_chains:
  assumes "Render prm = Inr r0" "settled ev asel P r0 r1"
  shows "\<forall>n \<in> {ChainEgress, ChainIngress, ChainInput, ChainOutput}. Ruleset_Chain r1 n \<noteq> None"
  using skeleton_base_chains [OF assms(1)] settled_Chain [OF assms(2)] by (metis option.exhaust option.distinct(1))

text \<open>The sets and chains \<open>netpol.Add\<close> adds are told from those of the node policies by their prefix.\<close>

lemma netpol_Add_fresh:
  assumes "Render prm = Inr r0" "settled ev asel P r0 r1"
  shows "nodepol_fresh r1"
proof -
  obtain ss cs ls b where inv: "np_inv ev asel P r0 (\<lambda>d. sort_key policy_key (np_Policies P)) ss cs ls b"
    and ch: "rs_Chains r1 = rs_Chains (bld_ruleset b)"
    using assms(2) unfolding settled_def by blast
  then obtain bs where bs: "rs_Chains r1 = bs @ cs" "map chain_Name bs = map chain_Name (rs_Chains r0)" "list_all policy_chain cs"
    unfolding np_inv_def frame_def by auto
  let ?ok = "\<lambda>n. \<not> HasPrefix n ''nodepol_'' \<and> n \<noteq> ChainInputDispatch \<and> n \<noteq> ChainOutputDispatch"
  have "\<forall>n \<in> set (map chain_Name (rs_Chains r0)). ?ok n"
    by (simp add: Render_Inr [OF assms(1)] Render_chains_def podChain_def dispatchChain_def inputChain_def
        outputChain_def postroutingChain_def chain_name_defs ChainInputDispatch_def ChainOutputDispatch_def)
  then have "\<forall>c \<in> set bs. ?ok (chain_Name c)" using bs(2) by (metis image_eqI image_set)
  moreover have "\<forall>c \<in> set cs. ?ok (chain_Name c)"
    using bs(3) by (auto simp: list_all_iff policy_chain_def HasPrefix_iff ChainInputDispatch_def ChainOutputDispatch_def)
  ultimately show ?thesis by (auto simp: nodepol_fresh_def bs(1) list_all_iff)
qed

lemma settled_Set:
  assumes "settled ev asel P r0 r1" "Ruleset_Set r0 n = Some s"
    and "n \<notin> {SetIsolatedIngressV4, SetIsolatedIngressV6, SetIsolatedEgressV4, SetIsolatedEgressV6}"
  shows "Ruleset_Set r1 n = Some s"
  using assms unfolding settled_def by blast

lemma settled_node_pods:
  assumes "settled ev asel P r0 r1" "node_pods_kept prm r0"
  shows "node_pods_kept prm r1"
proof -
  have "SetNodePodsV4 \<notin> {SetIsolatedIngressV4, SetIsolatedIngressV6, SetIsolatedEgressV4, SetIsolatedEgressV6}"
    "SetNodePodsV6 \<notin> {SetIsolatedIngressV4, SetIsolatedIngressV6, SetIsolatedEgressV4, SetIsolatedEgressV6}"
    by (simp_all add: set_name_defs)
  then show ?thesis
    using assms(2) settled_Set [OF assms(1)] by (auto simp: node_pods_kept_def)
qed

section \<open>A concrete cluster\<close>

text \<open>
  The instance the witnesses evaluate: one pod, 10.0.0.5, on the node \<open>n1\<close>, that serves a port
  named http on 8080, and one policy that admits 192.0.2.0/24, except its upper half, to it.
\<close>

definition ex_pods :: "pod list" where
  "ex_pods =
     [\<lparr>pod_Namespace = ''shop'', pod_Name = ''web'', pod_NodeName = ''n1'', pod_Labels = (\<lambda>k. None),
       pod_IPs = [Addr4 0x0A000005], pod_HostNetwork = False, pod_Terminated = False,
       pod_Ports = [\<lparr>np_PortName = ''http'', np_PortNumber = 8080, np_PortProtocol = ''TCP''\<rparr>]\<rparr>]"

definition ex_netpol :: "unit network_policy" where
  "ex_netpol =
     \<lparr>pol_Namespace = ''shop'', pol_Name = ''web'', pol_PodSelector = (), pol_PolicyTypes = [],
      pol_Ingress =
        [\<lparr>rule_Peers = [\<lparr>peer_PodSelector = None, peer_NamespaceSelector = None,
             peer_IPBlock = Some \<lparr>blk_CIDR = Prefix (Addr4 0xC0000200) 24,
               blk_Except = [Prefix (Addr4 0xC0000280) 25]\<rparr>\<rparr>],
          rule_Ports = [\<lparr>port_Protocol = ''TCP'', port_Number = 0, port_Name = ''http'', port_EndPort = 0\<rparr>]\<rparr>],
      pol_Egress = []\<rparr>"

definition ex_np_params :: "unit np_params" where
  "ex_np_params = \<lparr>np_NodeName = ''n1'', np_Pods = ex_pods, np_Namespaces = [], np_Policies = [ex_netpol]\<rparr>"

lemma ex_np_wf:
  "wf_np_params ex_np_params" "list_all np_small (np_Policies ex_np_params)" "distinct (map pol_id (np_Policies ex_np_params))"
  by (simp_all add: wf_np_params_def ex_np_params_def ex_pods_def ex_netpol_def wf_pod_def own_addrs_def wf_policy_def
      wf_rule_def wf_peer_def wf_cidr_def wf_protocol_def wf_prefix_def plain_addr_def np_small_def Prefix_IsValid_def
      Masked_def PrefixFrom_def)

lemma ex_np_accepted: "\<not> np_refused ex_asel ex_np_params ex_netpol"
  by (simp add: np_refused_def ex_asel_def ex_netpol_def identifierPart_def ident_char_def valid_np_dir_def
      pol_rules_def valid_np_rule_def valid_np_peer_def valid_np_port_def np_dirs)

lemma ex_np_Add: "\<exists>r1. netpol_Add ex_asel (\<lambda>_. True) ex_table ex_np_params = Inr r1"
  using netpol_Add_outcome [OF Render_has_hooks [OF ex_skeleton],
      where asel = ex_asel and everything = "\<lambda>_. True" and P = ex_np_params]
    ex_np_accepted by (cases "netpol_Add ex_asel (\<lambda>_. True) ex_table ex_np_params") (auto simp: ex_np_params_def)

lemma ex_good: "good_packet (ex_packet s d q n)"
  by (simp add: good_packet_def ex_wf) (simp add: ex_packet_def)

lemmas ex_np_eval =
  ex_np_params_def ex_pods_def ex_netpol_def ex_packet_def ex_asel_def np_passes_def applies_def np_allows_def
  rule_allows_def peer_allows_packet_def peer_names_def port_opens_def pod_declares_def pod_owns_def pod_up_def
  policy_selects_def receives_def sel_matches_def governs_def pol_rules_def dir_chains np_dirs dir_peer_def own_addrs_def
  l4_name_def ToLower_protocols Contains_def Prefix_IsValid_def Addr_IsValid_def

section \<open>Properties\<close>

text \<open>
  C2: the forward hook, with the base chains that are declared there in the order of their priorities,
  after \<open>netpol.Add\<close> on the skeleton decides what the NetworkPolicies
  promise: replies and neighbour discovery aside, a packet is accepted exactly where the
  policies of its source pod let it out and those of its destination pod let it in. A pod no
  policy governs is open; a pod one governs is open to the peers (by CIDR and exceptions, by
  pod and namespace selector) and ports (by number, range or the name the receiving pod
  gives it) of the policies that do. For every cluster state whose policies have distinct
  names that fit, and every way of evaluating match texts that agrees with what nft documents.
\<close>

theorem netpol_forward_exact:
  assumes "nft_matcher ev" and "Render prm = Inr r0" and "netpol_Add asel everything r0 P = Inr r1"
    and "wf_np_params P" and "\<forall>ls. everything ls"
    and "list_all np_small (np_Policies P)" and "distinct (map pol_id (np_Policies P))" and "good_packet p"
  shows "at_hook ev r1 ''forward'' p =
    (if pkt_facts p established_text \<or> pkt_facts p nd_text \<or>
        np_passes asel P np_egress p \<and> np_passes asel P np_ingress p
     then Accepted else Dropped)"
proof -
  note uniq = netpol_Add_unique [OF assms(2,3,6,7)]
  note st = nft_matcher.netpol_Add_settled [OF assms(1-5) uniq]
  show ?thesis
    unfolding skeleton_hooks(1) [OF assms(2) settled_bases [OF st] settled_base_chains [OF assms(2) st]]
    by (rule nft_matcher.settled_forward [OF assms(1,2) st uniq assms(4,8) refl])
qed

theorem netpol_forward_exact_witness:
  "\<exists>r1. netpol_Add ex_asel (\<lambda>_. True) ex_table ex_np_params = Inr r1 \<and>
     at_hook read_match r1 ''forward'' (ex_packet 0xC0000205 0x0A000005 ''tcp'' 8080) = Accepted \<and>
     at_hook read_match r1 ''forward'' (ex_packet 0xC0000285 0x0A000005 ''tcp'' 8080) = Dropped \<and>
     at_hook read_match r1 ''forward'' (ex_packet 0xC0000205 0x0A000005 ''tcp'' 22) = Dropped \<and>
     at_hook read_match r1 ''forward'' (ex_packet 0x0A000005 0xC0000205 ''tcp'' 22) = Accepted"
proof -
  obtain r1 where add: "netpol_Add ex_asel (\<lambda>_. True) ex_table ex_np_params = Inr r1"
    using ex_np_Add by blast
  note h = netpol_forward_exact [OF reader.nft_matcher_axioms ex_skeleton add ex_np_wf(1) _ ex_np_wf(2,3) ex_good]
  show ?thesis
    by (intro exI conjI, rule add) (simp_all add: h, simp_all add: ex_np_eval)
qed

text \<open>
  C21: \<open>netpol.Add\<close>, on a table that has the dispatch chains and the isolated sets, fails exactly
  where a policy is one it must refuse: its selector does not parse or, where it selects a
  pod of this node, its namespace or name is not one nft could read back, a peer's selector
  does not parse or an \<open>endPort\<close> is below its port in a direction it governs. The error names
  such a policy; and where none is refused the table is rendered.
\<close>

theorem netpol_Add_errors:
  assumes "has_hooks r"
  shows "case netpol_Add asel everything r P of
      Inl e \<Rightarrow> \<exists>pol \<in> set (np_Policies P). np_blames e pol \<and> np_refused asel P pol
    | Inr r1 \<Rightarrow> \<forall>pol \<in> set (np_Policies P). \<not> np_refused asel P pol"
  using assms by (rule netpol_Add_outcome)

definition ex_bad_ports :: "unit network_policy" where
  "ex_bad_ports = ex_netpol\<lparr>pol_Ingress :=
     [\<lparr>rule_Peers = [], rule_Ports = [\<lparr>port_Protocol = ''TCP'', port_Number = 80, port_Name = [], port_EndPort = 79\<rparr>]\<rparr>]\<rparr>"

theorem netpol_Add_errors_witness:
  "\<exists>e. netpol_Add ex_asel (\<lambda>_. True) ex_table (ex_np_params\<lparr>np_Policies := [ex_bad_ports]\<rparr>) = Inl e \<and>
     np_blames e ex_bad_ports"
proof -
  let ?P = "ex_np_params\<lparr>np_Policies := [ex_bad_ports]\<rparr>"
  have "np_refused ex_asel ?P ex_bad_ports"
    by (simp add: np_refused_def selects_any_def valid_np_dir_def valid_np_rule_def valid_np_port_def ex_bad_ports_def
        ex_np_eval)
  then show ?thesis
    using netpol_Add_errors [OF Render_has_hooks [OF ex_skeleton],
        where asel = ex_asel and everything = "\<lambda>_. True" and P = ?P]
    by (cases "netpol_Add ex_asel (\<lambda>_. True) ex_table ?P") auto
qed

text \<open>
  C22: no two sets and no two chains of the table share a name, those of the skeleton included,
  where the policies have distinct names: a policy is never rendered into another's set or
  chain. The bounds (208 bytes of namespace and name together, a billion entries in a list)
  are what keeps every name within nft's 255 bytes, past which names are folded to a hash.
\<close>

theorem netpol_names_unique:
  assumes "Render prm = Inr r0" and "netpol_Add asel everything r0 P = Inr r1"
    and "list_all np_small (np_Policies P)" and "distinct (map pol_id (np_Policies P))"
  shows "distinct (map set_Name (rs_Sets r1)) \<and> distinct (map chain_Name (rs_Chains r1))"
  using netpol_Add_unique [OF assms] by (simp add: unique_names_def)

theorem netpol_names_unique_witness:
  "\<exists>r1. netpol_Add ex_asel (\<lambda>_. True) ex_table ex_np_params = Inr r1 \<and>
     distinct (map set_Name (rs_Sets r1)) \<and> distinct (map chain_Name (rs_Chains r1))"
  using ex_np_Add netpol_names_unique [OF ex_skeleton _ ex_np_wf(2,3)] by blast

text \<open>
  C13: the isolated sets hold exactly the addresses of the pods of this node that are up and
  that a policy governs in that direction; so an isolated pod never outlives its policies,
  and no other address is cut off.
\<close>

theorem netpol_isolated_exact:
  assumes "Render prm = Inr r0" and "netpol_Add asel everything r0 P = Inr r1"
    and "wf_np_params P" and "\<forall>ls. everything ls"
    and "list_all np_small (np_Policies P)" and "distinct (map pol_id (np_Policies P))"
    and "d \<in> {np_ingress, np_egress}" and "plain_addr a"
  shows "set_has (rs_Sets r1) (if Is4 a then dir_isolatedV4 d else dir_isolatedV6 d) a \<longleftrightarrow>
    (\<exists>pol \<in> set (np_Policies P). governs pol (dir_typ d) \<and>
       (\<exists>pod \<in> set (np_Pods P). policy_selects asel P pol pod \<and> pod_owns pod a))"
proof -
  note uniq = netpol_Add_unique [OF assms(1,2,5,6)]
  note st = nft_matcher.netpol_Add_settled [OF reader.nft_matcher_axioms assms(1-4) uniq]
  have fam: "of_fam (if Is4 a then V4 else V6) a" using assms(8) by (auto elim: plain_addr_cases)
  have "dir_isolated d (if Is4 a then V4 else V6) = (if Is4 a then dir_isolatedV4 d else dir_isolatedV6 d)"
    by (simp add: dir_isolated_def)
  then show ?thesis
    using isolated_has [OF st assms(3,7,8) fam] by (simp add: list_ex_iff applies_def)
qed

theorem netpol_isolated_exact_witness:
  "\<exists>r1. netpol_Add ex_asel (\<lambda>_. True) ex_table ex_np_params = Inr r1 \<and>
     set_has (rs_Sets r1) SetIsolatedIngressV4 (Addr4 0x0A000005) \<and>
     \<not> set_has (rs_Sets r1) SetIsolatedEgressV4 (Addr4 0x0A000005) \<and>
     \<not> set_has (rs_Sets r1) SetIsolatedIngressV4 (Addr4 0x0A000006)"
proof -
  obtain r1 where add: "netpol_Add ex_asel (\<lambda>_. True) ex_table ex_np_params = Inr r1"
    using ex_np_Add by blast
  note h = netpol_isolated_exact [OF ex_skeleton add ex_np_wf(1) _ ex_np_wf(2,3)]
  show ?thesis
    using h [of np_ingress "Addr4 0x0A000005"] h [of np_egress "Addr4 0x0A000005"] h [of np_ingress "Addr4 0x0A000006"] add
    by (simp add: isolated_names plain_addr_def) (simp add: ex_np_eval)
qed

text \<open>
  C23: what is rendered does not depend on the order in which the API server lists pods,
  namespaces and policies: the same objects in any order give the same table, or the same
  failure, byte for byte.
\<close>

theorem netpol_Add_order:
  assumes "mset (np_Pods P) = mset (np_Pods Q)" and "mset (np_Namespaces P) = mset (np_Namespaces Q)"
    and "mset (np_Policies P) = mset (np_Policies Q)" and "np_NodeName P = np_NodeName Q"
    and "inj_on pod_key (set (np_Pods P))" and "distinct (map ns_Name (np_Namespaces P))"
    and "inj_on policy_key (set (np_Policies P))"
  shows "netpol_Add asel everything r P = netpol_Add asel everything r Q"
proof -
  have "sort_key policy_key (np_Policies P) = sort_key policy_key (np_Policies Q)"
    by (rule sort_key_perm [OF assms(3,7)])
  moreover have "usablePods (np_Pods P) = usablePods (np_Pods Q)"
    unfolding usablePods_def
  proof (rule sort_key_perm)
    show "mset (map (\<lambda>p. p\<lparr>pod_IPs := own_addrs p\<rparr>) (filter F (np_Pods P))) =
        mset (map (\<lambda>p. p\<lparr>pod_IPs := own_addrs p\<rparr>) (filter F (np_Pods Q)))" for F
      using assms(1) by simp
  qed (use assms(5) in \<open>auto simp: inj_on_def pod_key_def\<close>)
  moreover have "map_of (rev (map (\<lambda>ns. (ns_Name ns, ns)) (np_Namespaces P))) =
      map_of (rev (map (\<lambda>ns. (ns_Name ns, ns)) (np_Namespaces Q)))"
  proof -
    have "distinct (map ns_Name (np_Namespaces Q))"
      using assms(2,6) mset_eq_imp_distinct_iff [of "map ns_Name (np_Namespaces P)" "map ns_Name (np_Namespaces Q)"] by simp
    then show ?thesis
      using assms(6) mset_eq_setD [OF assms(2)] by (subst map_of_inject_set) (simp_all add: rev_map distinct_map inj_on_def)
  qed
  ultimately show ?thesis by (simp add: netpol_Add_def new_builder_def assms(4))
qed

definition ex_two_pods :: "pod list" where
  "ex_two_pods = ex_pods @ [(hd ex_pods)\<lparr>pod_Name := ''api'', pod_IPs := [Addr4 0x0A000006]\<rparr>]"

theorem netpol_Add_order_witness:
  "netpol_Add ex_asel (\<lambda>_. True) ex_table (ex_np_params\<lparr>np_Pods := ex_two_pods\<rparr>) =
   netpol_Add ex_asel (\<lambda>_. True) ex_table (ex_np_params\<lparr>np_Pods := rev ex_two_pods\<rparr>)"
  by (rule netpol_Add_order)
     (simp_all add: ex_np_params_def ex_two_pods_def ex_pods_def pod_key_def)

text \<open>
  C24: \<open>netpol.Add\<close> leaves the rest of the skeleton alone: every chain but the two dispatch
  chains and every set but the four isolated ones is found as it was, under its name.
\<close>

theorem netpol_Add_frame:
  assumes "Render prm = Inr r0" and "netpol_Add asel everything r0 P = Inr r1"
    and "wf_np_params P" and "\<forall>ls. everything ls"
    and "list_all np_small (np_Policies P)" and "distinct (map pol_id (np_Policies P))"
  shows "(\<forall>n c. n \<notin> {ChainIngressDispatch, ChainEgressDispatch} \<and> Ruleset_Chain r0 n = Some c \<longrightarrow> Ruleset_Chain r1 n = Some c) \<and>
    (\<forall>n s. n \<notin> {SetIsolatedIngressV4, SetIsolatedIngressV6, SetIsolatedEgressV4, SetIsolatedEgressV6} \<and>
       Ruleset_Set r0 n = Some s \<longrightarrow> Ruleset_Set r1 n = Some s)"
proof -
  note uniq = netpol_Add_unique [OF assms(1,2,5,6)]
  note st = nft_matcher.netpol_Add_settled [OF reader.nft_matcher_axioms assms(1-4) uniq]
  show ?thesis using settled_Chain [OF st] settled_Set [OF st] by blast
qed

theorem netpol_Add_frame_witness:
  "\<exists>r1. netpol_Add ex_asel (\<lambda>_. True) ex_table ex_np_params = Inr r1 \<and>
     Ruleset_Chain r1 ChainInput = Some (inputChain (SafePorts ex_params))"
proof -
  obtain r1 where add: "netpol_Add ex_asel (\<lambda>_. True) ex_table ex_np_params = Inr r1"
    using ex_np_Add by blast
  have "ChainInput \<notin> {ChainIngressDispatch, ChainEgressDispatch}" by (simp add: chain_name_defs)
  then have "Ruleset_Chain r1 ChainInput = Some (inputChain (SafePorts ex_params))"
    using netpol_Add_frame [OF ex_skeleton add ex_np_wf(1) _ ex_np_wf(2,3)] ex_facts(1) by blast
  then show ?thesis using add by blast
qed

end
