(* ===== verification/Nft_Apply.thy ===== *)
theory Nft_Apply
  imports Nft_Model
begin

text \<open>
  \<open>apply.go\<close>: the applier that replaces the table with \<^verbatim>\<open>nft -f -\<close> and remembers the text it
  applied. Running a command is the operating system's: \<open>exec\<close> stands for \<open>os/exec\<close>, and a
  \<open>Runner\<close> is a function on the state of the node, which it may change. The locale
  \<open>nft_transaction\<close> is what the applier relies on of nft, that a file is loaded whole or
  not at all; the locale \<open>table_applier\<close> is the contract the reconciler relies on, and the
  interpretation shows that the applier keeps it.
\<close>

section \<open>Running a command\<close>

text \<open>What \<open>cmd.Output\<close> leaves: an error, or none, what was printed, and standard error.\<close>

record exec_result =
  ex_err :: "go_error option"
  ex_stdout :: string
  ex_stderr :: string

type_synonym 'w exec = "string \<Rightarrow> string list \<Rightarrow> string \<Rightarrow> 'w \<Rightarrow> exec_result \<times> 'w"
type_synonym 'w runner = "string \<Rightarrow> string list \<Rightarrow> 'w \<Rightarrow> (go_error + string) \<times> 'w"

definition run_cmd :: "'w exec \<Rightarrow> string \<Rightarrow> string \<Rightarrow> string list \<Rightarrow> 'w \<Rightarrow> (go_error + string) \<times> 'w" where
  "run_cmd exec stdin name args w =
     (let (res, w') = exec name args stdin w
      in case ex_err res of
           Some err \<Rightarrow>
             (Inl (name @ '' '' @ join '' '' args @ '': '' @ err @ '': '' @ TrimSpace (ex_stderr res)), w')
         | None \<Rightarrow> (Inr (ex_stdout res), w'))"

definition NFT_Run :: "'w exec \<Rightarrow> 'w runner" where
  "NFT_Run exec stdin args = run_cmd exec stdin ''nft'' args"

section \<open>The applier\<close>

record applier =
  ap_applied :: string

definition NewApplier :: applier where
  "NewApplier = \<lparr>ap_applied = []\<rparr>"

definition Forget :: "applier \<Rightarrow> applier" where
  "Forget a = a\<lparr>ap_applied := []\<rparr>"

definition Apply :: "'w runner \<Rightarrow> string \<Rightarrow> applier \<Rightarrow> 'w \<Rightarrow> (go_error + bool) \<times> applier \<times> 'w" where
  "Apply run text a w =
     (if text = ap_applied a then (Inr False, a, w)
      else
       (case run text [''-f'', ''-''] w of
          (Inl err, w') \<Rightarrow> (Inl err, a, w')
        | (Inr _, w') \<Rightarrow> (Inr True, a\<lparr>ap_applied := text\<rparr>, w')))"

section \<open>What the reconciler relies on\<close>

text \<open>
  The operations of the interface \<open>Ruleset.Applier\<close>, on a state \<open>'a\<close> of the applier and \<open>'w\<close> of
  the node; \<open>table\<close> is the text of the table the node runs. \<open>knows a w\<close> says that the applier
  is not mistaken about it, which holds until somebody else touches the table.
\<close>

locale table_applier =
  fixes put :: "string \<Rightarrow> 'a \<Rightarrow> 'w \<Rightarrow> (go_error + bool) \<times> 'a \<times> 'w"
    and forget :: "'a \<Rightarrow> 'a"
    and table :: "'w \<Rightarrow> string option"
    and knows :: "'a \<Rightarrow> 'w \<Rightarrow> bool"
  assumes forget_knows: "knows (forget a) w"
    and put_ok: "knows a w \<Longrightarrow> text \<noteq> [] \<Longrightarrow> put text a w = (Inr changed, a', w') \<Longrightarrow>
      table w' = Some text \<and> knows a' w'"
    and put_err: "knows a w \<Longrightarrow> put text a w = (Inl e, a', w') \<Longrightarrow> table w' = table w \<and> knows a' w'"
    and put_skips: "put text a w = (Inr False, a', w') \<Longrightarrow> w' = w"
begin

text \<open>Whatever happened to the table in between, forgetting first puts the text on.\<close>

lemma forget_apply: "text \<noteq> [] \<Longrightarrow> put text (forget a) w = (Inr changed, a', w') \<Longrightarrow> table w' = Some text"
  using put_ok [OF forget_knows] by blast

lemma put_outcome:
  assumes "knows a w" "text \<noteq> []" "put text a w = (r, a', w')"
  shows "knows a' w' \<and> table w' = (if isl r then table w else Some text)"
proof (cases r)
  case (Inl e)
  then show ?thesis using put_err [OF assms(1)] assms(3) by simp
next
  case (Inr b)
  then show ?thesis using put_ok [OF assms(1,2), of b a' w'] assms(3) by simp
qed

end

text \<open>\<^verbatim>\<open>nft -f -\<close> loads the file it is given, or fails and leaves the table as it was.\<close>

locale nft_transaction =
  fixes run :: "'w runner" and table :: "'w \<Rightarrow> string option"
  assumes load_ok: "run text [''-f'', ''-''] w = (Inr out, w') \<Longrightarrow> table w' = Some text"
    and load_err: "run text [''-f'', ''-''] w = (Inl e, w') \<Longrightarrow> table w' = table w"

definition remembers :: "('w \<Rightarrow> string option) \<Rightarrow> applier \<Rightarrow> 'w \<Rightarrow> bool" where
  "remembers table a w \<longleftrightarrow> ap_applied a \<noteq> [] \<longrightarrow> table w = Some (ap_applied a)"

sublocale nft_transaction \<subseteq> applier: table_applier "Apply run" Forget table "remembers table"
proof
  show "remembers table (Forget a) w" for a w by (simp add: remembers_def Forget_def)
next
  fix a w t changed a' w'
  assume "remembers table a w" "t \<noteq> []" "Apply run t a w = (Inr changed, a', w')"
  then show "table w' = Some t \<and> remembers table a' w'"
    using load_ok by (fastforce simp: Apply_def remembers_def split: if_splits sum.splits prod.splits)
next
  fix a w t e a' w'
  assume "remembers table a w" "Apply run t a w = (Inl e, a', w')"
  then show "table w' = table w \<and> remembers table a' w'"
    using load_err by (fastforce simp: Apply_def remembers_def split: if_splits sum.splits prod.splits)
next
  fix t a w a' w'
  assume "Apply run t a w = (Inr False, a', w')"
  then show "w' = w" by (auto simp: Apply_def split: if_splits sum.splits prod.splits)
qed

section \<open>A host\<close>

text \<open>
  A host whose one command is nft: \<open>accepts\<close> says which files nft would load. Its state is
  the text of the table.
\<close>

definition host_exec :: "(string \<Rightarrow> bool) \<Rightarrow> string option exec" where
  "host_exec accepts name args stdin w =
     (if name \<noteq> ''nft''
      then (\<lparr>ex_err = Some ''executable file not found in $PATH'', ex_stdout = [], ex_stderr = []\<rparr>, w)
      else if args = [''-f'', ''-''] \<and> accepts stdin
      then (\<lparr>ex_err = None, ex_stdout = [], ex_stderr = []\<rparr>, Some stdin)
      else (\<lparr>ex_err = Some ''exit status 1'', ex_stdout = [], ex_stderr = ''Error: syntax error''\<rparr>, w))"

interpretation host: nft_transaction "NFT_Run (host_exec accepts)" "\<lambda>w. w"
  by unfold_locales (auto simp: NFT_Run_def run_cmd_def host_exec_def split: if_splits)

section \<open>Runs of the applier\<close>

inductive applier_step :: "'w runner \<Rightarrow> applier \<times> 'w \<Rightarrow> applier \<times> 'w \<Rightarrow> bool" for run where
  step_Apply: "Apply run text a w = (r, a', w') \<Longrightarrow> text \<noteq> [] \<Longrightarrow> applier_step run (a, w) (a', w')"
| step_Forget: "applier_step run (a, w) (Forget a, w)"

inductive_cases applier_stepE: "applier_step run (a, w) (a', w')"

inductive applier_run :: "'w runner \<Rightarrow> applier \<times> 'w \<Rightarrow> applier \<times> 'w \<Rightarrow> bool" for run where
  run_refl: "applier_run run s s"
| run_step: "applier_run run s t \<Longrightarrow> applier_step run t u \<Longrightarrow> applier_run run s u"

context nft_transaction
begin

lemma run_remembers:
  "applier_run run s t \<Longrightarrow> remembers table (fst s) (snd s) \<Longrightarrow> remembers table (fst t) (snd t)"
proof (induction rule: applier_run.induct)
  case (run_step s t u)
  from run_step.hyps(2) show ?case
  proof cases
    case (step_Apply t a w r a' w')
    then show ?thesis using applier.put_outcome [of a w t r a' w'] run_step.IH run_step.prems by simp
  next
    case (step_Forget a w)
    then show ?thesis using applier.forget_knows by simp
  qed
qed

end

section \<open>Properties\<close>

text \<open>
  C14: whatever the daemon applies and forgets, and whatever nft refuses on the way, what the
  applier remembers as applied is the table the node runs; so skipping an equal text never
  leaves another table on. For any nft that loads a file whole or not at all.
\<close>

theorem applier_tracks_table:
  assumes "nft_transaction run table" and "applier_run run (NewApplier, w) (a, w')" and "ap_applied a \<noteq> []"
  shows "table w' = Some (ap_applied a)"
proof -
  have "remembers table NewApplier w" by (simp add: remembers_def NewApplier_def)
  then show ?thesis
    using nft_transaction.run_remembers [OF assms(1,2)] assms(3) by (simp add: remembers_def)
qed

theorem applier_tracks_table_witness:
  "\<exists>a w. applier_run (NFT_Run (host_exec (\<lambda>t. t \<noteq> ''bad''))) (NewApplier, None) (a, w) \<and>
     ap_applied a = ''one'' \<and> w = Some ''one''"
proof -
  let ?run = "NFT_Run (host_exec (\<lambda>t. t \<noteq> ''bad''))"
  have 1: "Apply ?run ''one'' NewApplier None = (Inr True, \<lparr>ap_applied = ''one''\<rparr>, Some ''one'')"
    by (simp add: Apply_def NewApplier_def NFT_Run_def run_cmd_def host_exec_def)
  obtain e where 2: "Apply ?run ''bad'' \<lparr>ap_applied = ''one''\<rparr> (Some ''one'') = (Inl e, \<lparr>ap_applied = ''one''\<rparr>, Some ''one'')"
    by (simp add: Apply_def NFT_Run_def run_cmd_def host_exec_def)
  have "applier_run ?run (NewApplier, None) (\<lparr>ap_applied = ''one''\<rparr>, Some ''one'')"
    by (rule run_step [OF run_step [OF run_refl step_Apply [OF 1]] step_Apply [OF 2]]) simp_all
  then show ?thesis
    using applier_tracks_table [OF host.nft_transaction_axioms] by fastforce
qed

text \<open>
  A failed load is retried and a successful one is not: after an error the same text
  runs nft again, after a success it does not, and after \<open>Forget\<close> it always does, which puts
  back a table somebody removed behind the daemon's back.
\<close>

lemma Apply_again:
  assumes "nft_transaction run table" and "text \<noteq> []"
    and "Apply run text a w = (r, a', w')" and "a = NewApplier \<or> text \<noteq> ap_applied a"
  shows "Apply run text a' gone = (if isl r then Apply run text a gone else (Inr False, a', gone)) \<and>
    (\<forall>b c v. Apply run text (Forget a') gone = (Inr b, c, v) \<longrightarrow> b \<and> table v = Some text)"
  using assms(2-4) nft_transaction.load_ok [OF assms(1)]
  by (auto simp: Apply_def Forget_def NewApplier_def split: if_splits prod.splits sum.splits)

end
