(* ===== verification/Routes.thy ===== *)
theory Routes
  imports Netip
begin

text \<open>
  \<open>internal/routes/routes.go\<close>: which routes a node should have to the pod CIDRs of its peers,
  and which families it cannot route. \<open>Compute\<close> is a function of the node's name and the
  nodes of the cluster.
\<close>

section \<open>Types\<close>

record rnode =
  rn_Name :: string
  rn_PodCIDRs :: "prefix list"
  rn_InternalIPs :: "addr list"
  rn_AnnotatedIPv6 :: addr

record route =
  rt_Node :: string
  rt_Dst :: prefix
  rt_Via :: addr

definition Route_String :: "route \<Rightarrow> string" where
  "Route_String r = Prefix_String (rt_Dst r) @ '' via '' @ Addr_String (rt_Via r) @ '' (node '' @ rt_Node r @ '')''"

record missing =
  ms_Node :: string
  ms_Family :: string
  ms_PodCIDR :: prefix

definition Missing_String :: "missing \<Rightarrow> string" where
  "Missing_String m =
     (let how = (if ms_Family m = ''IPv6'' then ''InternalIP or annotated address'' else ''InternalIP'')
      in ''node '' @ ms_Node m @ '' has the '' @ ms_Family m @ '' pod CIDR '' @ Prefix_String (ms_PodCIDR m) @
         '' but no '' @ ms_Family m @ '' '' @ how @ ''; no '' @ ms_Family m @ '' route installed for it'')"

section \<open>The computation\<close>

definition rfamily :: "addr \<Rightarrow> string" where
  "rfamily a = (if Is6 a then ''IPv6'' else ''IPv4'')"

definition firstOfFamily :: "addr list \<Rightarrow> bool \<Rightarrow> addr option" where
  "firstOfFamily addrs v6 = find (\<lambda>a. Is6 a = v6) addrs"

definition nextHop :: "rnode \<Rightarrow> bool \<Rightarrow> addr option" where
  "nextHop n v6 =
     (case firstOfFamily (rn_InternalIPs n) v6 of
        Some via \<Rightarrow> Some via
      | None \<Rightarrow> if v6 \<and> Is6 (rn_AnnotatedIPv6 n) then Some (rn_AnnotatedIPv6 n) else None)"

text \<open>\<open>byNodeThenPrefix\<close>, as the key the lists are sorted by.\<close>

definition route_key :: "string \<Rightarrow> prefix \<Rightarrow> string \<times> string" where
  "route_key node p = (node, Prefix_String p)"

text \<open>One pod CIDR of one peer: a route, or a family that cannot be routed.\<close>

definition cidr_route :: "rnode \<Rightarrow> prefix \<Rightarrow> missing + route" where
  "cidr_route n cidr =
     (case nextHop n (Is6 (Prefix_Addr cidr)) of
        None \<Rightarrow> Inl \<lparr>ms_Node = rn_Name n, ms_Family = rfamily (Prefix_Addr cidr), ms_PodCIDR = cidr\<rparr>
      | Some via \<Rightarrow> Inr \<lparr>rt_Node = rn_Name n, rt_Dst = Masked cidr, rt_Via = via\<rparr>)"

definition peer_routes :: "string \<Rightarrow> rnode list \<Rightarrow> (missing + route) list" where
  "peer_routes self nodes =
     concat (map (\<lambda>n. map (cidr_route n) (rn_PodCIDRs n)) (filter (\<lambda>n. rn_Name n \<noteq> self) nodes))"

definition Compute :: "string \<Rightarrow> rnode list \<Rightarrow> route list \<times> missing list" where
  "Compute self nodes =
     (let found = peer_routes self nodes
      in (sort_key (\<lambda>r. route_key (rt_Node r) (rt_Dst r)) (map projr (filter (\<lambda>x. \<not> isl x) found)),
          sort_key (\<lambda>m. route_key (ms_Node m) (ms_PodCIDR m)) (map projl (filter isl found))))"

section \<open>Lemmas\<close>

lemma nextHop_family: "nextHop n v6 = Some via \<Longrightarrow> Is6 via = v6"
  by (auto simp: nextHop_def firstOfFamily_def find_Some_iff split: option.splits if_splits)

lemma set_projs:
  "x \<in> set (map projr (filter (\<lambda>z. \<not> isl z) zs)) \<longleftrightarrow> Inr x \<in> set zs"
  "y \<in> set (map projl (filter isl zs)) \<longleftrightarrow> Inl y \<in> set zs"
  by (force simp: isl_def)+

lemma set_Compute:
  "set (fst (Compute self nodes)) = {r. Inr r \<in> set (peer_routes self nodes)}"
  "set (snd (Compute self nodes)) = {m. Inl m \<in> set (peer_routes self nodes)}"
  using set_projs [of _ "peer_routes self nodes"] by (auto simp: Compute_def Let_def simp del: set_map)

lemma length_Compute:
  "length (fst (Compute self nodes)) + length (snd (Compute self nodes)) = length (peer_routes self nodes)"
  using sum_length_filter_compl [of isl "peer_routes self nodes"] by (simp add: Compute_def Let_def)

lemma mset_concat_map: "mset (concat (map f xs)) = (\<Sum>x \<in># mset xs. mset (f x))"
  by (induction xs) auto

lemma mset_peer_routes: "mset nodes = mset nodes' \<Longrightarrow> mset (peer_routes self nodes) = mset (peer_routes self nodes')"
  by (simp add: peer_routes_def mset_concat_map)

lemma length_peer_routes:
  "length (peer_routes self nodes) = sum_list (map (\<lambda>n. if rn_Name n = self then 0 else length (rn_PodCIDRs n)) nodes)"
  by (induction nodes) (auto simp: peer_routes_def)

lemma peer_routes_iff:
  "x \<in> set (peer_routes self nodes) \<longleftrightarrow>
     (\<exists>n \<in> set nodes. rn_Name n \<noteq> self \<and> (\<exists>c \<in> set (rn_PodCIDRs n). x = cidr_route n c))"
  by (auto simp: peer_routes_def)

lemma cidr_route_Inr:
  "Inr rt = cidr_route n c \<longleftrightarrow> rt_Node rt = rn_Name n \<and> rt_Dst rt = Masked c \<and>
     (case find (\<lambda>a. Is6 a = Is6 (Prefix_Addr c)) (rn_InternalIPs n) of
        Some via \<Rightarrow> rt_Via rt = via
      | None \<Rightarrow> Is6 (Prefix_Addr c) \<and> Is6 (rn_AnnotatedIPv6 n) \<and> rt_Via rt = rn_AnnotatedIPv6 n)"
  by (cases rt) (auto simp: cidr_route_def nextHop_def firstOfFamily_def split: option.splits)

lemma cidr_route_Inl:
  "Inl ms = cidr_route n c \<longleftrightarrow> ms_Node ms = rn_Name n \<and> ms_PodCIDR ms = c \<and> ms_Family ms = rfamily (Prefix_Addr c) \<and>
     list_all (\<lambda>a. Is6 a \<noteq> Is6 (Prefix_Addr c)) (rn_InternalIPs n) \<and>
     \<not> (Is6 (Prefix_Addr c) \<and> Is6 (rn_AnnotatedIPv6 n))"
proof -
  have "list_all (\<lambda>a. Is6 a \<noteq> Is6 (Prefix_Addr c)) (rn_InternalIPs n) \<longleftrightarrow>
      find (\<lambda>a. Is6 a = Is6 (Prefix_Addr c)) (rn_InternalIPs n) = None"
    by (auto simp: find_None_iff list_all_iff)
  then show ?thesis
    by (cases ms) (auto simp: cidr_route_def nextHop_def firstOfFamily_def split: option.splits)
qed

section \<open>Properties\<close>

text \<open>
  C29: the routes a node should have are exactly one per pod CIDR of every other node that has
  an address of that family to route it through, to the masked CIDR and through the first
  InternalIP of the family, or for IPv6 the annotated address where there is none; and every
  pod CIDR without such an address is reported, under its family. The node's own CIDRs get
  neither.
\<close>

theorem Compute_exact:
  "(rt \<in> set (fst (Compute self nodes)) \<longleftrightarrow>
     (\<exists>n \<in> set nodes. rn_Name n \<noteq> self \<and> rt_Node rt = rn_Name n \<and>
       (\<exists>c \<in> set (rn_PodCIDRs n). rt_Dst rt = Masked c \<and>
          (case find (\<lambda>a. Is6 a = Is6 (Prefix_Addr c)) (rn_InternalIPs n) of
             Some via \<Rightarrow> rt_Via rt = via
           | None \<Rightarrow> Is6 (Prefix_Addr c) \<and> Is6 (rn_AnnotatedIPv6 n) \<and> rt_Via rt = rn_AnnotatedIPv6 n)))) \<and>
   (ms \<in> set (snd (Compute self nodes)) \<longleftrightarrow>
     (\<exists>n \<in> set nodes. rn_Name n \<noteq> self \<and> ms_Node ms = rn_Name n \<and> ms_PodCIDR ms \<in> set (rn_PodCIDRs n) \<and>
       ms_Family ms = rfamily (Prefix_Addr (ms_PodCIDR ms)) \<and>
       list_all (\<lambda>a. Is6 a \<noteq> Is6 (Prefix_Addr (ms_PodCIDR ms))) (rn_InternalIPs n) \<and>
       \<not> (Is6 (Prefix_Addr (ms_PodCIDR ms)) \<and> Is6 (rn_AnnotatedIPv6 n)))) \<and>
   length (fst (Compute self nodes)) + length (snd (Compute self nodes)) =
     sum_list (map (\<lambda>n. if rn_Name n = self then 0 else length (rn_PodCIDRs n)) nodes)"
  unfolding set_Compute length_Compute length_peer_routes mem_Collect_eq peer_routes_iff cidr_route_Inr cidr_route_Inl
  by auto

text \<open>
  C30: a route never mixes families: its next hop is of the family of its destination, so the
  kernel is never handed an IPv6 destination with an IPv4 gateway or the reverse.
\<close>

theorem Compute_families:
  assumes "rt \<in> set (fst (Compute self nodes))" and "\<forall>n \<in> set nodes. list_all (\<lambda>c. wf_prefix c \<and> Prefix_IsValid c) (rn_PodCIDRs n)"
  shows "Is6 (rt_Via rt) = Is6 (Prefix_Addr (rt_Dst rt))"
proof -
  obtain n c where n: "n \<in> set nodes" "c \<in> set (rn_PodCIDRs n)" "Inr rt = cidr_route n c"
    using assms(1) by (auto simp: set_Compute peer_routes_iff)
  then have "nextHop n (Is6 (Prefix_Addr c)) = Some (rt_Via rt)" "rt_Dst rt = Masked c"
    by (auto simp: cidr_route_def split: option.splits)
  moreover have "Is6 (Prefix_Addr (Masked c)) = Is6 (Prefix_Addr c)"
    using n(1,2) assms(2) Masked_idem(5) [of c] by (auto simp: list_all_iff)
  ultimately show ?thesis using nextHop_family by simp
qed

definition ex_rnode :: rnode where
  "ex_rnode = \<lparr>rn_Name = ''n2'', rn_PodCIDRs = [Prefix (Addr4 0x0A000105) 24], rn_InternalIPs = [Addr6 1 [], Addr4 0xC0000202],
     rn_AnnotatedIPv6 = AddrZero\<rparr>"

theorem Compute_families_witness:
  "\<lparr>rt_Node = ''n2'', rt_Dst = Prefix (Addr4 0x0A000100) 24, rt_Via = Addr4 0xC0000202\<rparr> \<in> set (fst (Compute ''n1'' [ex_rnode])) \<and>
   Is6 (rt_Via \<lparr>rt_Node = ''n2'', rt_Dst = Prefix (Addr4 0x0A000100) 24, rt_Via = Addr4 0xC0000202\<rparr>) =
     Is6 (Prefix_Addr (Prefix (Addr4 0x0A000100) 24))"
proof -
  have "\<lparr>rt_Node = ''n2'', rt_Dst = Prefix (Addr4 0x0A000100) 24, rt_Via = Addr4 0xC0000202\<rparr> \<in> set (fst (Compute ''n1'' [ex_rnode]))"
    by (simp add: set_Compute peer_routes_iff cidr_route_def nextHop_def firstOfFamily_def ex_rnode_def Masked_def
        PrefixFrom_def Prefix_IsValid_def)
  then show ?thesis
    using Compute_families [of _ "''n1''" "[ex_rnode]"] by (fastforce simp: ex_rnode_def Prefix_IsValid_def wf_prefix_def)
qed

text \<open>
  C31: equal inputs give equal outputs whatever order the nodes are listed in, as the sort is
  meant to ensure: nodes with distinct names and, within a node, distinct CIDRs.
\<close>

theorem Compute_order:
  assumes "mset nodes = mset nodes'" and "distinct (map rn_Name nodes)"
    and "\<forall>n \<in> set nodes. inj_on (\<lambda>c. Prefix_String (Masked c)) (set (rn_PodCIDRs n)) \<and>
      inj_on Prefix_String (set (rn_PodCIDRs n))"
  shows "Compute self nodes = Compute self nodes'"
proof -
  let ?R = "map projr (filter (\<lambda>x. \<not> isl x) (peer_routes self nodes))"
  let ?M = "map projl (filter isl (peer_routes self nodes))"
  have same: "n = n'" if "n \<in> set nodes" "n' \<in> set nodes" "rn_Name n = rn_Name n'" for n n'
    using assms(2) that by (auto simp: distinct_map inj_on_def)
  have "inj_on (\<lambda>r. route_key (rt_Node r) (rt_Dst r)) (set ?R)"
  proof (rule inj_onI)
    fix x y assume "x \<in> set ?R" "y \<in> set ?R" and eq: "route_key (rt_Node x) (rt_Dst x) = route_key (rt_Node y) (rt_Dst y)"
    then obtain n c n' c' where "n \<in> set nodes" "c \<in> set (rn_PodCIDRs n)" "Inr x = cidr_route n c"
      "n' \<in> set nodes" "c' \<in> set (rn_PodCIDRs n')" "Inr y = cidr_route n' c'"
      unfolding set_projs peer_routes_iff by blast
    moreover from this have "n = n'" using same eq by (simp add: route_key_def cidr_route_Inr)
    moreover from calculation have "c = c'"
      using assms(3) eq by (auto simp: route_key_def cidr_route_Inr dest: inj_onD)
    ultimately show "x = y" by (metis sum.inject(2))
  qed
  moreover have "inj_on (\<lambda>m. route_key (ms_Node m) (ms_PodCIDR m)) (set ?M)"
  proof (rule inj_onI)
    fix x y assume "x \<in> set ?M" "y \<in> set ?M" and eq: "route_key (ms_Node x) (ms_PodCIDR x) = route_key (ms_Node y) (ms_PodCIDR y)"
    then obtain n c n' c' where "n \<in> set nodes" "c \<in> set (rn_PodCIDRs n)" "Inl x = cidr_route n c"
      "n' \<in> set nodes" "c' \<in> set (rn_PodCIDRs n')" "Inl y = cidr_route n' c'"
      unfolding set_projs peer_routes_iff by blast
    moreover from this have "n = n'" using same eq by (simp add: route_key_def cidr_route_Inl)
    moreover from calculation have "c = c'"
      using assms(3) eq by (auto simp: route_key_def cidr_route_Inl dest: inj_onD)
    ultimately show "x = y" by (metis sum.inject(1))
  qed
  ultimately show ?thesis
    unfolding Compute_def Let_def using mset_peer_routes [OF assms(1), of self]
    by (intro prod_eqI) (simp_all add: sort_key_perm)
qed

theorem Compute_order_witness:
  "Compute ''n1'' [ex_rnode, ex_rnode\<lparr>rn_Name := ''n3''\<rparr>] = Compute ''n1'' [ex_rnode\<lparr>rn_Name := ''n3''\<rparr>, ex_rnode]"
  by (rule Compute_order) (simp_all add: ex_rnode_def)

end
