(* ===== verification/Controller_Objects.thy ===== *)
theory Controller_Objects
  imports Netpol Routes Netip_Parse
begin

text \<open>
  Reading Kubernetes objects, \<open>fromNode\<close> of \<open>internal/controller/routes.go\<close> and the functions at the
  end of \<open>internal/controller/ruleset.go\<close>. The object types are those of \<open>k8s.io/api\<close>, with the fields
  the daemon reads; what it does not read is one field each, \<open>None\<close> where the object has none of
  it. A value that does not parse is logged and left out, or fails the policy it is in: the
  log is not modelled.
\<close>

section \<open>Objects\<close>

record node_address =
  nad_Type :: string
  nad_Address :: string

record k8s_node =
  kn_Name :: string
  kn_Labels :: labels
  kn_Annotations :: "string \<Rightarrow> string option"
  kn_PodCIDRs :: "string list"
  kn_Addresses :: "node_address list"

record container_port =
  cp_Name :: string
  cp_ContainerPort :: int
  cp_Protocol :: string

record 'x container =
  ct_Name :: string
  ct_RestartPolicy :: "string option"
  ct_Ports :: "container_port list"
  ct_Other :: "'x option"

record 'x k8s_pod =
  kp_TypeMeta :: string
  kp_Namespace :: string
  kp_Name :: string
  kp_UID :: string
  kp_ResourceVersion :: string
  kp_Labels :: labels
  kp_OtherMeta :: "'x option"
  kp_NodeName :: string
  kp_HostNetwork :: bool
  kp_Containers :: "'x container list"
  kp_InitContainers :: "'x container list"
  kp_OtherSpec :: "'x option"
  kp_Phase :: string
  kp_PodIPs :: "string list"
  kp_OtherStatus :: "'x option"

record k8s_namespace =
  kns_Name :: string
  kns_Labels :: labels

datatype int_or_string = IntVal int | StrVal string

record 'sel k8s_peer =
  kpe_PodSelector :: "'sel option"
  kpe_NamespaceSelector :: "'sel option"
  kpe_IPBlock :: "k8s_ipblock option"

record k8s_port =
  kpo_Protocol :: "string option"
  kpo_Port :: "int_or_string option"
  kpo_EndPort :: "int option"

record 'sel k8s_rule =
  kr_Peers :: "'sel k8s_peer list"
  kr_Ports :: "k8s_port list"

record 'sel k8s_policy =
  kpol_Namespace :: string
  kpol_Name :: string
  kpol_PodSelector :: 'sel
  kpol_PolicyTypes :: "string list"
  kpol_Ingress :: "'sel k8s_rule list"
  kpol_Egress :: "'sel k8s_rule list"

section \<open>Addresses\<close>

text \<open>\<open>netip.Addr.IsGlobalUnicast\<close> and what it excludes.\<close>

fun IsLoopback :: "addr \<Rightarrow> bool" where
  "IsLoopback (Addr4 w) = (drop_bit 24 w = 127)"
| "IsLoopback (Addr6 w z) = (if drop_bit 32 w = 0xFFFF then drop_bit 24 (ucast w :: 32 word) = 127 else w = 1)"
| "IsLoopback AddrZero = False"

fun IsMulticast :: "addr \<Rightarrow> bool" where
  "IsMulticast (Addr4 w) = (drop_bit 28 w = 0xE)"
| "IsMulticast (Addr6 w z) = (if drop_bit 32 w = 0xFFFF then drop_bit 28 (ucast w :: 32 word) = 0xE else drop_bit 120 w = 0xFF)"
| "IsMulticast AddrZero = False"

fun IsLinkLocalUnicast :: "addr \<Rightarrow> bool" where
  "IsLinkLocalUnicast (Addr4 w) = (drop_bit 16 w = 0xA9FE)"
| "IsLinkLocalUnicast (Addr6 w z) =
     (if drop_bit 32 w = 0xFFFF then drop_bit 16 (ucast w :: 32 word) = 0xA9FE else drop_bit 118 w = 0x3FA)"
| "IsLinkLocalUnicast AddrZero = False"

definition IsGlobalUnicast :: "addr \<Rightarrow> bool" where
  "IsGlobalUnicast a \<longleftrightarrow>
     a \<noteq> AddrZero \<and> a \<noteq> Addr4 0 \<and> a \<noteq> Addr4 0xFFFFFFFF \<and> a \<noteq> Addr6 0 [] \<and>
     \<not> IsLoopback a \<and> \<not> IsMulticast a \<and> \<not> IsLinkLocalUnicast a"

text \<open>What parses of a list of texts, in order.\<close>

definition parsed :: "(string \<Rightarrow> go_error + 'a) \<Rightarrow> string list \<Rightarrow> 'a list" where
  "parsed f ss = map (\<lambda>s. projr (f s)) (filter (\<lambda>s. \<not> isl (f s)) ss)"

section \<open>Nodes\<close>

text \<open>How often a reconciler that had nothing to do is run again, in nanoseconds.\<close>

definition Resync :: int where "Resync = 5 * 60 * 10 ^ 9"

definition NodeIPv6Annotation :: string where
  "NodeIPv6Annotation = ''cnidaria.unstable.cloud/node-ipv6''"

definition NodeInternalIP :: string where "NodeInternalIP = ''InternalIP''"

definition annotated_ipv6 :: "string option \<Rightarrow> addr" where
  "annotated_ipv6 s =
     (case s of
        None \<Rightarrow> AddrZero
      | Some t \<Rightarrow>
          (case ParseAddr t of
             Inl _ \<Rightarrow> AddrZero
           | Inr ip \<Rightarrow> if \<not> Is6 ip \<or> Is4In6 ip \<or> \<not> IsGlobalUnicast ip then AddrZero else ip))"

definition fromNode :: "k8s_node \<Rightarrow> rnode" where
  "fromNode n =
     \<lparr>rn_Name = kn_Name n,
      rn_PodCIDRs = parsed ParsePrefix (kn_PodCIDRs n),
      rn_InternalIPs = parsed ParseAddr (map nad_Address (filter (\<lambda>a. nad_Type a = NodeInternalIP) (kn_Addresses n))),
      rn_AnnotatedIPv6 = annotated_ipv6 (kn_Annotations n NodeIPv6Annotation)\<rparr>"

section \<open>Pods\<close>

definition containersThatServe :: "'x k8s_pod \<Rightarrow> 'x container list" where
  "containersThatServe p =
     kp_Containers p @ filter (\<lambda>c. ct_RestartPolicy c = Some ''Always'') (kp_InitContainers p)"

definition named_ports :: "container_port list \<Rightarrow> named_port list" where
  "named_ports ps =
     map (\<lambda>p. \<lparr>np_PortName = cp_Name p, np_PortNumber = word_of_int (cp_ContainerPort p), np_PortProtocol = cp_Protocol p\<rparr>)
       (filter (\<lambda>p. \<not> (cp_Name p = [] \<or> cp_ContainerPort p < 1 \<or> cp_ContainerPort p > 65535)) ps)"

definition fromPod :: "'x k8s_pod \<Rightarrow> pod" where
  "fromPod p =
     \<lparr>pod_Namespace = kp_Namespace p, pod_Name = kp_Name p, pod_NodeName = kp_NodeName p, pod_Labels = kp_Labels p,
      pod_IPs = parsed ParseAddr (kp_PodIPs p), pod_HostNetwork = kp_HostNetwork p,
      pod_Terminated = (kp_Phase p = ''Succeeded'' \<or> kp_Phase p = ''Failed''),
      pod_Ports = concat (map (\<lambda>c. named_ports (ct_Ports c)) (containersThatServe p))\<rparr>"

definition keepPorts :: "'x container \<Rightarrow> 'x container" where
  "keepPorts c = \<lparr>ct_Name = ct_Name c, ct_RestartPolicy = ct_RestartPolicy c, ct_Ports = ct_Ports c, ct_Other = None\<rparr>"

datatype ('x, 'o) cached = PodObject "'x k8s_pod" | OtherObject 'o

fun StripPod :: "('x, 'o) cached \<Rightarrow> ('x, 'o) cached" where
  "StripPod (PodObject p) =
     PodObject \<lparr>kp_TypeMeta = kp_TypeMeta p, kp_Namespace = kp_Namespace p, kp_Name = kp_Name p, kp_UID = kp_UID p,
       kp_ResourceVersion = kp_ResourceVersion p, kp_Labels = kp_Labels p, kp_OtherMeta = None,
       kp_NodeName = kp_NodeName p, kp_HostNetwork = kp_HostNetwork p,
       kp_Containers = map keepPorts (kp_Containers p), kp_InitContainers = map keepPorts (kp_InitContainers p),
       kp_OtherSpec = None, kp_Phase = kp_Phase p, kp_PodIPs = kp_PodIPs p, kp_OtherStatus = None\<rparr>"
| "StripPod (OtherObject x) = OtherObject x"

section \<open>Policies\<close>

definition fromIPBlock :: "k8s_ipblock \<Rightarrow> go_error + ip_block" where
  "fromIPBlock b =
     bind_err (map_err (\<lambda>e. ''ipBlock cidr '' @ Quote (ipb_CIDR b) @ '': '' @ e) (ParsePrefix (ipb_CIDR b))) (\<lambda>cidr.
     bind_err (collect_err (\<lambda>e. map_err (\<lambda>m. ''ipBlock except '' @ Quote e @ '': '' @ m) (ParsePrefix e)) (ipb_Except b)) (\<lambda>es.
       Inr \<lparr>blk_CIDR = Masked cidr, blk_Except = map Masked es\<rparr>))"

definition from_peer :: "'sel k8s_peer \<Rightarrow> go_error + 'sel peer" where
  "from_peer q =
     (case kpe_IPBlock q of
        None \<Rightarrow> Inr \<lparr>peer_PodSelector = kpe_PodSelector q, peer_NamespaceSelector = kpe_NamespaceSelector q, peer_IPBlock = None\<rparr>
      | Some b \<Rightarrow>
          bind_err (fromIPBlock b) (\<lambda>blk.
            Inr \<lparr>peer_PodSelector = kpe_PodSelector q, peer_NamespaceSelector = kpe_NamespaceSelector q, peer_IPBlock = Some blk\<rparr>))"

definition from_port :: "k8s_port \<Rightarrow> go_error + np_port" where
  "from_port p =
     bind_err (case kpo_Port p of
         None \<Rightarrow> Inr (0, [])
       | Some (StrVal s) \<Rightarrow> Inr (0, s)
       | Some (IntVal n) \<Rightarrow>
           if 0 < n \<and> n \<le> 65535 then Inr (word_of_int n, []) else Inl (''port '' @ show_int n @ '' is not a port number''))
     (\<lambda>(number, name).
     bind_err (case kpo_EndPort p of
         None \<Rightarrow> Inr 0
       | Some e \<Rightarrow>
           if e < 1 \<or> e > 65535 then Inl (''endPort '' @ show_int e @ '' is not a port number'') else Inr (word_of_int e))
     (\<lambda>end_port.
       Inr \<lparr>port_Protocol = (case kpo_Protocol p of None \<Rightarrow> [] | Some q \<Rightarrow> q), port_Number = number, port_Name = name,
            port_EndPort = end_port\<rparr>))"

definition fromRule :: "'sel k8s_rule \<Rightarrow> go_error + 'sel np_rule" where
  "fromRule r =
     bind_err (collect_err from_peer (kr_Peers r)) (\<lambda>peers.
     bind_err (collect_err from_port (kr_Ports r)) (\<lambda>ports.
       Inr \<lparr>rule_Peers = peers, rule_Ports = ports\<rparr>))"

definition fromNetworkPolicy :: "'sel k8s_policy \<Rightarrow> go_error + 'sel network_policy" where
  "fromNetworkPolicy p =
     map_err (\<lambda>e. ''NetworkPolicy '' @ kpol_Namespace p @ ''/'' @ kpol_Name p @ '': '' @ e)
       (bind_err (collect_err fromRule (kpol_Ingress p)) (\<lambda>ingress.
        bind_err (collect_err fromRule (kpol_Egress p)) (\<lambda>egress.
          Inr \<lparr>pol_Namespace = kpol_Namespace p, pol_Name = kpol_Name p, pol_PodSelector = kpol_PodSelector p,
               pol_PolicyTypes = kpol_PolicyTypes p, pol_Ingress = ingress, pol_Egress = egress\<rparr>)))"

section \<open>What is read\<close>

text \<open>A policy as it is meant to be read, every number in its range and every CIDR its masked prefix.\<close>

definition block_reads :: "k8s_ipblock \<Rightarrow> ip_block \<Rightarrow> bool" where
  "block_reads b q \<longleftrightarrow>
     (\<exists>c es. ParsePrefix (ipb_CIDR b) = Inr c \<and> list_all2 (\<lambda>s e. ParsePrefix s = Inr e) (ipb_Except b) es \<and>
        blk_CIDR q = Masked c \<and> blk_Except q = map Masked es)"

definition peer_reads :: "'sel k8s_peer \<Rightarrow> 'sel peer \<Rightarrow> bool" where
  "peer_reads p q \<longleftrightarrow> peer_PodSelector q = kpe_PodSelector p \<and> peer_NamespaceSelector q = kpe_NamespaceSelector p \<and>
     rel_option block_reads (kpe_IPBlock p) (peer_IPBlock q)"

definition port_reads :: "k8s_port \<Rightarrow> np_port \<Rightarrow> bool" where
  "port_reads p q \<longleftrightarrow>
     port_Protocol q = (case kpo_Protocol p of None \<Rightarrow> [] | Some s \<Rightarrow> s) \<and>
     (case kpo_Port p of
        None \<Rightarrow> port_Number q = 0 \<and> port_Name q = []
      | Some (StrVal s) \<Rightarrow> port_Number q = 0 \<and> port_Name q = s
      | Some (IntVal n) \<Rightarrow> 0 < n \<and> uint (port_Number q) = n \<and> port_Name q = []) \<and>
     (case kpo_EndPort p of None \<Rightarrow> port_EndPort q = 0 | Some e \<Rightarrow> 0 < e \<and> uint (port_EndPort q) = e)"

definition rule_reads :: "'sel k8s_rule \<Rightarrow> 'sel np_rule \<Rightarrow> bool" where
  "rule_reads r q \<longleftrightarrow> list_all2 peer_reads (kr_Peers r) (rule_Peers q) \<and> list_all2 port_reads (kr_Ports r) (rule_Ports q)"

definition policy_reads :: "'sel k8s_policy \<Rightarrow> 'sel network_policy \<Rightarrow> bool" where
  "policy_reads p q \<longleftrightarrow> pol_Namespace q = kpol_Namespace p \<and> pol_Name q = kpol_Name p \<and>
     pol_PodSelector q = kpol_PodSelector p \<and> pol_PolicyTypes q = kpol_PolicyTypes p \<and>
     list_all2 rule_reads (kpol_Ingress p) (pol_Ingress q) \<and> list_all2 rule_reads (kpol_Egress p) (pol_Egress q)"

text \<open>Reading is the relation, each way: what is returned is what is meant, and it is returned where there is such a reading.\<close>

definition reads_as :: "('a \<Rightarrow> go_error + 'b) \<Rightarrow> ('a \<Rightarrow> 'b \<Rightarrow> bool) \<Rightarrow> bool" where
  "reads_as f R \<longleftrightarrow> (\<forall>x y. f x = Inr y \<longleftrightarrow> R x y)"

lemma reads_as_collect: "reads_as f R \<Longrightarrow> reads_as (collect_err f) (list_all2 R)"
  unfolding reads_as_def collect_err_Inr by (simp add: list_all2_iff)

lemma uint_port: "0 < n \<Longrightarrow> n \<le> 65535 \<Longrightarrow> uint (word_of_int n :: 16 word) = n"
  by (simp add: uint_word_of_int)

lemma uint_port_bound: "uint (w :: 16 word) \<le> 65535"
  using uint_bounded [of w] by simp

lemma port_of_int: "0 < n \<and> n \<le> 65535 \<and> word_of_int n = w \<longleftrightarrow> 0 < n \<and> uint (w :: 16 word) = n"
  using uint_port [of n] uint_port_bound [of w] by (metis word_of_int_uint)

lemma fromIPBlock_reads: "reads_as fromIPBlock block_reads"
proof -
  have "fromIPBlock b = Inr q \<longleftrightarrow> block_reads b q" for b q
    by (cases q) (auto simp: fromIPBlock_def block_reads_def bind_err_Inr collect_err_Inr)
  then show ?thesis by (simp add: reads_as_def)
qed

lemma from_peer_reads: "reads_as (from_peer :: 'sel k8s_peer \<Rightarrow> _) peer_reads"
proof -
  have "from_peer p = Inr q \<longleftrightarrow> peer_reads p q" for p :: "'sel k8s_peer" and q
    using fromIPBlock_reads
    by (cases q; cases "kpe_IPBlock p"; cases "peer_IPBlock q")
      (auto simp: from_peer_def peer_reads_def bind_err_Inr reads_as_def)
  then show ?thesis by (simp add: reads_as_def)
qed

lemma end_port_reads:
  "(case e of
      None \<Rightarrow> Inr 0
    | Some e \<Rightarrow> if e < 1 \<or> e > 65535 then Inl (''endPort '' @ show_int e @ '' is not a port number'') else Inr (word_of_int e)) = Inr w \<longleftrightarrow>
   (case e of None \<Rightarrow> w = 0 | Some e \<Rightarrow> 0 < e \<and> uint (w :: 16 word) = e)"
proof (cases e)
  case (Some n)
  then show ?thesis using port_of_int [of n w] by auto
qed auto

lemma number_reads:
  "(case q of
      None \<Rightarrow> Inr (0, [])
    | Some (StrVal s) \<Rightarrow> Inr (0, s)
    | Some (IntVal n) \<Rightarrow>
        if 0 < n \<and> n \<le> 65535 then Inr (word_of_int n, []) else Inl (''port '' @ show_int n @ '' is not a port number'')) = Inr (w, t) \<longleftrightarrow>
   (case q of
      None \<Rightarrow> w = 0 \<and> t = []
    | Some (StrVal s) \<Rightarrow> w = 0 \<and> t = s
    | Some (IntVal n) \<Rightarrow> 0 < n \<and> uint (w :: 16 word) = n \<and> t = [])"
proof (cases q)
  case (Some v)
  show ?thesis
  proof (cases v)
    case (IntVal n)
    then show ?thesis using Some port_of_int [of n w] by auto
  qed (use Some in auto)
qed auto

lemma from_port_reads: "reads_as from_port port_reads"
proof -
  have "from_port p = Inr q \<longleftrightarrow> port_reads p q" for p q
    unfolding from_port_def bind_err_Inr split_paired_Ex number_reads prod.case end_port_reads port_reads_def
    by (cases q) (auto cong: option.case_cong int_or_string.case_cong)
  then show ?thesis by (simp add: reads_as_def)
qed

lemma fromRule_reads: "reads_as (fromRule :: 'sel k8s_rule \<Rightarrow> _) rule_reads"
proof -
  have "fromRule r = Inr q \<longleftrightarrow> rule_reads r q" for r :: "'sel k8s_rule" and q
    using reads_as_collect [OF from_peer_reads] reads_as_collect [OF from_port_reads]
    by (cases q) (auto simp: fromRule_def rule_reads_def bind_err_Inr reads_as_def)
  then show ?thesis by (simp add: reads_as_def)
qed

lemma fromNetworkPolicy_reads: "reads_as (fromNetworkPolicy :: 'sel k8s_policy \<Rightarrow> _) policy_reads"
proof -
  have "fromNetworkPolicy p = Inr q \<longleftrightarrow> policy_reads p q" for p :: "'sel k8s_policy" and q
    using reads_as_collect [OF fromRule_reads]
    by (cases q) (auto simp: fromNetworkPolicy_def policy_reads_def bind_err_Inr reads_as_def)
  then show ?thesis by (simp add: reads_as_def)
qed

section \<open>Properties\<close>

text \<open>
  C39: what the cache keeps of a pod is enough: the renderer reads off the stripped pod what it
  would read off the whole one, the identity the cache indexes by is kept, stripping again
  changes nothing, and an object that is not a pod is passed through.
\<close>

theorem StripPod_equiv:
  "(\<exists>q. StripPod (PodObject p) = PodObject q \<and> fromPod q = fromPod p \<and>
      kp_TypeMeta q = kp_TypeMeta p \<and> kp_UID q = kp_UID p \<and> kp_ResourceVersion q = kp_ResourceVersion p) \<and>
   StripPod (StripPod x) = StripPod x \<and> StripPod (OtherObject y) = OtherObject y"
  by (cases x) (auto simp: fromPod_def containersThatServe_def keepPorts_def filter_map comp_def)

text \<open>
  C40: a NetworkPolicy is read exactly where every CIDR in it parses and every number is a port
  number, and then without loss: the same selectors, types, rules, peers and ports in the same
  order, each block masked and each number the number written, none wrapped around at 16 bits. A
  policy that cannot be read is an error that names it.
\<close>

theorem fromNetworkPolicy_exact:
  "(fromNetworkPolicy p = Inr q \<longleftrightarrow> policy_reads p q) \<and>
   (case fromNetworkPolicy p of
      Inl e \<Rightarrow> HasPrefix e (''NetworkPolicy '' @ kpol_Namespace p @ ''/'' @ kpol_Name p @ '': '')
    | Inr _ \<Rightarrow> True)"
proof -
  have "HasPrefix e (''NetworkPolicy '' @ kpol_Namespace p @ ''/'' @ kpol_Name p @ '': '')" if "fromNetworkPolicy p = Inl e" for e
    using that unfolding fromNetworkPolicy_def map_err_Inl by auto
  then show ?thesis
    using fromNetworkPolicy_reads unfolding reads_as_def by (intro conjI) (blast, simp split: sum.splits)
qed

end
