(* ===== verification/Controller_Ruleset.thy ===== *)
theory Controller_Ruleset
  imports Netpol_Spec Nft_Apply Controller_Objects
begin

text \<open>
  The ruleset reconciler, \<open>internal/controller/ruleset.go\<close>: reading what the table is rendered from,
  rendering it, putting it on the node, and saying in the status of each NodeNetworkPolicy what
  this node runs of it. The API server behind the client is a parameter on the state \<open>'w\<close>, as is
  the applier, whose contract is the locale \<open>table_applier\<close>. Registering the reconciler with the
  manager is wiring and is not modelled.
\<close>

section \<open>The client\<close>

record ('sel, 'x, 'w) api =
  List_Nodes :: "'w \<Rightarrow> go_error + k8s_node list"
  List_Pods :: "'w \<Rightarrow> go_error + 'x k8s_pod list"
  List_Namespaces :: "'w \<Rightarrow> go_error + k8s_namespace list"
  List_NetworkPolicies :: "'w \<Rightarrow> go_error + 'sel k8s_policy list"
  List_NodeNetworkPolicies :: "'w \<Rightarrow> go_error + 'sel node_network_policy list"
  Status_Update :: "'sel node_network_policy \<Rightarrow> 'w \<Rightarrow> go_error option \<times> 'w"

section \<open>Status\<close>

record 'sel policy_status =
  ps_policy :: "'sel node_network_policy"
  ps_entry :: "nnp_node_status option"

text \<open>The loop of \<open>withEntry\<close>: the list so far and whether an entry was found, or nothing where it returns early.\<close>

fun with_entry_loop ::
  "string \<Rightarrow> nnp_node_status option \<Rightarrow> nnp_node_status list \<Rightarrow> nnp_node_status list \<Rightarrow> bool \<Rightarrow>
     (nnp_node_status list \<times> bool) option" where
  "with_entry_loop name entry [] out found = Some (out, found)"
| "with_entry_loop name entry (n # ns) out found =
     (if st_Name n \<noteq> name then with_entry_loop name entry ns (out @ [n]) found
      else if entry = Some n then None
      else with_entry_loop name entry ns (case entry of Some e \<Rightarrow> out @ [e] | None \<Rightarrow> out) True)"

definition withEntry ::
  "nnp_node_status list \<Rightarrow> string \<Rightarrow> nnp_node_status option \<Rightarrow> nnp_node_status list option" where
  "withEntry nodes name entry =
     (case with_entry_loop name entry nodes [] False of
        None \<Rightarrow> None
      | Some (out, found) \<Rightarrow>
          if found then Some out else (case entry of None \<Rightarrow> None | Some e \<Rightarrow> Some (out @ [e])))"

fun writeStatus ::
  "('sel, 'x, 'w) api \<Rightarrow> string \<Rightarrow> 'sel policy_status list \<Rightarrow> 'w \<Rightarrow> go_error option \<times> 'w" where
  "writeStatus c nodeName [] w = (None, w)"
| "writeStatus c nodeName (s # ss) w =
     (case withEntry (nnp_Status_Nodes (ps_policy s)) nodeName (ps_entry s) of
        None \<Rightarrow> writeStatus c nodeName ss w
      | Some nodes \<Rightarrow>
          (case Status_Update c (ps_policy s\<lparr>nnp_Status_Nodes := nodes\<rparr>) w of
             (Some e, w') \<Rightarrow> (Some (''status of NodeNetworkPolicy '' @ nnp_Name (ps_policy s) @ '': '' @ e), w')
           | (None, w') \<Rightarrow> writeStatus c nodeName ss w'))"

section \<open>Rendering\<close>

text \<open>
  \<open>addNodeNetworkPolicies\<close>: the new table and the status, or the error, with the status that goes
  with it. An error is one of a policy the renderer refused or any other.
\<close>

datatype add_error = Refused go_error | Failed go_error

definition refused_status ::
  "string \<Rightarrow> string \<Rightarrow> go_error \<Rightarrow> 'sel node_network_policy list \<Rightarrow> 'sel policy_status list" where
  "refused_status nodeName policy msg policies =
     (case find (\<lambda>p. nnp_Name p = policy) policies of
        None \<Rightarrow> []
      | Some p \<Rightarrow>
          [\<lparr>ps_policy = p,
            ps_entry = Some \<lparr>st_Name = nodeName, st_ObservedGeneration = nnp_Generation p, st_Mode = [], st_Message = msg\<rparr>\<rparr>])"

definition mode_status ::
  "string \<Rightarrow> (string \<Rightarrow> mode option) \<Rightarrow> 'sel node_network_policy \<Rightarrow> 'sel policy_status" where
  "mode_status nodeName modes p =
     \<lparr>ps_policy = p,
      ps_entry = map_option (\<lambda>m. \<lparr>st_Name = nodeName, st_ObservedGeneration = nnp_Generation p, st_Mode = m, st_Message = []\<rparr>)
        (modes (nnp_Name p))\<rparr>"

definition addNodeNetworkPolicies ::
  "('sel, 'x, 'w) api \<Rightarrow> 'sel as_selector \<Rightarrow> string \<Rightarrow> ruleset \<Rightarrow> labels \<Rightarrow> 'w \<Rightarrow>
     (add_error \<times> 'sel policy_status list) + (ruleset \<times> 'sel policy_status list)" where
  "addNodeNetworkPolicies c asel nodeName rs labels w =
     (case List_NodeNetworkPolicies c w of
        Inl e \<Rightarrow> Inl (Failed (''list node policies: '' @ e), [])
      | Inr policies \<Rightarrow>
          (case nodepol_Add asel rs \<lparr>ni_Name = nodeName, ni_Labels = labels\<rparr> policies of
             Inl (TableError e) \<Rightarrow> Inl (Failed e, [])
           | Inl (PolicyError policy e) \<Rightarrow>
               Inl (Refused (''nodepol: policy '' @ policy @ '': '' @ e), refused_status nodeName policy e policies)
           | Inr (rs', modes) \<Rightarrow> Inr (rs', map (mode_status nodeName modes) policies)))"

text \<open>What \<open>render\<close> reads off the nodes: the CIDRs of all, and of this one its CIDRs and labels.\<close>

definition read_nodes :: "string \<Rightarrow> k8s_node list \<Rightarrow> prefix list \<times> prefix list \<times> labels" where
  "read_nodes nodeName nodes =
     fold (\<lambda>n (cluster, own, labels).
         let cidrs = rn_PodCIDRs (fromNode n)
         in if kn_Name n = nodeName then (cluster @ cidrs, cidrs, kn_Labels n) else (cluster @ cidrs, own, labels))
       nodes ([], [], Map.empty)"

definition np_params_of ::
  "string \<Rightarrow> 'x k8s_pod list \<Rightarrow> k8s_namespace list \<Rightarrow> 'sel network_policy list \<Rightarrow> 'sel np_params" where
  "np_params_of nodeName pods nss policies =
     \<lparr>np_NodeName = nodeName, np_Pods = map fromPod pods,
      np_Namespaces = map (\<lambda>n. \<lparr>ns_Name = kns_Name n, ns_Labels = kns_Labels n\<rparr>) nss, np_Policies = policies\<rparr>"

text \<open>
  \<open>render\<close>: an error that is retried, or the text, empty where there is none to apply, and the
  status. What the API server holds that cannot be rendered is logged and gives no text.
\<close>

definition render ::
  "('sel, 'x, 'w) api \<Rightarrow> 'sel as_selector \<Rightarrow> (labels \<Rightarrow> bool) \<Rightarrow> string \<Rightarrow> safe_ports \<Rightarrow> 'w \<Rightarrow>
     go_error + string \<times> 'sel policy_status list" where
  "render c asel everything nodeName safe w =
     bind_err (map_err (\<lambda>e. ''list nodes: '' @ e) (List_Nodes c w)) (\<lambda>nodes.
     let (cluster, own, labels) = read_nodes nodeName nodes in
     if own = [] then Inr ([], [])
     else
       bind_err (map_err (\<lambda>e. ''list pods: '' @ e) (List_Pods c w)) (\<lambda>pods.
       bind_err (map_err (\<lambda>e. ''list namespaces: '' @ e) (List_Namespaces c w)) (\<lambda>nss.
       bind_err (map_err (\<lambda>e. ''list network policies: '' @ e) (List_NetworkPolicies c w)) (\<lambda>policies.
         case collect_err fromNetworkPolicy policies of
           Inl _ \<Rightarrow> Inr ([], [])
         | Inr nps \<Rightarrow>
             (case bind_err (Render \<lparr>PodCIDRs = own, ClusterPodCIDRs = cluster, SafePorts = safe\<rparr>)
                     (\<lambda>rs. netpol_Add asel everything rs (np_params_of nodeName pods nss nps)) of
                Inl _ \<Rightarrow> Inr ([], [])
              | Inr rs \<Rightarrow>
                  (case addNodeNetworkPolicies c asel nodeName rs labels w of
                     Inl (Failed e, _) \<Rightarrow> Inl e
                   | Inl (Refused _, status) \<Rightarrow> Inr ([], status)
                   | Inr (rs', status) \<Rightarrow> Inr (Ruleset_String rs', status)))))))"

section \<open>Reconcile\<close>

text \<open>Times are nanoseconds since the zero time, which is what \<open>lastApply\<close> starts as.\<close>

record 'a reconciler =
  rc_lastApply :: int
  rc_applier :: 'a

record ('sel, 'x, 'a, 'w) ruleset_env =
  re_Client :: "('sel, 'x, 'w) api"
  re_NodeName :: string
  re_SafePorts :: safe_ports
  re_Apply :: "string \<Rightarrow> 'a \<Rightarrow> 'w \<Rightarrow> (go_error + bool) \<times> 'a \<times> 'w"
  re_Forget :: "'a \<Rightarrow> 'a"
  re_Now :: "'w \<Rightarrow> int"
  re_AsSelector :: "'sel as_selector"
  re_Everything :: "labels \<Rightarrow> bool"

definition ruleset_render :: "('sel, 'x, 'a, 'w) ruleset_env \<Rightarrow> 'w \<Rightarrow> go_error + string \<times> 'sel policy_status list" where
  "ruleset_render E w = render (re_Client E) (re_AsSelector E) (re_Everything E) (re_NodeName E) (re_SafePorts E) w"

text \<open>The apply step, where there is a text: an error, or the state after it.\<close>

definition put_table ::
  "('sel, 'x, 'a, 'w) ruleset_env \<Rightarrow> string \<Rightarrow> 'a reconciler \<Rightarrow> 'w \<Rightarrow> go_error option \<times> 'a reconciler \<times> 'w" where
  "put_table E text r w =
     (let a = (if re_Now E w - rc_lastApply r \<ge> Resync then re_Forget E (rc_applier r) else rc_applier r)
      in case re_Apply E text a w of
           (Inl e, a', w') \<Rightarrow> (Some (''apply the nftables table: '' @ e), r\<lparr>rc_applier := a'\<rparr>, w')
         | (Inr changed, a', w') \<Rightarrow>
             (None, if changed then r\<lparr>rc_applier := a', rc_lastApply := re_Now E w'\<rparr> else r\<lparr>rc_applier := a'\<rparr>, w'))"

definition Ruleset_Reconcile ::
  "('sel, 'x, 'a, 'w) ruleset_env \<Rightarrow> 'a reconciler \<Rightarrow> 'w \<Rightarrow> (go_error + int) \<times> 'a reconciler \<times> 'w" where
  "Ruleset_Reconcile E r w =
     (case ruleset_render E w of
        Inl e \<Rightarrow> (Inl e, r, w)
      | Inr (text, status) \<Rightarrow>
          (let (err, r', w') = (if text \<noteq> [] then put_table E text r w else (None, r, w))
           in case err of
                Some e \<Rightarrow> (Inl e, r', w')
              | None \<Rightarrow>
                  (case writeStatus (re_Client E) (re_NodeName E) status w' of
                     (Some e, w'') \<Rightarrow> (Inl e, r', w'')
                   | (None, w'') \<Rightarrow> (Inr Resync, r', w''))))"

section \<open>Lemmas: the status\<close>

definition entry_list :: "'a option \<Rightarrow> 'a list" where
  "entry_list e = (case e of None \<Rightarrow> [] | Some x \<Rightarrow> [x])"

lemma entry_list_simps [simp]:
  "entry_list None = []" "entry_list (Some x) = [x]" "entry_list e = [] \<longleftrightarrow> e = None"
  "entry_list e = [x] \<longleftrightarrow> e = Some x" "[x] = entry_list e \<longleftrightarrow> e = Some x"
  by (auto simp: entry_list_def split: option.splits)

lemma with_entry_loop_eq:
  "with_entry_loop name entry ns out found =
     (if list_ex (\<lambda>n. st_Name n = name \<and> entry = Some n) ns then None
      else Some (out @ concat (map (\<lambda>n. if st_Name n \<noteq> name then [n] else entry_list entry) ns),
                 found \<or> list_ex (\<lambda>n. st_Name n = name) ns))"
  by (induction name entry ns out found rule: with_entry_loop.induct) (auto split: option.splits)

text \<open>
  Where the list has at most one entry per node, as its list type has it: nothing is written
  exactly where the entry is already right, and otherwise this node's entry is what it should
  be and the entries of the others are as they were, in their order.
\<close>

lemma own_entries:
  "distinct (map st_Name ns) \<Longrightarrow> filter (\<lambda>n. st_Name n = name) ns = [] \<or> (\<exists>n. filter (\<lambda>n. st_Name n = name) ns = [n])"
proof (induction ns)
  case (Cons n ns)
  then show ?case
    by (cases "st_Name n = name") (auto simp: filter_empty_conv, metis image_eqI)
qed simp

lemma others_kept:
  assumes "\<forall>e. entry = Some e \<longrightarrow> st_Name e = name"
  shows "filter (\<lambda>n. st_Name n \<noteq> name) (concat (map (\<lambda>n. if st_Name n \<noteq> name then [n] else entry_list entry) ns)) =
    filter (\<lambda>n. st_Name n \<noteq> name) ns"
  using assms by (induction ns) (auto split: option.splits simp: entry_list_def)

lemma own_replaced:
  assumes "\<forall>e. entry = Some e \<longrightarrow> st_Name e = name"
  shows "filter (\<lambda>n. st_Name n = name) (concat (map (\<lambda>n. if st_Name n \<noteq> name then [n] else entry_list entry) ns)) =
    concat (map (\<lambda>_. entry_list entry) (filter (\<lambda>n. st_Name n = name) ns))"
  using assms by (induction ns) (auto split: option.splits simp: entry_list_def)

lemma withEntry_outcome:
  assumes "distinct (map st_Name ns)" "\<forall>e. entry = Some e \<longrightarrow> st_Name e = name"
  shows "case withEntry ns name entry of
      None \<Rightarrow> filter (\<lambda>n. st_Name n = name) ns = entry_list entry
    | Some out \<Rightarrow> filter (\<lambda>n. st_Name n = name) ns \<noteq> entry_list entry \<and>
        filter (\<lambda>n. st_Name n = name) out = entry_list entry \<and>
        filter (\<lambda>n. st_Name n \<noteq> name) out = filter (\<lambda>n. st_Name n \<noteq> name) ns"
proof -
  let ?own = "filter (\<lambda>n. st_Name n = name) ns"
  have ex: "list_ex (\<lambda>n. st_Name n = name \<and> entry = Some n) ns \<longleftrightarrow> (\<exists>n \<in> set ?own. entry = Some n)"
    "list_ex (\<lambda>n. st_Name n = name) ns \<longleftrightarrow> ?own \<noteq> []"
    by (auto simp: list_ex_iff filter_empty_conv)
  note kept = others_kept [OF assms(2), of ns] and repl = own_replaced [OF assms(2), of ns]
  have e: "filter (\<lambda>n. st_Name n = name) (entry_list entry) = entry_list entry"
    "filter (\<lambda>n. st_Name n \<noteq> name) (entry_list entry) = []"
    using assms(2) by (cases entry; simp)+
  from own_entries [OF assms(1), of name] show ?thesis
  proof
    assume "?own = []"
    then show ?thesis unfolding withEntry_def with_entry_loop_eq ex
      using kept repl e by (auto split: option.splits)
  next
    assume "\<exists>n. ?own = [n]"
    then obtain n where "?own = [n]" by blast
    then show ?thesis unfolding withEntry_def with_entry_loop_eq ex
      using kept repl e by (auto split: option.splits)
  qed
qed

section \<open>Lemmas: what is rendered\<close>

text \<open>
  The table is rendered: every list was read, every policy was read and rendered, and the text
  is that of the whole table.
\<close>

record ('sel, 'x) inputs =
  in_Nodes :: "k8s_node list"
  in_Pods :: "'x k8s_pod list"
  in_Namespaces :: "k8s_namespace list"
  in_Policies :: "'sel network_policy list"
  in_NodePolicies :: "'sel node_network_policy list"

definition inputs_params :: "string \<Rightarrow> safe_ports \<Rightarrow> ('sel, 'x) inputs \<Rightarrow> params" where
  "inputs_params nodeName safe I =
     \<lparr>PodCIDRs = fst (snd (read_nodes nodeName (in_Nodes I))), ClusterPodCIDRs = fst (read_nodes nodeName (in_Nodes I)),
      SafePorts = safe\<rparr>"

definition inputs_np :: "string \<Rightarrow> ('sel, 'x) inputs \<Rightarrow> 'sel np_params" where
  "inputs_np nodeName I = np_params_of nodeName (in_Pods I) (in_Namespaces I) (in_Policies I)"

definition inputs_node :: "string \<Rightarrow> ('sel, 'x) inputs \<Rightarrow> node_info" where
  "inputs_node nodeName I = \<lparr>ni_Name = nodeName, ni_Labels = snd (snd (read_nodes nodeName (in_Nodes I)))\<rparr>"

definition inputs_read :: "('sel, 'x, 'w) api \<Rightarrow> 'w \<Rightarrow> ('sel, 'x) inputs \<Rightarrow> bool" where
  "inputs_read c w I \<longleftrightarrow>
     List_Nodes c w = Inr (in_Nodes I) \<and> List_Pods c w = Inr (in_Pods I) \<and> List_Namespaces c w = Inr (in_Namespaces I) \<and>
     (\<exists>ps. List_NetworkPolicies c w = Inr ps \<and> collect_err fromNetworkPolicy ps = Inr (in_Policies I)) \<and>
     List_NodeNetworkPolicies c w = Inr (in_NodePolicies I)"

definition whole_table ::
  "('sel, 'x, 'a, 'w) ruleset_env \<Rightarrow> ('sel, 'x) inputs \<Rightarrow> ruleset \<Rightarrow> (string \<Rightarrow> mode option) \<Rightarrow> bool" where
  "whole_table E I R modes \<longleftrightarrow>
     PodCIDRs (inputs_params (re_NodeName E) (re_SafePorts E) I) \<noteq> [] \<and>
     (\<exists>r0 r1. Render (inputs_params (re_NodeName E) (re_SafePorts E) I) = Inr r0 \<and>
        netpol_Add (re_AsSelector E) (re_Everything E) r0 (inputs_np (re_NodeName E) I) = Inr r1 \<and>
        nodepol_Add (re_AsSelector E) r1 (inputs_node (re_NodeName E) I) (in_NodePolicies I) = Inr (R, modes))"

lemma Ruleset_String_not_Nil [simp]: "Ruleset_String R \<noteq> []"
  by (simp add: Ruleset_String_def)

lemmas bind_err_splits = sum.splits prod.splits nodepol_error.splits add_error.splits if_splits

lemma addNodeNetworkPolicies_Inr:
  "addNodeNetworkPolicies c asel nodeName rs labels w = Inr (R, status) \<longleftrightarrow>
   (\<exists>policies modes. List_NodeNetworkPolicies c w = Inr policies \<and>
      nodepol_Add asel rs \<lparr>ni_Name = nodeName, ni_Labels = labels\<rparr> policies = Inr (R, modes) \<and>
      status = map (mode_status nodeName modes) policies)"
  by (auto simp: addNodeNetworkPolicies_def split: sum.splits nodepol_error.splits)

text \<open>The tail of \<open>render\<close>, once everything but the node policies has been read.\<close>

lemma render_tail:
  assumes "t \<noteq> []"
  shows "(case collect_err fromNetworkPolicy policies of
       Inl _ \<Rightarrow> Inr ([], [])
     | Inr nps \<Rightarrow>
         (case bind_err (Render prm) (\<lambda>rs. netpol_Add asel everything rs (np nps)) of
            Inl _ \<Rightarrow> Inr ([], [])
          | Inr rs \<Rightarrow>
              (case addNodeNetworkPolicies c asel nodeName rs labels w of
                 Inl (Failed e, _) \<Rightarrow> Inl e
               | Inl (Refused _, status) \<Rightarrow> Inr ([], status)
               | Inr (rs', status) \<Rightarrow> Inr (Ruleset_String rs', status)))) = Inr (t, status) \<longleftrightarrow>
   (\<exists>nps r0 r1 R. collect_err fromNetworkPolicy policies = Inr nps \<and> Render prm = Inr r0 \<and>
      netpol_Add asel everything r0 (np nps) = Inr r1 \<and>
      addNodeNetworkPolicies c asel nodeName r1 labels w = Inr (R, status) \<and> t = Ruleset_String R)"
proof (cases "collect_err fromNetworkPolicy policies")
  case (Inl e)
  then show ?thesis using assms by auto
next
  case nps: (Inr nps)
  show ?thesis
  proof (cases "bind_err (Render prm) (\<lambda>rs. netpol_Add asel everything rs (np nps))")
    case (Inl e)
    then show ?thesis using assms nps by (auto simp: bind_err_Inl)
  next
    case (Inr r1)
    then show ?thesis using assms nps
      by (cases "addNodeNetworkPolicies c asel nodeName r1 labels w") (auto simp: bind_err_Inr split: add_error.splits)
  qed
qed

lemma render_text:
  "ruleset_render E w = Inr (t, status) \<and> t \<noteq> [] \<longleftrightarrow>
   (\<exists>I R modes. inputs_read (re_Client E) w I \<and> whole_table E I R modes \<and> t = Ruleset_String R \<and>
      status = map (mode_status (re_NodeName E) modes) (in_NodePolicies I))"
    (is "?L \<longleftrightarrow> ?R")
proof
  assume L: ?L
  then obtain nodes where nodes: "List_Nodes (re_Client E) w = Inr nodes"
    by (auto simp: ruleset_render_def render_def bind_err_Inr)
  obtain cluster own labels where rn: "read_nodes (re_NodeName E) nodes = (cluster, own, labels)"
    by (metis prod_cases3)
  then have own: "own \<noteq> []" using L nodes by (auto simp: ruleset_render_def render_def split: if_splits)
  from L obtain pods nss policies where
    api: "List_Pods (re_Client E) w = Inr pods" "List_Namespaces (re_Client E) w = Inr nss"
      "List_NetworkPolicies (re_Client E) w = Inr policies"
    using nodes rn own by (auto simp: ruleset_render_def render_def bind_err_Inr)
  from L have "\<exists>nps r0 r1 R. collect_err fromNetworkPolicy policies = Inr nps \<and>
      Render \<lparr>PodCIDRs = own, ClusterPodCIDRs = cluster, SafePorts = re_SafePorts E\<rparr> = Inr r0 \<and>
      netpol_Add (re_AsSelector E) (re_Everything E) r0 (np_params_of (re_NodeName E) pods nss nps) = Inr r1 \<and>
      addNodeNetworkPolicies (re_Client E) (re_AsSelector E) (re_NodeName E) r1 labels w = Inr (R, status) \<and> t = Ruleset_String R"
    using nodes rn own api by (simp add: ruleset_render_def render_def render_tail [OF conjunct2 [OF L]])
  then obtain nps r0 r1 R policies' modes where
    "collect_err fromNetworkPolicy policies = Inr nps" "t = Ruleset_String R"
    "Render \<lparr>PodCIDRs = own, ClusterPodCIDRs = cluster, SafePorts = re_SafePorts E\<rparr> = Inr r0"
    "netpol_Add (re_AsSelector E) (re_Everything E) r0 (np_params_of (re_NodeName E) pods nss nps) = Inr r1"
    "List_NodeNetworkPolicies (re_Client E) w = Inr policies'"
    "nodepol_Add (re_AsSelector E) r1 \<lparr>ni_Name = re_NodeName E, ni_Labels = labels\<rparr> policies' = Inr (R, modes)"
    "status = map (mode_status (re_NodeName E) modes) policies'"
    unfolding addNodeNetworkPolicies_Inr by blast
  then have "inputs_read (re_Client E) w \<lparr>in_Nodes = nodes, in_Pods = pods, in_Namespaces = nss, in_Policies = nps, in_NodePolicies = policies'\<rparr> \<and>
    whole_table E \<lparr>in_Nodes = nodes, in_Pods = pods, in_Namespaces = nss, in_Policies = nps, in_NodePolicies = policies'\<rparr> R modes"
    using nodes rn own api
    by (simp add: inputs_read_def whole_table_def inputs_params_def inputs_np_def inputs_node_def)
  then show ?R using \<open>t = _\<close> \<open>status = _\<close> by (metis inputs.select_convs(5))
next
  assume ?R
  then obtain I R modes where I: "inputs_read (re_Client E) w I" and W: "whole_table E I R modes" and
    t: "t = Ruleset_String R" "status = map (mode_status (re_NodeName E) modes) (in_NodePolicies I)" by blast
  obtain cluster own labels where rn: "read_nodes (re_NodeName E) (in_Nodes I) = (cluster, own, labels)"
    by (metis prod_cases3)
  from I obtain ps where ps: "List_NetworkPolicies (re_Client E) w = Inr ps" "collect_err fromNetworkPolicy ps = Inr (in_Policies I)"
    by (auto simp: inputs_read_def)
  from W obtain r0 r1 where r: "own \<noteq> []" "Render \<lparr>PodCIDRs = own, ClusterPodCIDRs = cluster, SafePorts = re_SafePorts E\<rparr> = Inr r0"
    "netpol_Add (re_AsSelector E) (re_Everything E) r0 (np_params_of (re_NodeName E) (in_Pods I) (in_Namespaces I) (in_Policies I)) = Inr r1"
    "nodepol_Add (re_AsSelector E) r1 \<lparr>ni_Name = re_NodeName E, ni_Labels = labels\<rparr> (in_NodePolicies I) = Inr (R, modes)"
    by (auto simp: whole_table_def inputs_params_def inputs_np_def inputs_node_def rn)
  then have "addNodeNetworkPolicies (re_Client E) (re_AsSelector E) (re_NodeName E) r1 labels w = Inr (R, status)"
    using I t by (auto simp: addNodeNetworkPolicies_Inr inputs_read_def)
  then show ?L using I ps r t rn by (simp add: ruleset_render_def render_def inputs_read_def)
qed

lemma render_whole:
  "inputs_read (re_Client E) w I \<Longrightarrow> whole_table E I R modes \<Longrightarrow>
     ruleset_render E w = Inr (Ruleset_String R, map (mode_status (re_NodeName E) modes) (in_NodePolicies I))"
  using render_text [of E w "Ruleset_String R"] by blast

section \<open>What the reconciler relies on\<close>

text \<open>
  The applier keeps its contract, no clock goes back, and writing a status touches neither the
  table nor what the applier knows of it.
\<close>

locale ruleset_node =
  table_applier "re_Apply E" "re_Forget E" table knows
  for E :: "('sel, 'x, 'a, 'w) ruleset_env" and table :: "'w \<Rightarrow> string option" and knows :: "'a \<Rightarrow> 'w \<Rightarrow> bool" +
  assumes status_table: "table (snd (Status_Update (re_Client E) p w)) = table w"
    and status_knows: "knows a (snd (Status_Update (re_Client E) p w)) = knows a w"
    and status_clock: "re_Now E w \<le> re_Now E (snd (Status_Update (re_Client E) p w))"
    and apply_clock: "re_Now E w \<le> re_Now E (snd (snd (re_Apply E t a w)))"
begin

lemma writeStatus_frame:
  "writeStatus (re_Client E) nodeName ss w = (err, w') \<Longrightarrow>
     table w' = table w \<and> (knows a w' \<longleftrightarrow> knows a w) \<and> re_Now E w \<le> re_Now E w'"
proof (induction ss arbitrary: w)
  case (Cons s ss)
  show ?case
  proof (cases "withEntry (nnp_Status_Nodes (ps_policy s)) nodeName (ps_entry s)")
    case None
    then show ?thesis using Cons by simp
  next
    case (Some nodes)
    obtain e w1 where u: "Status_Update (re_Client E) (ps_policy s\<lparr>nnp_Status_Nodes := nodes\<rparr>) w = (e, w1)" by (metis surj_pair)
    note F = status_table [of "ps_policy s\<lparr>nnp_Status_Nodes := nodes\<rparr>" w, unfolded u]
      status_knows [of a "ps_policy s\<lparr>nnp_Status_Nodes := nodes\<rparr>" w, unfolded u]
      status_clock [of w "ps_policy s\<lparr>nnp_Status_Nodes := nodes\<rparr>", unfolded u]
    show ?thesis using Cons.prems Some u F Cons.IH [of w1] by (cases e) auto
  qed
qed simp

lemma put_table_outcome:
  assumes "put_table E t r w = (err, r', w')" "t \<noteq> []"
    and "knows (rc_applier r) w \<or> Resync \<le> re_Now E w - rc_lastApply r"
  shows "knows (rc_applier r') w' \<and> table w' = (if err = None then Some t else table w) \<and> re_Now E w \<le> re_Now E w' \<and>
    (rc_lastApply r \<le> re_Now E w \<longrightarrow> rc_lastApply r' \<le> re_Now E w')"
proof -
  define a where "a = (if re_Now E w - rc_lastApply r \<ge> Resync then re_Forget E (rc_applier r) else rc_applier r)"
  have k: "knows a w" using assms(3) forget_knows by (auto simp: a_def)
  obtain res a' w1 where put: "re_Apply E t a w = (res, a', w1)" by (metis prod_cases3)
  note P = put_outcome [OF k assms(2) put] and C = apply_clock [of w t a, unfolded put]
  show ?thesis
    using assms(1) put P C by (cases res) (auto simp: put_table_def a_def [symmetric] Let_def)
qed

lemma reconcile_cases:
  assumes "Ruleset_Reconcile E r w = (res, r', w')"
    and "knows (rc_applier r) w \<or> Resync \<le> re_Now E w - rc_lastApply r"
  obtains (idle) "\<not> (\<exists>I R modes. inputs_read (re_Client E) w I \<and> whole_table E I R modes)" "r' = r" "table w' = table w"
      "knows (rc_applier r') w' \<longleftrightarrow> knows (rc_applier r) w" "re_Now E w \<le> re_Now E w'"
  | (put) I R modes where "inputs_read (re_Client E) w I" "whole_table E I R modes"
      "table w' = Some (Ruleset_String R) \<or> isl res \<and> table w' = table w" "knows (rc_applier r') w'" "re_Now E w \<le> re_Now E w'"
      "rc_lastApply r \<le> re_Now E w \<longrightarrow> rc_lastApply r' \<le> re_Now E w'"
proof (cases "ruleset_render E w")
  case (Inl e)
  then have none: "\<not> (\<exists>I R modes. inputs_read (re_Client E) w I \<and> whole_table E I R modes)"
    by (auto dest: render_whole)
  have eqs: "r' = r" "w' = w" using assms(1) Inl by (simp_all add: Ruleset_Reconcile_def)
  show thesis by (rule idle [OF none]) (simp_all add: eqs)
next
  case (Inr ts)
  then obtain t status where ts: "ruleset_render E w = Inr (t, status)" by (metis surj_pair)
  show thesis
  proof (cases "t = []")
    case True
    then have none: "\<not> (\<exists>I R modes. inputs_read (re_Client E) w I \<and> whole_table E I R modes)"
      using ts by (auto dest: render_whole)
    obtain e w1 where st: "writeStatus (re_Client E) (re_NodeName E) status w = (e, w1)" by (metis surj_pair)
    have "r' = r" "w' = w1" using assms(1) ts True st by (auto simp: Ruleset_Reconcile_def split: option.splits)
    then show thesis using idle [OF none] writeStatus_frame [OF st] by simp
  next
    case False
    then obtain I R modes where I: "inputs_read (re_Client E) w I" "whole_table E I R modes" and t: "t = Ruleset_String R"
      using render_text [of E w t status] ts by blast
    obtain err r1 w1 where p: "put_table E t r w = (err, r1, w1)" by (metis prod_cases3)
    note P = put_table_outcome [OF p False assms(2)]
    show thesis
    proof (cases err)
      case (Some e)
      then have "res = Inl e" "r' = r1" "w' = w1" using assms(1) ts False p by (auto simp: Ruleset_Reconcile_def)
      then show thesis using put [OF I] P Some by simp
    next
      case None
      obtain e w2 where st: "writeStatus (re_Client E) (re_NodeName E) status w1 = (e, w2)" by (metis surj_pair)
      have "r' = r1" "w' = w2" using assms(1) ts False p None st by (auto simp: Ruleset_Reconcile_def split: option.splits)
      then show thesis using put [OF I] P None writeStatus_frame [OF st, of "rc_applier r1"] t by auto
    qed
  qed
qed

end

text \<open>The object a status was computed from is the one the server holds, with one entry per node.\<close>

definition fresh_status :: "(string \<Rightarrow> nnp_node_status list) \<Rightarrow> string \<Rightarrow> 'sel policy_status \<Rightarrow> bool" where
  "fresh_status held me s \<longleftrightarrow> nnp_Status_Nodes (ps_policy s) = held (nnp_Name (ps_policy s)) \<and>
     distinct (map st_Name (held (nnp_Name (ps_policy s)))) \<and> (\<forall>e. ps_entry s = Some e \<longrightarrow> st_Name e = me)"

text \<open>
  The statuses the API server holds: an update that is accepted puts the list of the object it
  is given under its name, one that is refused puts nothing, and nft does not touch them.
\<close>

locale status_node = ruleset_node E table knows
  for E :: "('sel, 'x, 'a, 'w) ruleset_env" and table :: "'w \<Rightarrow> string option" and knows :: "'a \<Rightarrow> 'w \<Rightarrow> bool" +
  fixes entries :: "'w \<Rightarrow> string \<Rightarrow> nnp_node_status list"
  assumes update_ok: "Status_Update (re_Client E) p w = (None, w') \<Longrightarrow> entries w' = (entries w)(nnp_Name p := nnp_Status_Nodes p)"
    and update_err: "Status_Update (re_Client E) p w = (Some e, w') \<Longrightarrow> entries w' = entries w"
    and apply_entries: "entries (snd (snd (re_Apply E t a w))) = entries w"
begin

lemma writeStatus_entries:
  assumes "writeStatus (re_Client E) me ss w = (err, w')"
    and "list_all (fresh_status (entries w) me) ss" "distinct (map (\<lambda>s. nnp_Name (ps_policy s)) ss)"
  shows "(\<forall>n. filter (\<lambda>e. st_Name e \<noteq> me) (entries w' n) = filter (\<lambda>e. st_Name e \<noteq> me) (entries w n)) \<and>
    (\<forall>n. n \<notin> (\<lambda>s. nnp_Name (ps_policy s)) ` set ss \<longrightarrow> entries w' n = entries w n) \<and>
    (err = None \<longrightarrow> (\<forall>s \<in> set ss. filter (\<lambda>e. st_Name e = me) (entries w' (nnp_Name (ps_policy s))) = entry_list (ps_entry s)))"
  using assms
proof (induction ss arbitrary: w)
  case (Cons s ss)
  let ?p = "ps_policy s" and ?n = "nnp_Name (ps_policy s)"
  have fresh: "nnp_Status_Nodes ?p = entries w ?n" "distinct (map st_Name (entries w ?n))" "\<forall>e. ps_entry s = Some e \<longrightarrow> st_Name e = me"
    using Cons.prems(2) by (simp_all add: fresh_status_def)
  note W = withEntry_outcome [OF fresh(2,3)]
  have new: "?n \<notin> (\<lambda>s. nnp_Name (ps_policy s)) ` set ss" and dist: "distinct (map (\<lambda>s. nnp_Name (ps_policy s)) ss)"
    using Cons.prems(3) by simp_all
  show ?case
  proof (cases "withEntry (entries w ?n) me (ps_entry s)")
    case None
    then have "writeStatus (re_Client E) me ss w = (err, w')" using Cons.prems(1) fresh(1) by simp
    from Cons.IH [OF this] show ?thesis using Cons.prems(2) dist new W None by auto
  next
    case (Some nodes)
    obtain e w1 where u: "Status_Update (re_Client E) (?p\<lparr>nnp_Status_Nodes := nodes\<rparr>) w = (e, w1)" by (metis surj_pair)
    show ?thesis
    proof (cases e)
      case E: (Some msg)
      then have "w' = w1" "err \<noteq> None" using Cons.prems(1) fresh(1) Some u by auto
      then show ?thesis using update_err [OF u [unfolded E]] by auto
    next
      case N: None
      have w1: "entries w1 = (entries w)(?n := nodes)" using update_ok [OF u [unfolded N]] by simp
      have rest: "writeStatus (re_Client E) me ss w1 = (err, w')" using Cons.prems(1) fresh(1) Some u N by simp
      have "list_all (fresh_status (entries w1) me) ss"
        using Cons.prems(2) new unfolding list_all_iff by (auto simp: fresh_status_def w1 image_iff)
      note IH = Cons.IH [OF rest this dist]
      have "filter (\<lambda>e. st_Name e = me) nodes = entry_list (ps_entry s)"
        "filter (\<lambda>e. st_Name e \<noteq> me) nodes = filter (\<lambda>e. st_Name e \<noteq> me) (entries w ?n)"
        using W Some by simp_all
      moreover have "entries w' ?n = nodes" using IH new w1 by simp
      ultimately show ?thesis using IH w1 by auto
    qed
  qed
qed simp

end

section \<open>A node\<close>

text \<open>
  A node and its API server to interpret the locale on: the objects, the table, a clock that
  goes on with every command and write. \<open>accepts\<close> says which texts nft would load.
\<close>

record ('sel, 'x) host =
  h_Nodes :: "k8s_node list"
  h_Pods :: "'x k8s_pod list"
  h_Namespaces :: "k8s_namespace list"
  h_Policies :: "'sel k8s_policy list"
  h_NodePolicies :: "'sel node_network_policy list"
  h_Table :: "string option"
  h_Time :: int

definition host_api :: "('sel, 'x, ('sel, 'x) host) api" where
  "host_api =
     \<lparr>List_Nodes = (\<lambda>w. Inr (h_Nodes w)), List_Pods = (\<lambda>w. Inr (h_Pods w)), List_Namespaces = (\<lambda>w. Inr (h_Namespaces w)),
      List_NetworkPolicies = (\<lambda>w. Inr (h_Policies w)), List_NodeNetworkPolicies = (\<lambda>w. Inr (h_NodePolicies w)),
      Status_Update = (\<lambda>p w.
        if list_all (\<lambda>q. nnp_Name q \<noteq> nnp_Name p) (h_NodePolicies w) then (Some ''not found'', w)
        else (None, w\<lparr>h_NodePolicies := map (\<lambda>q. if nnp_Name q = nnp_Name p
         then q\<lparr>nnp_Status_Nodes := nnp_Status_Nodes p\<rparr> else q) (h_NodePolicies w), h_Time := h_Time w + 1\<rparr>))\<rparr>"

definition host_nft :: "(string \<Rightarrow> bool) \<Rightarrow> ('sel, 'x) host exec" where
  "host_nft accepts name args stdin w =
     (let (res, t) = host_exec accepts name args stdin (h_Table w) in (res, w\<lparr>h_Table := t, h_Time := h_Time w + 1\<rparr>))"

definition host_env :: "(string \<Rightarrow> bool) \<Rightarrow> 'sel as_selector \<Rightarrow> string \<Rightarrow> ('sel, 'x, applier, ('sel, 'x) host) ruleset_env" where
  "host_env accepts asel nodeName =
     \<lparr>re_Client = host_api, re_NodeName = nodeName, re_SafePorts = DefaultSafePorts,
      re_Apply = Apply (NFT_Run (host_nft accepts)), re_Forget = Forget, re_Now = h_Time,
      re_AsSelector = asel, re_Everything = (\<lambda>_. True)\<rparr>"

interpretation host_node: nft_transaction "NFT_Run (host_nft accepts)" h_Table
  by unfold_locales (auto simp: NFT_Run_def run_cmd_def host_nft_def host_exec_def split: if_splits)

interpretation node: ruleset_node "host_env accepts asel nodeName" h_Table "remembers h_Table"
proof (rule ruleset_node.intro)
  show "table_applier (re_Apply (host_env accepts asel nodeName)) (re_Forget (host_env accepts asel nodeName)) h_Table (remembers h_Table)"
    using host_node.applier.table_applier_axioms [of accepts] by (simp add: host_env_def)
  show "ruleset_node_axioms (host_env accepts asel nodeName) h_Table (remembers h_Table)"
    by unfold_locales
      (simp_all add: host_env_def host_api_def remembers_def Apply_def NFT_Run_def run_cmd_def host_nft_def case_prod_beta
        split: option.splits)
qed

definition host_entries :: "('sel, 'x) host \<Rightarrow> string \<Rightarrow> nnp_node_status list" where
  "host_entries w n = (case find (\<lambda>p. nnp_Name p = n) (h_NodePolicies w) of None \<Rightarrow> [] | Some p \<Rightarrow> nnp_Status_Nodes p)"

lemma find_map_status:
  "find (\<lambda>q. nnp_Name q = n) (map (\<lambda>q. if nnp_Name q = m then q\<lparr>nnp_Status_Nodes := ns\<rparr> else q) ps) =
     map_option (\<lambda>q. if n = m then q\<lparr>nnp_Status_Nodes := ns\<rparr> else q) (find (\<lambda>q. nnp_Name q = n) ps)"
  by (induction ps) auto

interpretation status: status_node "host_env accepts asel nodeName :: ('sel, 'x, applier, ('sel, 'x) host) ruleset_env" h_Table "remembers h_Table" host_entries
proof
  fix p :: "'sel node_network_policy" and w w' :: "('sel, 'x) host"
  assume "Status_Update (re_Client (host_env accepts asel nodeName)) p w = (None, w')"
  moreover from this have "find (\<lambda>q. nnp_Name q = nnp_Name p) (h_NodePolicies w) \<noteq> None"
    by (auto simp: host_env_def host_api_def list_all_iff find_None_iff split: if_splits)
  ultimately show "host_entries w' = (host_entries w)(nnp_Name p := nnp_Status_Nodes p)"
    by (auto simp: host_env_def host_api_def host_entries_def find_map_status fun_eq_iff split: if_splits option.splits)
next
  fix p :: "'sel node_network_policy" and w w' :: "('sel, 'x) host" and e
  assume "Status_Update (re_Client (host_env accepts asel nodeName)) p w = (Some e, w')"
  then show "host_entries w' = host_entries w" by (auto simp: host_env_def host_api_def split: if_splits)
next
  fix t a and w :: "('sel, 'x) host"
  show "host_entries (snd (snd (re_Apply (host_env accepts asel nodeName) t a w))) = host_entries w"
    by (auto simp: host_env_def host_entries_def fun_eq_iff Apply_def NFT_Run_def run_cmd_def host_nft_def case_prod_beta
        split: option.splits)
qed

section \<open>A concrete cluster\<close>

text \<open>The objects the witnesses evaluate: those the examples of the renderers are read from.\<close>

definition ex_k8s_pod :: "unit k8s_pod" where
  "ex_k8s_pod = \<lparr>kp_TypeMeta = ''Pod'', kp_Namespace = ''shop'', kp_Name = ''web'', kp_UID = ''u'', kp_ResourceVersion = ''1'',
     kp_Labels = (\<lambda>k. None), kp_OtherMeta = Some (), kp_NodeName = ''n1'', kp_HostNetwork = False,
     kp_Containers = [\<lparr>ct_Name = ''c'', ct_RestartPolicy = None,
       ct_Ports = [\<lparr>cp_Name = ''http'', cp_ContainerPort = 8080, cp_Protocol = ''TCP''\<rparr>], ct_Other = Some ()\<rparr>],
     kp_InitContainers = [], kp_OtherSpec = None, kp_Phase = ''Running'', kp_PodIPs = [''10.0.0.5''], kp_OtherStatus = None\<rparr>"

definition ex_k8s_policy :: "unit k8s_policy" where
  "ex_k8s_policy = \<lparr>kpol_Namespace = ''shop'', kpol_Name = ''web'', kpol_PodSelector = (), kpol_PolicyTypes = [],
     kpol_Ingress = [\<lparr>kr_Peers = [\<lparr>kpe_PodSelector = None, kpe_NamespaceSelector = None,
         kpe_IPBlock = Some \<lparr>ipb_CIDR = ''192.0.2.0/24'', ipb_Except = [''192.0.2.128/25'']\<rparr>\<rparr>],
       kr_Ports = [\<lparr>kpo_Protocol = Some ''TCP'', kpo_Port = Some (StrVal ''http''), kpo_EndPort = None\<rparr>]\<rparr>],
     kpol_Egress = []\<rparr>"

definition ex_host :: "(unit, unit) host" where
  "ex_host = \<lparr>h_Nodes = [\<lparr>kn_Name = ''n1'', kn_Labels = (\<lambda>k. None), kn_Annotations = (\<lambda>k. None), kn_PodCIDRs = [''10.0.0.0/24''],
       kn_Addresses = []\<rparr>],
     h_Pods = [ex_k8s_pod], h_Namespaces = [], h_Policies = [ex_k8s_policy], h_NodePolicies = [ex_policy],
     h_Table = None, h_Time = 10 ^ 18\<rparr>"

definition ex_inputs :: "(unit, unit) inputs" where
  "ex_inputs = \<lparr>in_Nodes = h_Nodes ex_host, in_Pods = [ex_k8s_pod], in_Namespaces = [], in_Policies = [ex_netpol],
     in_NodePolicies = [ex_policy]\<rparr>"

definition ex_env :: "(unit, unit, applier, (unit, unit) host) ruleset_env" where
  "ex_env = host_env (\<lambda>_. True) ex_asel ''n1''"

definition ex_h_params :: params where
  "ex_h_params = \<lparr>PodCIDRs = [Prefix (Addr4 0x0A000000) 24], ClusterPodCIDRs = [Prefix (Addr4 0x0A000000) 24],
     SafePorts = DefaultSafePorts\<rparr>"

lemma ex_parse: "ParsePrefix ''10.0.0.0/24'' = Inr (Prefix (Addr4 0x0A000000) 24)" "ParseAddr ''10.0.0.5'' = Inr (Addr4 0x0A000005)"
  by (simp_all add: ParsePrefix_eval)

lemma ex_inputs_read: "inputs_read (re_Client ex_env) ex_host ex_inputs"
proof -
  have "fromNetworkPolicy ex_k8s_policy = Inr ex_netpol"
    by (simp add: fromNetworkPolicy_def fromRule_def from_peer_def from_port_def fromIPBlock_def ex_k8s_policy_def ex_netpol_def
        ex_cidrs Masked_def PrefixFrom_def)
  then show ?thesis by (simp add: inputs_read_def ex_env_def host_env_def host_api_def ex_host_def ex_inputs_def)
qed

lemma ex_inputs_facts:
  "inputs_params ''n1'' DefaultSafePorts ex_inputs = ex_h_params" "inputs_np ''n1'' ex_inputs = ex_np_params"
  "inputs_node ''n1'' ex_inputs = ex_node"
  by (simp_all add: inputs_params_def inputs_np_def inputs_node_def read_nodes_def fromNode_def parsed_def ex_parse ex_h_params_def
      ex_inputs_def ex_host_def np_params_of_def fromPod_def containersThatServe_def named_ports_def ex_k8s_pod_def ex_np_params_def
      ex_pods_def ex_node_def Let_def)

lemma ex_whole: "\<exists>R modes. whole_table ex_env ex_inputs R modes"
proof -
  have r0: "Render ex_h_params = Inr \<lparr>rs_Sets = Render_sets ex_h_params, rs_Chains = Render_chains DefaultSafePorts\<rparr>" (is "_ = Inr ?r0")
    by (simp add: Render_def validate_def ex_h_params_def DefaultSafePorts_def Prefix_IsValid_def)
  obtain r1 where r1: "netpol_Add ex_asel (\<lambda>_. True) ?r0 ex_np_params = Inr r1"
    using netpol_Add_outcome [OF Render_has_hooks [OF r0], where asel = ex_asel and everything = "\<lambda>_. True" and P = ex_np_params]
      ex_np_accepted by (cases "netpol_Add ex_asel (\<lambda>_. True) ?r0 ex_np_params") (auto simp: ex_np_params_def)
  have st: "settled read_match ex_asel ex_np_params ?r0 r1"
    using reader.netpol_Add_settled [OF r0 r1 ex_np_wf(1) _ netpol_Add_unique [OF r0 r1 ex_np_wf(2,3)]] by simp
  have "Ruleset_Chain r1 ChainInput \<noteq> None" "Ruleset_Chain r1 ChainOutput \<noteq> None"
    using settled_Chain [OF st] Render_Chain [OF r0] by (auto simp: chain_name_defs)
  then obtain R modes where "nodepol_Add ex_asel r1 ex_node [ex_policy] = Inr (R, modes)"
    using nodepol_Add_Inl [of r1 ex_asel ex_node "[ex_policy]"] ex_accepted
    by (cases "nodepol_Add ex_asel r1 ex_node [ex_policy]") auto
  then have "whole_table ex_env ex_inputs R modes"
    using r0 r1 by (auto simp: whole_table_def ex_env_def host_env_def ex_inputs_facts) (simp_all add: ex_h_params_def ex_inputs_def)
  then show ?thesis by blast
qed

text \<open>A reconcile of this cluster at a time the table is due goes through.\<close>

lemma ex_run:
  assumes "whole_table ex_env ex_inputs R modes" "inputs_read (re_Client ex_env) w ex_inputs" "Resync \<le> h_Time w - rc_lastApply r"
  shows "\<exists>r' w'. Ruleset_Reconcile ex_env r w = (Inr Resync, r', w')"
proof -
  have pol: "h_NodePolicies w = [ex_policy]"
    using assms(2) by (simp add: inputs_read_def ex_env_def host_env_def host_api_def ex_inputs_def)
  have me: "re_NodeName ex_env = ''n1''" "re_Client ex_env = host_api" by (simp_all add: ex_env_def host_env_def)
  let ?w1 = "w\<lparr>h_Table := Some (Ruleset_String R), h_Time := h_Time w + 1\<rparr>"
  have put: "put_table ex_env (Ruleset_String R) r w =
      (None, r\<lparr>rc_applier := \<lparr>ap_applied = Ruleset_String R\<rparr>, rc_lastApply := h_Time w + 1\<rparr>, ?w1)"
    using assms(3) by (simp add: put_table_def ex_env_def host_env_def Forget_def Apply_def NFT_Run_def run_cmd_def host_nft_def
        host_exec_def)
  obtain w2 where "writeStatus host_api ''n1'' [mode_status ''n1'' modes ex_policy] ?w1 = (None, w2)"
    using pol by (cases "modes ''db''")
      (simp_all add: mode_status_def withEntry_def host_api_def, simp_all add: ex_policy_def)
  then show ?thesis
    using render_whole [OF assms(2,1)] put by (simp add: Ruleset_Reconcile_def me ex_inputs_def)
qed

section \<open>Properties\<close>

text \<open>
  C3: a reconcile never leaves a part of the table on the node. Whatever fails, the table is the
  one that was on or the whole one: every list was read, every NetworkPolicy and every selecting
  NodeNetworkPolicy is in it. Where one of them cannot be read or rendered the table stays as it
  is. And the applier is never mistaken about the table afterwards.
\<close>

theorem reconcile_whole_table:
  assumes "ruleset_node E table knows" and "Ruleset_Reconcile E r w = (res, r', w')" and "knows (rc_applier r) w"
  shows "knows (rc_applier r') w' \<and>
    (table w' = table w \<or>
     (\<exists>I R modes. inputs_read (re_Client E) w I \<and> whole_table E I R modes \<and> table w' = Some (Ruleset_String R)))"
proof (rule ruleset_node.reconcile_cases [OF assms(1,2) disjI1 [OF assms(3)]], goal_cases)
  case 1
  then show ?case using assms(3) by simp
next
  case (2 I R modes)
  then show ?case by blast
qed

theorem reconcile_whole_table_witness:
  "\<exists>r' w'. Ruleset_Reconcile ex_env \<lparr>rc_lastApply = 0, rc_applier = NewApplier\<rparr> ex_host = (Inr Resync, r', w') \<and>
     remembers h_Table (rc_applier r') w'"
proof -
  obtain R modes where "whole_table ex_env ex_inputs R modes" using ex_whole by blast
  then obtain r' w' where run: "Ruleset_Reconcile ex_env \<lparr>rc_lastApply = 0, rc_applier = NewApplier\<rparr> ex_host = (Inr Resync, r', w')"
    using ex_run [OF _ ex_inputs_read] by (fastforce simp: ex_host_def Resync_def)
  show ?thesis
    using run reconcile_whole_table [OF node.ruleset_node_axioms run [unfolded ex_env_def]]
    by (auto simp: remembers_def NewApplier_def)
qed

text \<open>
  C8: a table somebody removed or changed behind the daemon's back comes back. A successful
  reconcile asks to be run again after \<open>Resync\<close>; whatever has happened to the table by then, and
  whatever the applier remembers, a successful run at that time leaves the whole table on.
\<close>

theorem reconcile_recovers:
  assumes "ruleset_node E table knows"
    and "Ruleset_Reconcile E r w = (Inr delay, r1, w1)" and "knows (rc_applier r) w" and "rc_lastApply r \<le> re_Now E w"
    and "re_Now E w1 + delay \<le> re_Now E w2"
    and "inputs_read (re_Client E) w2 I" and "whole_table E I R modes"
    and "Ruleset_Reconcile E r1 w2 = (Inr delay', r2, w3)"
  shows "table w3 = Some (Ruleset_String R)"
proof -
  have delay: "delay = Resync" "delay' = Resync"
    using assms(2,8) by (auto simp: Ruleset_Reconcile_def split: sum.splits prod.splits option.splits if_splits)
  have "rc_lastApply r1 \<le> re_Now E w1"
    by (rule ruleset_node.reconcile_cases [OF assms(1,2) disjI1 [OF assms(3)]]) (use assms(4) in simp_all)
  then have late: "Resync \<le> re_Now E w2 - rc_lastApply r1" using assms(5) delay by simp
  have tx: "ruleset_render E w2 = Inr (Ruleset_String R, map (mode_status (re_NodeName E) modes) (in_NodePolicies I))"
    by (rule render_whole [OF assms(6,7)])
  obtain err r' w' where p: "put_table E (Ruleset_String R) r1 w2 = (err, r', w')" by (metis prod_cases3)
  have "err = None" using assms(8) tx p by (cases err) (auto simp: Ruleset_Reconcile_def)
  then obtain e where st: "writeStatus (re_Client E) (re_NodeName E) (map (mode_status (re_NodeName E) modes) (in_NodePolicies I)) w' = (e, w3)"
    using assms(8) tx p by (auto simp: Ruleset_Reconcile_def split: prod.splits option.splits)
  show ?thesis
    using ruleset_node.put_table_outcome [OF assms(1) p _ disjI2 [OF late]] \<open>err = None\<close>
      ruleset_node.writeStatus_frame [OF assms(1) st] by simp
qed

theorem reconcile_recovers_witness:
  "\<exists>R r1 w1 r2 w3. Ruleset_Reconcile ex_env \<lparr>rc_lastApply = 0, rc_applier = NewApplier\<rparr> ex_host = (Inr Resync, r1, w1) \<and>
     Ruleset_Reconcile ex_env r1 (ex_host\<lparr>h_Time := h_Time w1 + Resync\<rparr>) = (Inr Resync, r2, w3) \<and>
     h_Table w3 = Some (Ruleset_String R)"
proof -
  obtain R modes where W: "whole_table ex_env ex_inputs R modes" using ex_whole by blast
  then obtain r1 w1 where run1: "Ruleset_Reconcile ex_env \<lparr>rc_lastApply = 0, rc_applier = NewApplier\<rparr> ex_host = (Inr Resync, r1, w1)"
    using ex_run [OF _ ex_inputs_read] by (fastforce simp: ex_host_def Resync_def)
  let ?w2 = "ex_host\<lparr>h_Time := h_Time w1 + Resync\<rparr>"
  have read: "inputs_read (re_Client ex_env) ?w2 ex_inputs"
    using ex_inputs_read by (simp add: inputs_read_def ex_env_def host_env_def host_api_def)
  have know: "remembers h_Table NewApplier ex_host" by (simp add: remembers_def NewApplier_def)
  have "rc_lastApply r1 \<le> h_Time w1"
    by (rule node.reconcile_cases [OF run1 [unfolded ex_env_def]])
      (use know in \<open>auto simp: host_env_def ex_host_def\<close>)
  then obtain r2 w3 where run2: "Ruleset_Reconcile ex_env r1 ?w2 = (Inr Resync, r2, w3)"
    using ex_run [OF W read, of r1] by auto
  have "h_Table w3 = Some (Ruleset_String R)"
    using reconcile_recovers [OF node.ruleset_node_axioms run1 [unfolded ex_env_def] _ _ _ read [unfolded ex_env_def]
        W [unfolded ex_env_def] run2 [unfolded ex_env_def]] know
    by (simp add: host_env_def ex_host_def)
  then show ?thesis using run1 run2 by blast
qed

text \<open>
  C18: the status says what the node runs. The objects read render to a whole table, no policy among
  them being refused. Where the reconcile then succeeds, the table is on and every NodeNetworkPolicy holds, for this node, exactly the mode it took effect in, or no
  entry where it does not select the node; where the table did not go on nothing is written. The
  entries of the other nodes are never changed. The policies are those the API server holds, with one
  entry per node.
\<close>

theorem reconcile_status:
  assumes "status_node E table knows held" and "Ruleset_Reconcile E r w = (res, r', w')" and "knows (rc_applier r) w"
    and "inputs_read (re_Client E) w I" and "whole_table E I R modes"
    and "distinct (map nnp_Name (in_NodePolicies I))"
    and "\<forall>p \<in> set (in_NodePolicies I). nnp_Status_Nodes p = held w (nnp_Name p) \<and> distinct (map st_Name (nnp_Status_Nodes p))"
  shows "(\<forall>n. filter (\<lambda>e. st_Name e \<noteq> re_NodeName E) (held w' n) = filter (\<lambda>e. st_Name e \<noteq> re_NodeName E) (held w n)) \<and>
    (table w' = Some (Ruleset_String R) \<or> isl res \<and> held w' = held w) \<and>
    (\<not> isl res \<longrightarrow> (\<forall>p \<in> set (in_NodePolicies I).
       filter (\<lambda>e. st_Name e = re_NodeName E) (held w' (nnp_Name p)) = entry_list (ps_entry (mode_status (re_NodeName E) modes p))))"
proof -
  note node = status_node.axioms(1) [OF assms(1)]
  let ?me = "re_NodeName E" and ?ss = "map (mode_status (re_NodeName E) modes) (in_NodePolicies I)"
  have tx: "ruleset_render E w = Inr (Ruleset_String R, ?ss)" by (rule render_whole [OF assms(4,5)])
  obtain err r1 w1 where p: "put_table E (Ruleset_String R) r w = (err, r1, w1)" by (metis prod_cases3)
  have held: "held w1 = held w"
  proof -
    define a where "a = (if re_Now E w - rc_lastApply r \<ge> Resync then re_Forget E (rc_applier r) else rc_applier r)"
    obtain x a' v where "re_Apply E (Ruleset_String R) a w = (x, a', v)" by (metis prod_cases3)
    then have "w1 = snd (snd (re_Apply E (Ruleset_String R) a w))"
      using p by (cases x) (auto simp: put_table_def a_def [symmetric])
    then show ?thesis using status_node.apply_entries [OF assms(1)] by simp
  qed
  have on: "err = None \<Longrightarrow> table w1 = Some (Ruleset_String R)"
    using ruleset_node.put_table_outcome [OF node p _ disjI1 [OF assms(3)]] by simp
  show ?thesis
  proof (cases err)
    case (Some e)
    then have "res = Inl e" "w' = w1" using assms(2) tx p by (auto simp: Ruleset_Reconcile_def)
    then show ?thesis using held by simp
  next
    case None
    obtain e w2 where st: "writeStatus (re_Client E) ?me ?ss w1 = (e, w2)" by (metis surj_pair)
    have w': "w' = w2" "isl res = (e \<noteq> None)" using assms(2) tx p None st by (auto simp: Ruleset_Reconcile_def split: option.splits)
    have "list_all (fresh_status (held w1) ?me) ?ss"
      using assms(7) by (auto simp: list_all_iff fresh_status_def mode_status_def held)
    moreover have "distinct (map (\<lambda>s. nnp_Name (ps_policy s)) ?ss)" using assms(6) by (simp add: comp_def mode_status_def)
    ultimately have S: "(\<forall>n. filter (\<lambda>e. st_Name e \<noteq> ?me) (held w2 n) = filter (\<lambda>e. st_Name e \<noteq> ?me) (held w1 n)) \<and>
        (e = None \<longrightarrow> (\<forall>s \<in> set ?ss. filter (\<lambda>e. st_Name e = ?me) (held w2 (nnp_Name (ps_policy s))) = entry_list (ps_entry s)))"
      using status_node.writeStatus_entries [OF assms(1) st] by blast
    have "table w2 = table w1" using ruleset_node.writeStatus_frame [OF node st] by blast
    then show ?thesis using S on None held w' by (auto simp: mode_status_def)
  qed
qed

theorem reconcile_status_witness:
  "\<exists>modes r' w'. Ruleset_Reconcile ex_env \<lparr>rc_lastApply = 0, rc_applier = NewApplier\<rparr> ex_host = (Inr Resync, r', w') \<and>
     filter (\<lambda>e. st_Name e = ''n1'') (host_entries w' ''db'') = entry_list (ps_entry (mode_status ''n1'' modes ex_policy))"
proof -
  obtain R modes where W: "whole_table ex_env ex_inputs R modes" using ex_whole by blast
  then obtain r' w' where run: "Ruleset_Reconcile ex_env \<lparr>rc_lastApply = 0, rc_applier = NewApplier\<rparr> ex_host = (Inr Resync, r', w')"
    using ex_run [OF _ ex_inputs_read] by (fastforce simp: ex_host_def Resync_def)
  have me: "re_NodeName (host_env (\<lambda>_. True) ex_asel ''n1'') = ''n1''" by (simp add: host_env_def)
  have "filter (\<lambda>e. st_Name e = ''n1'') (host_entries w' ''db'') = entry_list (ps_entry (mode_status ''n1'' modes ex_policy))"
    using reconcile_status [OF status.status_node_axioms run [unfolded ex_env_def] _ ex_inputs_read [unfolded ex_env_def] W [unfolded ex_env_def]]
    by (simp add: me ex_inputs_def remembers_def NewApplier_def host_entries_def ex_host_def) (simp add: ex_policy_def)
  then show ?thesis using run by blast
qed

end
