(* ===== verification/Status_Memory.thy ===== *)
theory Status_Memory
  imports Deep_Copy Controller_Ruleset
begin

text \<open>
  \<open>writeStatus\<close> of \<open>internal/controller/ruleset.go\<close> on memory. The policies it is given are the
  objects of the informer's cache, shared with everyone who reads it, and \<open>Status().Update\<close> writes the
  server's answer into the object it is given. The loop here works on pointers and deep copies; it
  does what \<open>writeStatus\<close> of \<open>Controller_Ruleset\<close> does on values, and the cache is as it was.
\<close>

section \<open>What an object in memory is as a value\<close>

record ('mt, 'st, 'bt, 'sel) ext_api =
  api_Name :: "'mt \<Rightarrow> string"
  api_Generation :: "'mt \<Rightarrow> int"
  api_Selector :: "'st \<Rightarrow> 'sel"
  api_IPBlock :: "'bt \<Rightarrow> k8s_ipblock"

text \<open>The elements of a slice; \<open>nil\<close> has none.\<close>

definition elems_of :: "'a list option \<Rightarrow> 'a list" where
  "elems_of s = (case s of None \<Rightarrow> [] | Some xs \<Rightarrow> xs)"

definition port_of :: "string \<times> int option \<times> int option \<Rightarrow> nnp_port" where
  "port_of = (\<lambda>(t, p, e). \<lparr>nnp_Protocol = t, nnp_Port = p, nnp_EndPort = e\<rparr>)"

definition peers_of :: "('bt \<Rightarrow> k8s_ipblock) \<Rightarrow> 'bt option list option \<Rightarrow> nnp_peer list" where
  "peers_of f s = map (\<lambda>b. \<lparr>nnp_IPBlock = map_option f b\<rparr>) (elems_of s)"

definition spec_of where
  "spec_of A = (\<lambda>(m, s, t, i, e).
     \<lparr>spec_Mode = m, spec_NodeSelector = api_Selector A s, spec_PolicyTypes = elems_of t,
      spec_Ingress = map (\<lambda>(f, p). \<lparr>ir_From = peers_of (api_IPBlock A) f, ir_Ports = map port_of (elems_of p)\<rparr>) (elems_of i),
      spec_Egress = map (\<lambda>(f, p). \<lparr>er_To = peers_of (api_IPBlock A) f, er_Ports = map port_of (elems_of p)\<rparr>) (elems_of e)\<rparr>)"

definition policy_of where
  "policy_of A = (\<lambda>(k :: type_meta, m, s, n).
     \<lparr>nnp_Name = api_Name A m, nnp_Generation = api_Generation A m, nnp_Spec = spec_of A s, nnp_Status_Nodes = elems_of n\<rparr>)"

definition policy_at where
  "policy_at E A H p = policy_of A (reads (policy_view E) H (deref arr_policies H p))"

section \<open>The loop on memory\<close>

text \<open>\<open>s.policy.Status.Nodes\<close>, and the assignment to it.\<close>

definition status_nodes :: "('m, 's, 'b, 'l, 'e) cell list \<Rightarrow> go_ptr \<Rightarrow> nnp_node_status list" where
  "status_nodes H p =
     (case hp_Nodes (hp_Status (deref arr_policies H p)) of None \<Rightarrow> [] | Some sl \<Rightarrow> slice_elems arr_nodes H sl)"

definition set_nodes :: "go_ptr \<Rightarrow> go_slice option \<Rightarrow> ('m, 's, 'b, 'l, 'e) cell list \<Rightarrow> ('m, 's, 'b, 'l, 'e) cell list" where
  "set_nodes p s H =
     (let v = deref arr_policies H p
      in H[fst p := CPolicies ((arr_policies (H ! fst p))[snd p := v\<lparr>hp_Status := (hp_Status v)\<lparr>hp_Nodes := s\<rparr>\<rparr>])])"

text \<open>
  \<open>withEntry\<close> leaves its list in an array of its own; the object is copied and the copy given the
  list. A pointer that is not \<open>nil\<close> has a copy that is not.
\<close>

definition status_object ::
  "('m, 's, 'b, 'l, 'e) ext \<Rightarrow> nnp_node_status list \<Rightarrow> go_ptr \<Rightarrow> ('m, 's, 'b, 'l, 'e) cell list \<Rightarrow>
    go_ptr \<times> ('m, 's, 'b, 'l, 'e) cell list" where
  "status_object L ns p H =
     (let (q, H1) = Policy_DeepCopy L (Some p) (H @ [CNodes ns])
      in (the q, set_nodes (the q) (Some \<lparr>sl_at = length H, sl_off = 0, sl_len = length ns\<rparr>) H1))"

type_synonym ('m, 's, 'b, 'l, 'e, 'w) update =
  "go_ptr \<Rightarrow> ('m, 's, 'b, 'l, 'e) cell list \<Rightarrow> 'w \<Rightarrow> (go_error option \<times> 'w) \<times> ('m, 's, 'b, 'l, 'e) cell list"

text \<open>\<open>meta_name\<close> is the field \<open>Name\<close> of \<open>ObjectMeta\<close>, \<open>update\<close> is \<open>r.Status().Update\<close>.\<close>

fun writeStatus_mem ::
  "('m, 's, 'b, 'l, 'e) ext \<Rightarrow> ('m \<Rightarrow> string) \<Rightarrow> ('m, 's, 'b, 'l, 'e, 'w) update \<Rightarrow> string \<Rightarrow>
    (go_ptr \<times> nnp_node_status option) list \<Rightarrow> ('m, 's, 'b, 'l, 'e) cell list \<Rightarrow> 'w \<Rightarrow>
    (go_error option \<times> 'w) \<times> ('m, 's, 'b, 'l, 'e) cell list" where
  "writeStatus_mem L meta_name update nodeName [] H w = ((None, w), H)"
| "writeStatus_mem L meta_name update nodeName ((p, entry) # ss) H w =
     (case withEntry (status_nodes H p) nodeName entry of
        None \<Rightarrow> writeStatus_mem L meta_name update nodeName ss H w
      | Some ns \<Rightarrow>
          (let (q, H1) = status_object L ns p H
           in case update q H1 w of
                ((Some e, w'), H2) \<Rightarrow>
                  ((Some (''status of NodeNetworkPolicy '' @ meta_name (hp_ObjectMeta (deref arr_policies H2 q)) @ '': '' @ e), w'), H2)
              | ((None, w'), H2) \<Rightarrow> writeStatus_mem L meta_name update nodeName ss H2 w'))"

text \<open>
  What \<open>Status().Update\<close> promises: it does to the cluster what it does with the object's value, and
  of memory it writes to nothing but what the object reaches, the object keeping its name.
\<close>

definition update_ok where
  "update_ok E A meta_name update c \<longleftrightarrow>
     (\<forall>q H w. valid (policy_ptr E) H (Some q) \<longrightarrow>
        (\<exists>H'. update q H w = (Status_Update c (policy_at E A H q) w, H') \<and>
          only_writes (reach (policy_ptr E) H (Some q)) H H' \<and>
          meta_name (hp_ObjectMeta (deref arr_policies H' q)) = nnp_Name (policy_at E A H q)))"

section \<open>The copy that is sent\<close>

lemma policy_view_parts:
  "valid (policy_view E) H v \<longleftrightarrow>
     valid (ev_ObjectMeta E) H (hp_ObjectMeta v) \<and> valid (spec_view E) H (hp_Spec v) \<and> valid status_view H (hp_Status v)"
  "reads (policy_view E) H v =
     (hp_TypeMeta v, reads (ev_ObjectMeta E) H (hp_ObjectMeta v), reads (spec_view E) H (hp_Spec v), reads status_view H (hp_Status v))"
  "reach (policy_view E) H v =
     reach (ev_ObjectMeta E) H (hp_ObjectMeta v) \<union> reach (spec_view E) H (hp_Spec v) \<union> reach status_view H (hp_Status v)"
  by (auto simp: policy_view_def struct_view_def pair_view_def plain_view_def)

lemma status_nodes_value: "status_nodes H p = nnp_Status_Nodes (policy_at E A H p)"
  by (auto simp: status_nodes_def policy_at_def policy_of_def policy_view_parts status_view_def struct_view_def
      slice_view_def plain_view_def elems_of_def split: option.splits)

lemma status_object_copy:
  assumes L: "ext_ok L E" and p: "valid (policy_ptr E) H (Some p)"
  obtains q H' where "status_object L ns p H = (q, H')" "agree {..<length H} H H'" "length H \<le> length H'"
    "valid (policy_ptr E) H' (Some q)" "reach (policy_ptr E) H' (Some q) \<subseteq> {length H..}"
    "policy_at E A H' q = (policy_at E A H p)\<lparr>nnp_Status_Nodes := ns\<rparr>"
proof -
  let ?H0 = "H @ [CNodes ns]" and ?v = "deref arr_policies H p"
  let ?sl = "\<lparr>sl_at = length H, sl_off = 0, sl_len = length ns\<rparr>"
  note C = copier_Policy [OF L]
  have v: "valid (policy_view E) H ?v" "fst p < length H" using p by (simp_all add: ptr_view_def)
  have v0: "deref arr_policies ?H0 p = ?v" using v(2) by (simp add: deref_def nth_append)
  note S = copier.still [OF C v(1) agree_append [OF subset_refl, of H "[CNodes ns]"]]
  obtain H1 z where c: "Policy_DeepCopy L (Some p) ?H0 = (Some (length ?H0, 0), H1)"
    and a: "agree {..<length ?H0} ?H0 H1" "length ?H0 < length H1" and at: "arr_policies (H1 ! length ?H0) = [z]"
    and z: "valid (policy_view E) H1 z" "reads (policy_view E) H1 z = reads (policy_view E) H ?v"
      "reach (policy_view E) H1 z \<subseteq> {length ?H0<..<length H1}"
    unfolding Policy_DeepCopy_def
    by (rule copier.copy_ptr_parts [OF C, of arr_policies CPolicies ?H0 p "policy_zero L"]) (use S v0 in auto)
  let ?z = "z\<lparr>hp_Status := (hp_Status z)\<lparr>hp_Nodes := Some ?sl\<rparr>\<rparr>"
  let ?H' = "H1[length ?H0 := CPolicies [?z]]"
  have o: "status_object L ns p H = ((length ?H0, 0), ?H')"
    using c at by (simp add: status_object_def set_nodes_def deref_def)
  have "agree (reach (policy_view E) H1 z) H1 ?H'" using z(3) by (intro agree_upd) auto
  note K = copier.local [OF C z(1) this]
  have n: "?H' ! length H = CNodes ns" using a by (auto simp: agree_def)
  have r: "valid (policy_view E) ?H' ?z" "reach (policy_view E) ?H' ?z \<subseteq> insert (length H) (reach (policy_view E) ?H' z)"
      "reads (policy_view E) ?H' ?z = (let (k, m, s, _) = reads (policy_view E) H ?v in (k, m, s, Some ns))"
    using K z(2) n a(2) by (auto simp: policy_view_parts status_view_def struct_view_def slice_view_def slice_elems_def plain_view_def)
  have d: "deref arr_policies ?H' (length ?H0, 0) = ?z" using a(2) by (simp add: deref_def)
  show thesis
  proof (rule that [OF o])
    show "agree {..<length H} H ?H'" using a by (auto simp: agree_def nth_append nth_list_update)
    show "length H \<le> length ?H'" using a(2) by simp
    show "valid (policy_ptr E) ?H' (Some (length ?H0, 0))" using r(1) d a(2) by (simp add: ptr_view_def)
    show "reach (policy_ptr E) ?H' (Some (length ?H0, 0)) \<subseteq> {length H..}"
      using r(2) d K z(3) by (fastforce simp: ptr_view_def)
    show "policy_at E A ?H' (length ?H0, 0) = (policy_at E A H p)\<lparr>nnp_Status_Nodes := ns\<rparr>"
      using r(3) d by (simp add: policy_at_def policy_of_def elems_of_def policy_view_parts)
  qed
qed

section \<open>The loop is the one on values, and the cache is as it was\<close>

definition status_values where
  "status_values E A H = map (\<lambda>(p, entry). \<lparr>ps_policy = policy_at E A H p, ps_entry = entry\<rparr>)"

lemma status_values_simps [simp]:
  "status_values E A H [] = []"
  "status_values E A H ((p, entry) # ss) = \<lparr>ps_policy = policy_at E A H p, ps_entry = entry\<rparr> # status_values E A H ss"
  by (simp_all add: status_values_def)

text \<open>One update: the cluster sees the value with the new status, and whatever was in memory before says what it said.\<close>

definition same_cache where
  "same_cache E H H' \<longleftrightarrow>
     (\<forall>r. valid (policy_ptr E) H r \<longrightarrow> valid (policy_ptr E) H' r \<and> reads (policy_ptr E) H' r = reads (policy_ptr E) H r)"

lemma same_cache_trans: "same_cache E H H1 \<Longrightarrow> same_cache E H1 H2 \<Longrightarrow> same_cache E H H2"
  by (simp add: same_cache_def)

lemma same_cache_values:
  assumes "same_cache E H H'" "\<forall>(p, entry) \<in> set ss. valid (policy_ptr E) H (Some p)"
  shows "status_values E A H' ss = status_values E A H ss" "\<forall>(p, entry) \<in> set ss. valid (policy_ptr E) H' (Some p)"
proof -
  have "policy_at E A H' p = policy_at E A H p" if "valid (policy_ptr E) H (Some p)" for p
    using assms(1) that unfolding same_cache_def by (fastforce simp: policy_at_def ptr_view_def)
  then show "status_values E A H' ss = status_values E A H ss" using assms(2) by (auto simp: status_values_def)
  show "\<forall>(p, entry) \<in> set ss. valid (policy_ptr E) H' (Some p)" using assms by (auto simp: same_cache_def)
qed

lemma update_copy:
  assumes L: "ext_ok L E" and U: "update_ok E A meta_name update c" and p: "valid (policy_ptr E) H (Some p)"
  obtains q H1 H2 where "status_object L ns p H = (q, H1)"
    "update q H1 w = (Status_Update c ((policy_at E A H p)\<lparr>nnp_Status_Nodes := ns\<rparr>) w, H2)"
    "meta_name (hp_ObjectMeta (deref arr_policies H2 q)) = nnp_Name (policy_at E A H p)" "same_cache E H H2"
proof -
  obtain q H1 where o: "status_object L ns p H = (q, H1)" and a: "agree {..<length H} H H1" "length H \<le> length H1"
    and q: "valid (policy_ptr E) H1 (Some q)" "reach (policy_ptr E) H1 (Some q) \<subseteq> {length H..}"
    and at: "policy_at E A H1 q = (policy_at E A H p)\<lparr>nnp_Status_Nodes := ns\<rparr>"
    using status_object_copy [OF L p, of ns A] by blast
  obtain H2 where u: "update q H1 w = (Status_Update c (policy_at E A H1 q) w, H2)"
    and wr: "only_writes (reach (policy_ptr E) H1 (Some q)) H1 H2"
    and nm: "meta_name (hp_ObjectMeta (deref arr_policies H2 q)) = nnp_Name (policy_at E A H1 q)"
    using U q(1) unfolding update_ok_def by blast
  have "same_cache E H H2"
    unfolding same_cache_def using copier.old_unaffected [OF copier_Policy_DeepCopy [OF L] _ a wr q(2)] by blast
  then show thesis using that [OF o] u nm at by simp
qed

section \<open>A cluster for it\<close>

definition sample_api :: "(string \<times> int \<times> string list option, string, string \<times> string list option, string) ext_api" where
  "sample_api = \<lparr>api_Name = fst, api_Generation = fst \<circ> snd, api_Selector = id,
     api_IPBlock = (\<lambda>(c, x). \<lparr>ipb_CIDR = c, ipb_Except = elems_of x\<rparr>)\<rparr>"

definition sample_update :: "(sample_meta, string, sample_block, string, string, (string, unit) host) update" where
  "sample_update q H w = (Status_Update host_api (policy_at sample_view sample_api H q) w, set_nodes q None H)"

lemma sample_update_ok: "update_ok sample_view sample_api fst sample_update host_api"
  unfolding update_ok_def sample_update_def
  by (auto simp: set_nodes_def ptr_view_def deref_def only_writes_def agree_def Let_def policy_at_def policy_of_def
      sample_api_def policy_view_parts sample_view_def pair_view_def plain_view_def)

definition ex_web :: "nnp_node_status list \<Rightarrow> string node_network_policy" where
  "ex_web ns =
     \<lparr>nnp_Name = ''web'', nnp_Generation = 3,
      nnp_Spec = \<lparr>spec_Mode = ModeEnforce, spec_NodeSelector = ''all'', spec_PolicyTypes = [PolicyTypeIngress],
        spec_Ingress = [\<lparr>ir_From = [\<lparr>nnp_IPBlock = Some \<lparr>ipb_CIDR = ''10.0.0.0/8'', ipb_Except = [''10.1.0.0/16'']\<rparr>\<rparr>],
          ir_Ports = [\<lparr>nnp_Protocol = ''TCP'', nnp_Port = Some 443, nnp_EndPort = None\<rparr>]\<rparr>],
        spec_Egress = []\<rparr>,
      nnp_Status_Nodes = ns\<rparr>"

definition ex_entry :: nnp_node_status where
  "ex_entry = \<lparr>st_Name = ''n1'', st_ObservedGeneration = 3, st_Mode = ModeEnforce, st_Message = []\<rparr>"

definition ex_cluster :: "nnp_node_status list \<Rightarrow> (string, unit) host" where
  "ex_cluster ns =
     \<lparr>h_Nodes = [], h_Pods = [], h_Namespaces = [], h_Policies = [], h_NodePolicies = [ex_web ns], h_Table = None, h_Time = 0\<rparr>"

lemma ex_web_at: "policy_at sample_view sample_api ex_heap (1, 0) = ex_web []"
  by (simp add: policy_at_def policy_of_def spec_of_def port_of_def peers_of_def elems_of_def sample_api_def ex_web_def
      api_views view_defs ex_heap_def slice_elems_def deref_def)

section \<open>The refinement\<close>

text \<open>
  C19: \<open>writeStatus\<close> on memory returns what the loop on values returns for the values the policies have
  when it starts, and does to the cluster what that one does; and every object of the cache,
  those whose status was written among them, still says what it said, whatever the updates have
  written into the objects they were given.
\<close>

theorem writeStatus_mem_refines:
  assumes L: "ext_ok L E" and U: "update_ok E A meta_name update c"
    and "\<forall>(p, entry) \<in> set ss. valid (policy_ptr E) H (Some p)"
  shows "\<exists>H'. writeStatus_mem L meta_name update nodeName ss H w = (writeStatus c nodeName (status_values E A H ss) w, H') \<and>
    same_cache E H H'"
  using assms(3)
proof (induction ss arbitrary: H w)
  case Nil
  then show ?case by (simp add: same_cache_def)
next
  case (Cons s ss)
  obtain p entry where s: "s = (p, entry)" by (cases s)
  have p: "valid (policy_ptr E) H (Some p)" and rest: "\<forall>(p, entry) \<in> set ss. valid (policy_ptr E) H (Some p)"
    using Cons.prems s by simp_all
  show ?case
  proof (cases "withEntry (status_nodes H p) nodeName entry")
    case None
    then show ?thesis
      using Cons.IH [OF rest, of w] s by (simp add: status_nodes_value [of _ _ E A])
  next
    case (Some ns)
    obtain q H1 H2 where o: "status_object L ns p H = (q, H1)"
      "update q H1 w = (Status_Update c ((policy_at E A H p)\<lparr>nnp_Status_Nodes := ns\<rparr>) w, H2)"
      "meta_name (hp_ObjectMeta (deref arr_policies H2 q)) = nnp_Name (policy_at E A H p)" and k: "same_cache E H H2"
      using update_copy [OF L U p] by blast
    have n: "withEntry (nnp_Status_Nodes (policy_at E A H p)) nodeName entry = Some ns"
      using Some by (simp add: status_nodes_value [of _ _ E A])
    note V = same_cache_values [OF k rest]
    obtain err w' where e: "Status_Update c ((policy_at E A H p)\<lparr>nnp_Status_Nodes := ns\<rparr>) w = (err, w')" by (metis surj_pair)
    show ?thesis
    proof (cases err)
      case None
      obtain H' where "writeStatus_mem L meta_name update nodeName ss H2 w' = (writeStatus c nodeName (status_values E A H ss) w', H')"
        and k': "same_cache E H2 H'"
        using Cons.IH [OF V(2), of w'] V(1) [of A] by auto
      then show ?thesis using None s Some o e n same_cache_trans [OF k k'] by simp
    next
      case (Some m)
      then show ?thesis using s \<open>withEntry (status_nodes H p) nodeName entry = Some ns\<close> o e n k by simp
    qed
  qed
qed

text \<open>
  The policy of \<open>ex_heap\<close> on a cluster that has it, with an update that answers with a status of no
  nodes: the cluster has the entry, and the object of the cache still has no status.
\<close>

theorem writeStatus_mem_refines_witness:
  "\<exists>H'. writeStatus_mem sample_ext fst sample_update ''n1'' [((1, 0), Some ex_entry)] ex_heap (ex_cluster []) =
      ((None, ex_cluster [ex_entry]\<lparr>h_Time := 1\<rparr>), H') \<and>
    policy_at sample_view sample_api H' (1, 0) = ex_web []"
proof -
  have v: "\<forall>(p, entry) \<in> set [((1, 0), Some ex_entry)]. valid (policy_ptr sample_view) ex_heap (Some p)"
    using ex_heap_valid(2) by simp
  obtain H' where H': "writeStatus_mem sample_ext fst sample_update ''n1'' [((1, 0), Some ex_entry)] ex_heap (ex_cluster []) =
      (writeStatus host_api ''n1'' (status_values sample_view sample_api ex_heap [((1, 0), Some ex_entry)]) (ex_cluster []), H')"
    and k: "same_cache sample_view ex_heap H'"
    using writeStatus_mem_refines [OF sample_ext_ok sample_update_ok v] by blast
  have "writeStatus host_api ''n1'' (status_values sample_view sample_api ex_heap [((1, 0), Some ex_entry)]) (ex_cluster []) =
      (None, ex_cluster [ex_entry]\<lparr>h_Time := 1\<rparr>)"
    by (simp add: ex_web_at withEntry_def ex_web_def ex_entry_def host_api_def ex_cluster_def del: One_nat_def)
  moreover have "policy_at sample_view sample_api H' (1, 0) = ex_web []"
    using same_cache_values(1) [OF k v, of sample_api] by (simp add: ex_web_at del: One_nat_def)
  ultimately show ?thesis using H' by simp
qed

end
