(* ===== verification/Netip_Roundtrip.thy ===== *)
theory Netip_Roundtrip
  imports Netip_Parse
begin

text \<open>
  Reading an IPv6 address again: \<open>ParseAddr\<close> gives, of the text \<open>Addr.String\<close> writes, the address
  it was written for. This is what lets one node publish an address that its peers route through.
\<close>

section \<open>One group\<close>

lemma hex_val_digit: "c \<in> set hexdigits \<Longrightarrow> hex_val c = Some (unhexdigit c)"
proof -
  have "list_all (\<lambda>c. hex_val c = Some (unhexdigit c)) hexdigits" by code_simp
  then show "c \<in> set hexdigits \<Longrightarrow> hex_val c = Some (unhexdigit c)" by (simp only: list_all_iff)
qed

lemma hex_val_colon: "hex_val CHR '':'' = None"
  by (simp add: hex_val_def)

lemma radix16_set: "c \<in> set (radix 16 n) \<Longrightarrow> c \<in> set hexdigits"
  using radix_set [of 16 n] take_all [of hexdigits 16] by auto

lemma undigits_radix16: "undigits 16 (map (\<lambda>c. the (hex_val c)) (radix 16 n)) = n"
proof -
  have "map (\<lambda>c. the (hex_val c)) (radix 16 n) = map unhexdigit (radix 16 n)"
    using radix16_set [of _ n] hex_val_digit by (intro map_cong) auto
  then show ?thesis using radix_value [of 16 n] by (simp only: undigits_def foldl_map)
qed

lemma length_radix: "2 \<le> b \<Longrightarrow> n < b ^ Suc k \<Longrightarrow> length (radix b n) \<le> Suc k"
proof (induction k arbitrary: n)
  case 0
  then show ?case by (simp add: radix.simps)
next
  case (Suc k)
  then have "n div b < b ^ Suc k" by (intro less_mult_imp_div_less) (simp add: mult.commute)
  then have "length (radix b (n div b)) \<le> Suc k" using Suc by blast
  then show ?case by (subst radix.simps) simp
qed

lemma takeWhile_group:
  assumes "s = [] \<or> hex_val (hd s) = None"
  shows "takeWhile (\<lambda>c. hex_val c \<noteq> None) (radix 16 n @ s) = radix 16 n"
    "dropWhile (\<lambda>c. hex_val c \<noteq> None) (radix 16 n @ s) = s"
proof -
  have all: "\<And>c. c \<in> set (radix 16 n) \<Longrightarrow> hex_val c \<noteq> None" using radix16_set [of _ n] hex_val_digit by fastforce
  show "takeWhile (\<lambda>c. hex_val c \<noteq> None) (radix 16 n @ s) = radix 16 n"
    using assms by (cases s) (auto simp: takeWhile_append2 [OF all] takeWhile_eq_all_conv all simp del: not_None_eq)
  show "dropWhile (\<lambda>c. hex_val c \<noteq> None) (radix 16 n @ s) = s"
    using assms by (cases s) (auto simp: dropWhile_append2 [OF all] dropWhile_eq_Nil_conv all simp del: not_None_eq)
qed

section \<open>The loop\<close>

text \<open>One turn of the loop on a group and what follows it.\<close>

lemma ipv6_loop_group:
  assumes "n < 65536"
  shows "ipv6_loop input (Suc room) gs e (radix 16 n) = Inr (gs @ [n], e, [])"
    "c \<noteq> CHR '':'' \<Longrightarrow> ipv6_loop input (Suc room) gs e (radix 16 n @ CHR '':'' # c # cs) = ipv6_loop input room (gs @ [n]) e (c # cs)"
    "ipv6_loop input (Suc room) gs None (radix 16 n @ CHR '':'' # CHR '':'' # cs) =
      (if cs = [] then Inr (gs @ [n], Some (Suc (length gs)), []) else ipv6_loop input room (gs @ [n]) (Some (Suc (length gs))) cs)"
proof -
  have len: "length (radix 16 n) \<le> 4" using length_radix [of 16 n 3] assms by simp
  have colon: "s = [] \<or> hex_val (hd s) = None" if "s = CHR '':'' # t" for s t using that hex_val_colon by simp
  note tw = takeWhile_group [of "[]", simplified append_Nil2, OF disjI1, OF refl] and twc = takeWhile_group [OF colon]
  show "ipv6_loop input (Suc room) gs e (radix 16 n) = Inr (gs @ [n], e, [])"
    using len by (simp add: tw undigits_radix16 Let_def del: not_None_eq)
  show "c \<noteq> CHR '':'' \<Longrightarrow> ipv6_loop input (Suc room) gs e (radix 16 n @ CHR '':'' # c # cs) = ipv6_loop input room (gs @ [n]) e (c # cs)"
    using len by (simp add: twc undigits_radix16 Let_def del: not_None_eq)
  show "ipv6_loop input (Suc room) gs None (radix 16 n @ CHR '':'' # CHR '':'' # cs) =
      (if cs = [] then Inr (gs @ [n], Some (Suc (length gs)), []) else ipv6_loop input room (gs @ [n]) (Some (Suc (length gs))) cs)"
    using len by (simp add: twc undigits_radix16 Let_def del: not_None_eq)
qed

declare ipv6_loop.simps [simp del]

lemma groups_start:
  assumes "hs \<noteq> []"
  obtains c cs where "join '':'' (hexes hs) = c # cs" "c \<noteq> CHR '':''"
proof -
  obtain h t where hs: "hs = h # t" using assms by (cases hs) auto
  obtain c r where r: "radix 16 h = c # r" by (cases "radix 16 h") auto
  then have "c \<in> set hexdigits" using radix16_set [of c h] by simp
  then have "c \<noteq> CHR '':''" by (auto simp: hexdigits_def)
  moreover have "\<exists>cs. join '':'' (hexes hs) = c # cs" using hs r by (cases t) (auto simp: hexes_def)
  ultimately show ?thesis using that by blast
qed

lemma ipv6_loop_groups:
  assumes "hs \<noteq> []" "length hs \<le> room" "list_all (\<lambda>h. h < 65536) hs"
  shows "ipv6_loop input room gs e (join '':'' (hexes hs)) = Inr (gs @ hs, e, [])"
  using assms
proof (induction hs arbitrary: room gs)
  case (Cons h hs)
  obtain room' where room: "room = Suc room'" using Cons.prems(2) by (cases room) auto
  show ?case
  proof (cases "hs = []")
    case True
    then show ?thesis using room ipv6_loop_group(1) [of h] Cons.prems(3) by (simp add: hexes_def)
  next
    case False
    obtain c cs where c: "join '':'' (hexes hs) = c # cs" "c \<noteq> CHR '':''" using groups_start [OF False] .
    have "join '':'' (hexes (h # hs)) = radix 16 h @ CHR '':'' # c # cs"
      using c(1) False by (simp add: hexes_def join_Cons)
    then have "ipv6_loop input room gs e (join '':'' (hexes (h # hs))) = ipv6_loop input room' (gs @ [h]) e (join '':'' (hexes hs))"
      using room Cons.prems(3) c by (simp add: ipv6_loop_group(2))
    then show ?thesis using Cons False room by simp
  qed
qed simp

lemma ipv6_loop_gap:
  assumes "as \<noteq> []" "length as + length bs < room" "list_all (\<lambda>h. h < 65536) (as @ bs)"
  shows "ipv6_loop input room gs None (join '':'' (hexes as) @ ''::'' @ join '':'' (hexes bs)) =
    Inr (gs @ as @ bs, Some (length gs + length as), [])"
  using assms
proof (induction as arbitrary: room gs)
  case (Cons a as)
  obtain room' where room: "room = Suc room'" using Cons.prems(2) by (cases room) auto
  show ?case
  proof (cases "as = []")
    case True
    have "join '':'' (hexes bs) = [] \<longleftrightarrow> bs = []" by (subst join_eq_Nil) (auto simp: hexes_def)
    then show ?thesis
      using True room Cons.prems ipv6_loop_groups [of bs room' input "gs @ [a]" "Some (Suc (length gs))"]
      by (auto simp: hexes_def ipv6_loop_group(3))
  next
    case False
    obtain c cs where c: "join '':'' (hexes as) = c # cs" "c \<noteq> CHR '':''" using groups_start [OF False] .
    let ?t = "''::'' @ join '':'' (hexes bs)"
    have "join '':'' (hexes (a # as)) = radix 16 a @ CHR '':'' # c # cs"
      using c(1) False by (simp add: hexes_def join_Cons)
    then have "ipv6_loop input room gs None (join '':'' (hexes (a # as)) @ ?t) =
        ipv6_loop input room' (gs @ [a]) None (join '':'' (hexes as) @ ?t)"
      using room Cons.prems(3) c by (simp add: ipv6_loop_group(2))
    then show ?thesis using Cons False room by simp
  qed
qed simp

section \<open>The whole text\<close>

lemma longest_run_nonempty: "longest_run gs = (zs, ze) \<Longrightarrow> zs < 8 \<Longrightarrow> zs < ze"
proof -
  have "case longest_run gs of (zs, ze) \<Rightarrow> zs < 8 \<longrightarrow> zs < ze"
    unfolding longest_run_def by (rule foldl_invariant) (auto simp: Let_def split: prod.splits if_splits)
  then show "longest_run gs = (zs, ze) \<Longrightarrow> zs < 8 \<Longrightarrow> zs < ze" by simp
qed

lemma string6_plain: "CHR ''%'' \<notin> set (string6 w)" "CHR ''.'' \<notin> set (string6 w)"
  using string6_chars [of w] by (auto simp: hexdigits_def)

lemma parseIPv6_string6: "parseIPv6 (string6 w) = Inr (Addr6 w [])"
proof -
  let ?s = "string6 w" and ?gs = "fields 65536 8 (unat w)"
  have small: "list_all (\<lambda>h. h < 65536) ?gs" using fields_less [of 65536 _ 8 "unat w"] by (simp add: list_all_iff)
  have read: "word_of_nat (undigits 65536 ?gs) = w"
    using undigits_fields [of 65536 "unat w" 8] unsigned_less [of w, where ?'a = nat] by simp
  have nz: "\<forall>c \<in> set ?s. c \<noteq> CHR ''%''" using string6_plain(1) [of w] by metis
  then have zone: "takeWhile (\<lambda>c. c \<noteq> CHR ''%'') ?s = ?s" "dropWhile (\<lambda>c. c \<noteq> CHR ''%'') ?s = []"
    by (simp_all only: takeWhile_eq_all_conv dropWhile_eq_Nil_conv)
  obtain zs ze where run: "longest_run ?gs = (zs, ze)" by fastforce
  have good: "good_run ?gs (zs, ze)" using longest_run_good [of ?gs] run by simp
  show ?thesis
  proof (cases "zs < 8")
    case False
    then have s: "?s = join '':'' (hexes ?gs)" using run by (simp add: string6_def string6_groups_def)
    have "?gs \<noteq> []" using length_fields [of 65536 8 "unat w"] by (metis list.size(3) zero_neq_numeral)
    then obtain c cs where "join '':'' (hexes ?gs) = c # cs" "c \<noteq> CHR '':''" by (rule groups_start)
    then have "take 2 ?s \<noteq> ''::''" "?s \<noteq> ''::''" using s by auto
    moreover have "ipv6_loop ?s 8 [] None ?s = Inr (?gs, None, [])"
      using ipv6_loop_groups [OF \<open>?gs \<noteq> []\<close> _ small, of 8 ?s "[]" None] s by simp
    ultimately show ?thesis by (simp add: parseIPv6_def zone read string6_plain Let_def)
  next
    case True
    let ?as = "take zs ?gs" and ?bs = "drop ze ?gs"
    have s: "?s = join '':'' (hexes ?as) @ ''::'' @ join '':'' (hexes ?bs)" using True run by (simp add: string6_def string6_groups_def)
    have b: "zs < ze" "ze \<le> 8" "\<forall>i. zs \<le> i \<and> i < ze \<longrightarrow> ?gs ! i = 0"
      using good True longest_run_nonempty [OF run True] by (auto simp: good_run_def)
    have gs: "?gs = ?as @ replicate (ze - zs) 0 @ ?bs" using zeros_replicate [of zs ze ?gs] b by simp
    have sm: "list_all (\<lambda>h. h < 65536) (?as @ ?bs)" using small by (auto simp: list_all_iff dest: in_set_takeD in_set_dropD)
    have len: "length ?as = zs" "length ?bs = 8 - ze" using b by simp_all
    have fin: "take zs (?as @ ?bs) @ replicate (8 - length (?as @ ?bs)) 0 @ drop zs (?as @ ?bs) = ?gs"
    proof -
      have "8 - length (?as @ ?bs) = ze - zs" using b by simp
      then show ?thesis using gs len(1) by simp
    qed
    have short: "length (?as @ ?bs) < 8" using b by simp
    show ?thesis
    proof (cases "?as = []")
      case False
      then obtain c cs where "join '':'' (hexes ?as) = c # cs" "c \<noteq> CHR '':''" by (rule groups_start)
      then have "take 2 ?s \<noteq> ''::''" "?s \<noteq> ''::''" using s by auto
      moreover have "ipv6_loop ?s 8 [] None ?s = Inr (?as @ ?bs, Some zs, [])"
        using ipv6_loop_gap [OF False, of ?bs 8 ?s "[]"] s short sm len by simp
      ultimately show ?thesis using short fin read by (simp add: parseIPv6_def zone string6_plain Let_def del: append_take_drop_id)
    next
      case True
      then have z: "zs = 0" using len(1) by (metis list.size(3))
      have s2: "?s = ''::'' @ join '':'' (hexes ?bs)" using s z by (simp add: hexes_def)
      show ?thesis
      proof (cases "?bs = []")
        case True
        then have "?s = ''::''" "?gs = replicate 8 0" using s2 gs z len b by (auto simp: hexes_def)
        then show ?thesis using read zone string6_plain(1) [of w] by (simp add: parseIPv6_def Let_def)
      next
        case False
        then have "join '':'' (hexes ?bs) \<noteq> []" using groups_start [OF False] by (metis list.distinct(1))
        then have "?s \<noteq> ''::''" "take 2 ?s = ''::''" "drop 2 ?s = join '':'' (hexes ?bs)" using s2 by simp_all
        moreover have "ipv6_loop ?s 8 [] (Some 0) (join '':'' (hexes ?bs)) = Inr (?bs, Some 0, [])"
          using ipv6_loop_groups [OF False, of 8 ?s "[]" "Some 0"] sm by simp
        ultimately show ?thesis using short fin read z by (simp add: parseIPv6_def zone string6_plain Let_def)
      qed
    qed
  qed
qed

lemma ParseAddr_string6: "ParseAddr (string6 w) = Inr (Addr6 w [])"
proof -
  obtain c where c: "find (\<lambda>c. c \<in> set ''.:%'') (string6 w) = Some c"
    using string6_colon [of w] by (cases "find (\<lambda>c. c \<in> set ''.:%'') (string6 w)") (auto simp: find_None_iff)
  then obtain i where "i < length (string6 w)" "c = string6 w ! i" "c \<in> set ''.:%''" unfolding find_Some_iff by blast
  then have "c \<in> set (string6 w)" "c \<in> set ''.:%''" by simp_all
  then have "c = CHR '':''" using string6_plain [of w] by auto
  then show ?thesis using c by (simp add: ParseAddr_def parseIPv6_string6)
qed

lemma ParseAddr_Addr_String6: "Is6 a \<Longrightarrow> \<not> Is4In6 a \<Longrightarrow> plain_addr a \<Longrightarrow> ParseAddr (Addr_String a) = Inr a"
  by (erule plain_addr_cases) (auto simp: ParseAddr_string6 zone_suffix_def)

end
