(* ===== verification/Routes_Kernel.thy ===== *)
theory Routes_Kernel
  imports Routes Netip_Parse
begin

unbundle bit_operations_syntax

text \<open>
  \<open>internal/routes/kernel.go\<close>: applying a route set through netlink, watching the kernel for
  lost routes and finding the node's global IPv6 address. Netlink is a library and the kernel
  behind it: a parameter of the model, with the locale \<open>routing_table\<close> for what its three
  calls do to the main table. The byte forms of addresses and masks are those of package net.
\<close>

section \<open>Bytes, addresses and masks\<close>

type_synonym bytes = "8 word list"

definition addr_bytes :: "nat \<Rightarrow> nat \<Rightarrow> bytes" where
  "addr_bytes k n = map word_of_nat (Netip.fields 256 k n)"

fun AsSlice :: "addr \<Rightarrow> bytes" where
  "AsSlice AddrZero = []"
| "AsSlice (Addr4 w) = addr_bytes 4 (unat w)"
| "AsSlice (Addr6 w _) = addr_bytes 16 (unat w)"

definition AddrFromSlice :: "bytes \<Rightarrow> addr option" where
  "AddrFromSlice bs =
     (let n = undigits 256 (map unat bs)
      in if length bs = 4 then Some (Addr4 (word_of_nat n))
         else if length bs = 16 then Some (Addr6 (word_of_nat n) [])
         else None)"

text \<open>\<open>net.CIDRMask\<close>, on the number of bytes; and \<open>IPMask.Size\<close>, no size for a mask with a hole.\<close>

fun cidr_mask :: "nat \<Rightarrow> nat \<Rightarrow> bytes" where
  "cidr_mask 0 n = []"
| "cidr_mask (Suc l) n =
     (if 8 \<le> n then 0xFF # cidr_mask l (n - 8) else NOT (drop_bit n 0xFF) # cidr_mask l 0)"

definition CIDRMask :: "int \<Rightarrow> nat \<Rightarrow> bytes" where
  "CIDRMask ones bits =
     (if bits \<noteq> 32 \<and> bits \<noteq> 128 \<or> ones < 0 \<or> int bits < ones then []
      else cidr_mask (bits div 8) (nat ones))"

fun lead_ones :: "nat \<Rightarrow> 8 word \<Rightarrow> nat \<times> 8 word" where
  "lead_ones 0 v = (0, v)"
| "lead_ones (Suc k) v =
     (if v AND 0x80 \<noteq> 0 then (let (n, v') = lead_ones k (push_bit 1 v) in (Suc n, v')) else (0, v))"

fun simpleMaskLength :: "bytes \<Rightarrow> nat option" where
  "simpleMaskLength [] = Some 0"
| "simpleMaskLength (v # vs) =
     (if v = 0xFF then map_option ((+) 8) (simpleMaskLength vs)
      else
       (let (n, rest) = lead_ones 8 v
        in if rest \<noteq> 0 \<or> list_ex (\<lambda>x. x \<noteq> 0) vs then None else Some n))"

definition Mask_ones :: "bytes \<Rightarrow> nat" where
  "Mask_ones m = (case simpleMaskLength m of None \<Rightarrow> 0 | Some n \<Rightarrow> n)"

section \<open>Netlink\<close>

record ipnet =
  ipn_IP :: bytes
  ipn_Mask :: bytes

record nl_route =
  nl_Dst :: "ipnet option"
  nl_Gw :: bytes
  nl_Protocol :: nat

definition Protocol :: nat where "Protocol = 200"

definition toNetlink :: "route \<Rightarrow> nl_route" where
  "toNetlink r =
     \<lparr>nl_Dst = Some \<lparr>ipn_IP = AsSlice (Prefix_Addr (Masked (rt_Dst r))),
                     ipn_Mask = CIDRMask (Bits (rt_Dst r)) (BitLen (Prefix_Addr (rt_Dst r)))\<rparr>,
      nl_Gw = AsSlice (rt_Via r), nl_Protocol = Protocol\<rparr>"

definition prefixOf :: "ipnet option \<Rightarrow> prefix option" where
  "prefixOf n =
     (case n of
        None \<Rightarrow> None
      | Some net \<Rightarrow>
          map_option (\<lambda>a. PrefixFrom (Unmap a) (int (Mask_ones (ipn_Mask net)))) (AddrFromSlice (ipn_IP net)))"

text \<open>The calls \<open>Apply\<close> makes on the handle, on the state \<open>'w\<close> of the kernel.\<close>

record 'w nl_handle =
  RouteList :: "nat \<Rightarrow> 'w \<Rightarrow> go_error + nl_route list"
  RouteReplace :: "nl_route \<Rightarrow> 'w \<Rightarrow> go_error option \<times> 'w"
  RouteDel :: "nl_route \<Rightarrow> 'w \<Rightarrow> go_error option \<times> 'w"

section \<open>Apply\<close>

definition held_routes :: "nl_route list \<Rightarrow> prefix \<Rightarrow> addr option" where
  "held_routes existing =
     fold (\<lambda>e held. case (prefixOf (nl_Dst e), AddrFromSlice (nl_Gw e)) of
         (Some dst, Some gw) \<Rightarrow> held(dst \<mapsto> Unmap gw) | _ \<Rightarrow> held) existing Map.empty"

text \<open>The loop over the wanted routes: the routes that went in, the errors, the kernel.\<close>

fun install_all ::
  "'w nl_handle \<Rightarrow> (prefix \<Rightarrow> addr option) \<Rightarrow> route list \<Rightarrow> 'w \<Rightarrow> route list \<times> go_error list \<times> 'w" where
  "install_all h held [] w = ([], [], w)"
| "install_all h held (r # rs) w =
     (case RouteReplace h (toNetlink r) w of
        (Some err, w1) \<Rightarrow>
          (let (ins, errs, w2) = install_all h held rs w1
           in (ins, (''routes: install '' @ Route_String r @ '': '' @ err) # errs, w2))
      | (None, w1) \<Rightarrow>
          (let (ins, errs, w2) = install_all h held rs w1
           in (if held (rt_Dst r) \<noteq> Some (rt_Via r) then r # ins else ins, errs, w2)))"

text \<open>The loop over the routes that were there.\<close>

fun remove_stale ::
  "'w nl_handle \<Rightarrow> prefix set \<Rightarrow> nl_route list \<Rightarrow> 'w \<Rightarrow> go_error list \<times> 'w" where
  "remove_stale h wanted [] w = ([], w)"
| "remove_stale h wanted (e # es) w =
     (case prefixOf (nl_Dst e) of
        None \<Rightarrow> remove_stale h wanted es w
      | Some dst \<Rightarrow>
          if dst \<in> wanted then remove_stale h wanted es w
          else
           (case RouteDel h e w of
              (Some err, w1) \<Rightarrow>
                (let (errs, w2) = remove_stale h wanted es w1
                 in ((''routes: remove stale '' @ Prefix_String dst @ '': '' @ err) # errs, w2))
            | (None, w1) \<Rightarrow> remove_stale h wanted es w1))"

definition kernel_Apply :: "'w nl_handle \<Rightarrow> route list \<Rightarrow> 'w \<Rightarrow> route list \<times> go_error list \<times> 'w" where
  "kernel_Apply h want w =
     (case RouteList h Protocol w of
        Inl err \<Rightarrow> ([], [''routes: list: '' @ err], w)
      | Inr existing \<Rightarrow>
          (let (installed, errs, w1) = install_all h (held_routes existing) want w;
               (errs', w2) = remove_stale h (rt_Dst ` set want) existing w1
           in (installed, errs @ errs', w2)))"

section \<open>Watch\<close>

definition RTM_DELROUTE :: nat where "RTM_DELROUTE = 25"
definition RTM_NEWLINK :: nat where "RTM_NEWLINK = 16"
definition IFF_UP :: "32 word" where "IFF_UP = 0x1"
definition IFF_LOWER_UP :: "32 word" where "IFF_LOWER_UP = 0x10000"
definition RT_SCOPE_UNIVERSE :: nat where "RT_SCOPE_UNIVERSE = 0"

record route_update = ru_Type :: nat  ru_Protocol :: nat
record link_update = lu_Type :: nat  lu_Flags :: "32 word"
record addr_update = au_NewAddr :: bool  au_Scope :: nat

definition reapplyAfterRoute :: "route_update \<Rightarrow> bool" where
  "reapplyAfterRoute u \<longleftrightarrow> ru_Type u = RTM_DELROUTE \<and> ru_Protocol u = Protocol"

definition reapplyAfterLink :: "link_update \<Rightarrow> bool" where
  "reapplyAfterLink u \<longleftrightarrow>
     (let up = IFF_UP OR IFF_LOWER_UP in lu_Type u = RTM_NEWLINK \<and> lu_Flags u AND up = up)"

definition reapplyAfterAddr :: "addr_update \<Rightarrow> bool" where
  "reapplyAfterAddr u \<longleftrightarrow> au_NewAddr u \<and> au_Scope u = RT_SCOPE_UNIVERSE"

text \<open>
  What the select of the loop receives, in the order it does: the context ending, an error a
  subscription reports, an update, or a channel closing, with whether the context had ended by
  then and the error still waiting.
\<close>

datatype watch_event =
    CtxDone | Trouble go_error | RouteEv route_update | LinkEv link_update | AddrEv addr_update
  | Closed bool "go_error option"

fun counts :: "watch_event \<Rightarrow> bool" where
  "counts (Trouble _) = True"
| "counts (RouteEv u) = reapplyAfterRoute u"
| "counts (LinkEv u) = reapplyAfterLink u"
| "counts (AddrEv u) = reapplyAfterAddr u"
| "counts _ = False"

text \<open>
  The calls of \<open>changed\<close> and what \<open>Watch\<close> returned, if it has; \<open>fmt\<close>'s \<^verbatim>\<open>%v\<close> of no error is \<^verbatim>\<open><nil>\<close>.
\<close>

fun watch_loop :: "go_error option \<Rightarrow> watch_event list \<Rightarrow> nat \<times> go_error option option" where
  "watch_loop lastErr [] = (0, None)"
| "watch_loop lastErr (e # es) =
     (case e of
        CtxDone \<Rightarrow> (0, Some None)
      | Closed done pending \<Rightarrow>
          if done then (0, Some None)
          else
           (let last = (case pending of Some err \<Rightarrow> Some err | None \<Rightarrow> lastErr)
            in (0, Some (Some (''routes: kernel events stopped: '' @
                 (case last of None \<Rightarrow> ''<nil>'' | Some err \<Rightarrow> err)))))
      | _ \<Rightarrow>
          (let lastErr' = (case e of Trouble err \<Rightarrow> Some err | _ \<Rightarrow> lastErr);
               (n, out) = watch_loop lastErr' es
           in (if counts e then Suc n else n, out)))"

text \<open>The three subscriptions, each failing or not, and then the loop, after one call of \<open>changed\<close>.\<close>

definition Watch :: "go_error option \<Rightarrow> go_error option \<Rightarrow> go_error option \<Rightarrow> watch_event list \<Rightarrow>
    nat \<times> go_error option option" where
  "Watch subRoute subLink subAddr events =
     (case subRoute of Some e \<Rightarrow> (0, Some (Some (''routes: subscribe to route events: '' @ e)))
      | None \<Rightarrow>
        (case subLink of Some e \<Rightarrow> (0, Some (Some (''routes: subscribe to link events: '' @ e)))
         | None \<Rightarrow>
           (case subAddr of Some e \<Rightarrow> (0, Some (Some (''routes: subscribe to address events: '' @ e)))
            | None \<Rightarrow> (let (n, out) = watch_loop None events in (Suc n, out)))))"

section \<open>The node's global IPv6 address\<close>

record nl_addr =
  na_IP :: bytes
  na_Scope :: nat
  na_Flags :: "32 word"
  na_LinkIndex :: nat

definition unusable :: "32 word" where
  "unusable = 0x40 OR 0x08 OR 0x20 OR 0x01"

definition usable_ip :: "nl_addr \<Rightarrow> addr option" where
  "usable_ip a =
     (case AddrFromSlice (na_IP a) of
        None \<Rightarrow> None
      | Some ip \<Rightarrow>
          if \<not> Is6 ip \<or> Is4In6 ip \<or> na_Scope a \<noteq> RT_SCOPE_UNIVERSE \<or> na_Flags a AND unusable \<noteq> 0 then None
          else Some ip)"

definition pickGlobalIPv6 :: "nl_addr list \<Rightarrow> addr option" where
  "pickGlobalIPv6 addrs =
     (let best = fold (\<lambda>a best. case usable_ip a of
             None \<Rightarrow> best
           | Some ip \<Rightarrow> if \<not> Addr_IsValid best \<or> ip < best then ip else best) addrs AddrZero
      in if Addr_IsValid best then Some best else None)"

text \<open>\<open>AddrList\<close> of every link and of one, and \<open>LinkByIndex\<close>, as the kernel answers them.\<close>

record 'l nl_links =
  AddrListV4 :: "go_error + nl_addr list"
  LinkByIndex :: "nat \<Rightarrow> go_error + 'l"
  AddrListV6 :: "'l \<Rightarrow> go_error + nl_addr list"

definition GlobalIPv6 :: "'l nl_links \<Rightarrow> addr \<Rightarrow> go_error + addr option" where
  "GlobalIPv6 k on =
     bind_err (map_err (\<lambda>e. ''routes: list addresses: '' @ e) (AddrListV4 k)) (\<lambda>v4.
       case find (\<lambda>a. map_option Unmap (AddrFromSlice (na_IP a)) = Some on) v4 of
         None \<Rightarrow> Inr None
       | Some a \<Rightarrow>
           bind_err (map_err (\<lambda>e. ''routes: link of '' @ Addr_String on @ '': '' @ e)
               (LinkByIndex k (na_LinkIndex a))) (\<lambda>link.
             bind_err (map_err (\<lambda>e. ''routes: list addresses: '' @ e) (AddrListV6 k link)) (\<lambda>v6.
               Inr (pickGlobalIPv6 v6))))"

section \<open>Bytes and back\<close>

lemma undigits_bytes: "n < 256 ^ k \<Longrightarrow> undigits 256 (map unat (addr_bytes k n)) = n"
proof -
  assume n: "n < 256 ^ k"
  have "map unat (addr_bytes k n) = Netip.fields 256 k n"
    using fields_less [of 256 _ k n] by (auto simp: addr_bytes_def unat_of_nat intro!: map_idI)
  then show ?thesis using n by (simp add: undigits_fields)
qed

lemma AddrFromSlice_AsSlice: "plain_addr a \<Longrightarrow> AddrFromSlice (AsSlice a) = Some a"
proof (erule plain_addr_cases)
  fix w assume "a = Addr4 w"
  then show ?thesis
    using undigits_bytes [of "unat w" 4] unsigned_less [of w, where ?'a = nat] by (simp add: AddrFromSlice_def addr_bytes_def)
next
  fix w assume "a = Addr6 w []"
  then show ?thesis
    using undigits_bytes [of "unat w" 16] unsigned_less [of w, where ?'a = nat] by (simp add: AddrFromSlice_def addr_bytes_def)
qed

lemma cidr_mask_zero: "cidr_mask l 0 = replicate l 0"
  by (induction l) simp_all

lemma lead_ones_all:
  "list_all (\<lambda>n. lead_ones 8 (NOT (drop_bit n 0xFF)) = (n, 0) \<and> NOT (drop_bit n 0xFF) \<noteq> (0xFF :: 8 word)) [0, 1, 2, 3, 4, 5, 6, 7]"
  by code_simp

lemma lead_ones_partial:
  assumes "n < 8"
  shows "lead_ones 8 (NOT (drop_bit n 0xFF)) = (n, 0)" "NOT (drop_bit n 0xFF) \<noteq> (0xFF :: 8 word)"
proof -
  have "n \<in> set [0, 1, 2, 3, 4, 5, 6, 7]" using assms by (simp only: set_simps) auto
  then show "lead_ones 8 (NOT (drop_bit n 0xFF)) = (n, 0)" "NOT (drop_bit n 0xFF) \<noteq> (0xFF :: 8 word)"
    using lead_ones_all unfolding list_all_iff by blast+
qed

lemma simpleMaskLength_cidr: "n \<le> 8 * l \<Longrightarrow> simpleMaskLength (cidr_mask l n) = Some n"
proof (induction l arbitrary: n)
  case (Suc l)
  show ?case
  proof (cases "8 \<le> n")
    case True
    then show ?thesis using Suc by simp
  next
    case False
    then show ?thesis
      using lead_ones_partial [of n] by (simp add: cidr_mask_zero list_ex_iff)
  qed
qed simp

lemma Mask_ones_CIDRMask:
  "bits \<in> {32, 128} \<Longrightarrow> 0 \<le> n \<Longrightarrow> n \<le> int bits \<Longrightarrow> int (Mask_ones (CIDRMask n bits)) = n"
  using simpleMaskLength_cidr [of "nat n" "bits div 8"] by (auto simp: CIDRMask_def Mask_ones_def)

text \<open>A destination as \<open>Compute\<close> gives it: valid, masked, and not an IPv4 range in IPv6 form.\<close>

definition good_dst :: "prefix \<Rightarrow> bool" where
  "good_dst p \<longleftrightarrow> wf_prefix p \<and> Prefix_IsValid p \<and> Masked p = p \<and> \<not> Is4In6 (Prefix_Addr p)"

lemma prefixOf_toNetlink:
  assumes "good_dst (rt_Dst r)"
  shows "prefixOf (nl_Dst (toNetlink r)) = Some (rt_Dst r)"
proof -
  let ?a = "Prefix_Addr (rt_Dst r)" and ?n = "Bits (rt_Dst r)"
  have a: "plain_addr ?a" "0 \<le> ?n" "?n \<le> int (BitLen ?a)"
    using assms by (auto simp: good_dst_def wf_prefix_def Prefix_IsValid_def plain_addr_def)
  have "int (Mask_ones (CIDRMask ?n (BitLen ?a))) = ?n"
    using a by (intro Mask_ones_CIDRMask) (auto elim: plain_addr_cases)
  moreover have "Unmap ?a = ?a" using assms by (cases ?a) (auto simp: good_dst_def)
  moreover have "PrefixFrom ?a ?n = rt_Dst r"
    using a by (cases "rt_Dst r") (auto simp: PrefixFrom_def plain_addr_def)
  moreover have "Masked (rt_Dst r) = rt_Dst r" using assms by (simp add: good_dst_def)
  ultimately show ?thesis
    using AddrFromSlice_AsSlice [OF a(1)] by (simp add: prefixOf_def toNetlink_def)
qed

section \<open>What Apply relies on\<close>

text \<open>
  The main routing table as the kernel keeps it: under a destination, the protocol that
  marks the route and its gateway. Listing by protocol shows the routes so marked; a replace
  puts the route under its destination, a delete takes it away, and either may fail, which
  leaves the table as it was.
\<close>

definition nl_entry :: "nl_route \<Rightarrow> nat \<times> addr option" where
  "nl_entry e = (nl_Protocol e, map_option Unmap (AddrFromSlice (nl_Gw e)))"

locale routing_table =
  fixes h :: "'w nl_handle" and tbl :: "'w \<Rightarrow> prefix \<Rightarrow> (nat \<times> addr option) option"
  assumes list_sound: "RouteList h proto w = Inr es \<Longrightarrow> e \<in> set es \<Longrightarrow> prefixOf (nl_Dst e) = Some p \<Longrightarrow>
      tbl w p = Some (nl_entry e) \<and> nl_Protocol e = proto"
    and list_complete: "RouteList h proto w = Inr es \<Longrightarrow> tbl w p = Some (proto, g) \<Longrightarrow>
      \<exists>e \<in> set es. prefixOf (nl_Dst e) = Some p"
    and replace_ok: "RouteReplace h e w = (None, w') \<Longrightarrow> prefixOf (nl_Dst e) = Some p \<Longrightarrow> tbl w' = (tbl w)(p \<mapsto> nl_entry e)"
    and replace_err: "RouteReplace h e w = (Some err, w') \<Longrightarrow> tbl w' = tbl w"
    and del_ok: "RouteDel h e w = (None, w') \<Longrightarrow> prefixOf (nl_Dst e) = Some p \<Longrightarrow> tbl w' = (tbl w)(p := None)"
    and del_err: "RouteDel h e w = (Some err, w') \<Longrightarrow> tbl w' = tbl w"

definition good_route :: "route \<Rightarrow> bool" where
  "good_route r \<longleftrightarrow> good_dst (rt_Dst r) \<and> plain_addr (rt_Via r) \<and> \<not> Is4In6 (rt_Via r)"

definition want_entry :: "route \<Rightarrow> nat \<times> addr option" where
  "want_entry r = (Protocol, Some (rt_Via r))"

lemma nl_entry_toNetlink: "good_route r \<Longrightarrow> nl_entry (toNetlink r) = want_entry r"
  using AddrFromSlice_AsSlice [of "rt_Via r"]
  by (cases "rt_Via r") (auto simp: good_route_def nl_entry_def want_entry_def toNetlink_def)

definition install_failed :: "route \<Rightarrow> go_error list \<Rightarrow> bool" where
  "install_failed r errs \<longleftrightarrow> list_ex (\<lambda>e. HasPrefix e (''routes: install '' @ Route_String r @ '': '')) errs"

definition list_failed :: "go_error list \<Rightarrow> bool" where
  "list_failed errs \<longleftrightarrow> list_ex (\<lambda>e. HasPrefix e ''routes: list: '') errs"

lemma install_failed_simps [simp]:
  "\<not> install_failed r []"
  "install_failed r (e # errs) \<longleftrightarrow> HasPrefix e (''routes: install '' @ Route_String r @ '': '') \<or> install_failed r errs"
  by (simp_all add: install_failed_def)

lemma install_failed_append: "install_failed r errs \<Longrightarrow> install_failed r (errs @ errs')"
  by (simp add: install_failed_def)

definition stale :: "prefix set \<Rightarrow> nl_route list \<Rightarrow> prefix \<Rightarrow> bool" where
  "stale wanted es p \<longleftrightarrow> p \<notin> wanted \<and> list_ex (\<lambda>e. prefixOf (nl_Dst e) = Some p) es"

lemma find_SomeD: "find Q xs = Some x \<Longrightarrow> x \<in> set xs \<and> Q x"
  by (auto simp: find_Some_iff)

context routing_table
begin

lemma held_entry:
  assumes "RouteList h Protocol w = Inr es" "good_route r"
  shows "held_routes es (rt_Dst r) = Some (rt_Via r) \<longleftrightarrow> tbl w (rt_Dst r) = Some (want_entry r)"
proof -
  have "held_routes es p = (case find (\<lambda>e. prefixOf (nl_Dst e) = Some p \<and> AddrFromSlice (nl_Gw e) \<noteq> None) (rev es) of
      None \<Rightarrow> None | Some e \<Rightarrow> map_option Unmap (AddrFromSlice (nl_Gw e)))" for p
    by (induction es rule: rev_induct) (auto simp: held_routes_def split: option.splits)
  note held = this
  have sound: "tbl w (rt_Dst r) = Some (Protocol, map_option Unmap (AddrFromSlice (nl_Gw e)))"
    if "e \<in> set es" "prefixOf (nl_Dst e) = Some (rt_Dst r)" for e
    using list_sound [OF assms(1) that] by (simp add: nl_entry_def)
  show ?thesis
  proof
    assume "held_routes es (rt_Dst r) = Some (rt_Via r)"
    then obtain e where "e \<in> set es" "prefixOf (nl_Dst e) = Some (rt_Dst r)"
      "map_option Unmap (AddrFromSlice (nl_Gw e)) = Some (rt_Via r)"
      unfolding held by (fastforce dest!: find_SomeD split: option.splits)
    then show "tbl w (rt_Dst r) = Some (want_entry r)" using sound by (simp add: want_entry_def)
  next
    assume t: "tbl w (rt_Dst r) = Some (want_entry r)"
    then obtain e where e: "e \<in> set es" "prefixOf (nl_Dst e) = Some (rt_Dst r)"
      using list_complete [OF assms(1)] unfolding want_entry_def by blast
    then have "AddrFromSlice (nl_Gw e) \<noteq> None" using sound [OF e] t by (cases "AddrFromSlice (nl_Gw e)") (auto simp: want_entry_def)
    then have "find (\<lambda>e. prefixOf (nl_Dst e) = Some (rt_Dst r) \<and> AddrFromSlice (nl_Gw e) \<noteq> None) (rev es) \<noteq> None"
      using e by (auto simp: find_None_iff)
    then obtain e' where e': "find (\<lambda>e. prefixOf (nl_Dst e) = Some (rt_Dst r) \<and> AddrFromSlice (nl_Gw e) \<noteq> None) (rev es) = Some e'"
      by blast
    then have "e' \<in> set es" "prefixOf (nl_Dst e') = Some (rt_Dst r)" using find_SomeD [OF e'] by auto
    then show "held_routes es (rt_Dst r) = Some (rt_Via r)"
      using sound t unfolding held e' by (simp add: want_entry_def)
  qed
qed

lemma install_all_tbl:
  assumes "install_all h held want w = (ins, errs, w')" "list_all good_route want" "distinct (map rt_Dst want)"
  shows "(\<forall>p. p \<notin> rt_Dst ` set want \<longrightarrow> tbl w' p = tbl w p) \<and>
    (\<forall>r \<in> set want. tbl w' (rt_Dst r) = Some (want_entry r) \<or> tbl w' (rt_Dst r) = tbl w (rt_Dst r) \<and> install_failed r errs) \<and>
    (errs = [] \<longrightarrow> ins = filter (\<lambda>r. held (rt_Dst r) \<noteq> Some (rt_Via r)) want)"
  using assms
proof (induction want arbitrary: w ins errs)
  case (Cons r rs)
  obtain res w1 where rep: "RouteReplace h (toNetlink r) w = (res, w1)" by (cases "RouteReplace h (toNetlink r) w")
  obtain ins1 errs1 where rest: "install_all h held rs w1 = (ins1, errs1, w')"
    using Cons.prems(1) rep by (auto split: option.splits prod.splits)
  have r: "prefixOf (nl_Dst (toNetlink r)) = Some (rt_Dst r)" "nl_entry (toNetlink r) = want_entry r"
    using Cons.prems(2) by (simp_all add: prefixOf_toNetlink nl_entry_toNetlink good_route_def)
  have w1: "tbl w1 = (case res of None \<Rightarrow> (tbl w)(rt_Dst r \<mapsto> want_entry r) | Some _ \<Rightarrow> tbl w)"
    using rep replace_ok [of "toNetlink r" w w1] replace_err [of "toNetlink r" w] r by (cases res) auto
  have dst: "rt_Dst r \<notin> rt_Dst ` set rs" "\<forall>x \<in> set rs. rt_Dst x \<noteq> rt_Dst r"
    using Cons.prems(3) by (simp, metis distinct.simps(2) image_eqI list.simps(9) list.set_map)
  note IH = Cons.IH [OF rest]
  show ?case
  proof (cases res)
    case None
    then show ?thesis using Cons.prems IH rep rest w1 dst by (auto split: if_splits)
  next
    case (Some err)
    then show ?thesis using Cons.prems IH rep rest w1 dst by auto
  qed
qed simp

lemma remove_stale_tbl:
  assumes "remove_stale h wanted es w = (errs, w')"
  shows "(\<forall>p. \<not> stale wanted es p \<longrightarrow> tbl w' p = tbl w p) \<and> (\<forall>p. tbl w' p = tbl w p \<or> tbl w' p = None) \<and>
    (errs = [] \<longrightarrow> (\<forall>p. stale wanted es p \<longrightarrow> tbl w' p = None))"
  using assms
proof (induction es arbitrary: w errs)
  case Nil
  then show ?case by (simp add: stale_def)
next
  case (Cons e es)
  show ?case
  proof (cases "\<exists>p. prefixOf (nl_Dst e) = Some p \<and> p \<notin> wanted")
    case True
    then obtain p where p: "prefixOf (nl_Dst e) = Some p" "p \<notin> wanted" by blast
    then have st: "stale wanted (e # es) q \<longleftrightarrow> q = p \<or> stale wanted es q" for q by (auto simp: stale_def)
    obtain res w1 where del: "RouteDel h e w = (res, w1)" by (cases "RouteDel h e w")
    obtain errs1 where rest: "remove_stale h wanted es w1 = (errs1, w')"
      and errs: "errs = [] \<longleftrightarrow> res = None \<and> errs1 = []"
      using Cons.prems del p by (auto split: option.splits prod.splits)
    have w1: "tbl w1 q = (if res = None \<and> q = p then None else tbl w q)" for q
      using del del_ok [of e w w1] del_err [of e w] p by (cases res) auto
    note IH = Cons.IH [OF rest, unfolded w1]
    show ?thesis
    proof (intro conjI allI impI)
      fix q assume "\<not> stale wanted (e # es) q"
      then show "tbl w' q = tbl w q" using IH by (simp add: st)
    next
      fix q
      have "tbl w' q = (if res = None \<and> q = p then None else tbl w q) \<or> tbl w' q = None" using IH by metis
      then show "tbl w' q = tbl w q \<or> tbl w' q = None" by (auto split: if_splits)
    next
      fix q assume "errs = []" "stale wanted (e # es) q"
      then show "tbl w' q = None" using IH by (cases "stale wanted es q") (auto simp: st errs)
    qed
  next
    case False
    then have "remove_stale h wanted es w = (errs, w')" "stale wanted (e # es) = stale wanted es"
      using Cons.prems by (auto simp: stale_def split: option.splits)
    then show ?thesis using Cons.IH [of w errs] by simp
  qed
qed

text \<open>Whatever \<open>Apply\<close> returned, and what it leaves where nothing failed.\<close>

lemma kernel_Apply_tbl:
  assumes "kernel_Apply h want w = (ins, errs, w')" "list_all good_route want" "distinct (map rt_Dst want)"
  shows "(\<forall>r \<in> set want. tbl w' (rt_Dst r) = Some (want_entry r) \<or>
      tbl w' (rt_Dst r) = tbl w (rt_Dst r) \<and> (install_failed r errs \<or> list_failed errs)) \<and>
    (\<forall>p. p \<notin> rt_Dst ` set want \<longrightarrow> (\<forall>g. tbl w p \<noteq> Some (Protocol, g)) \<longrightarrow> tbl w' p = tbl w p) \<and>
    (errs = [] \<longrightarrow> (\<forall>p g. p \<notin> rt_Dst ` set want \<longrightarrow> tbl w p = Some (Protocol, g) \<longrightarrow> tbl w' p = None) \<and>
       ins = filter (\<lambda>r. tbl w (rt_Dst r) \<noteq> Some (want_entry r)) want)"
proof (cases "RouteList h Protocol w")
  case (Inl e)
  then show ?thesis using assms(1) by (auto simp: kernel_Apply_def list_failed_def)
next
  case (Inr es)
  let ?D = "rt_Dst ` set want"
  obtain errs1 w1 errs2 where i: "install_all h (held_routes es) want w = (ins, errs1, w1)"
    and r: "remove_stale h ?D es w1 = (errs2, w')" and errs: "errs = errs1 @ errs2"
    using assms(1) Inr by (auto simp: kernel_Apply_def Let_def split: prod.splits)
  note I = install_all_tbl [OF i assms(2,3)] and R = remove_stale_tbl [OF r]
  have marked: "stale ?D es p \<Longrightarrow> \<exists>g. tbl w p = Some (Protocol, g)" for p
    using list_sound [OF Inr] by (auto simp: stale_def list_ex_iff nl_entry_def)
  have stale: "p \<notin> ?D \<Longrightarrow> tbl w p = Some (Protocol, g) \<Longrightarrow> stale ?D es p" for p g
    using list_complete [OF Inr] by (auto simp: stale_def list_ex_iff)
  have kept: "\<forall>x \<in> set want. tbl w' (rt_Dst x) = tbl w1 (rt_Dst x)"
    using R by (auto simp: stale_def)
  have ins: "ins = filter (\<lambda>r. tbl w (rt_Dst r) \<noteq> Some (want_entry r)) want" if "errs1 = []"
    using I that held_entry [OF Inr] assms(2) by (auto simp: list_all_iff intro!: filter_cong)
  show ?thesis
  proof (intro conjI impI allI)
    show "\<forall>r \<in> set want. tbl w' (rt_Dst r) = Some (want_entry r) \<or>
        tbl w' (rt_Dst r) = tbl w (rt_Dst r) \<and> (install_failed r errs \<or> list_failed errs)"
      using I kept errs install_failed_append by metis
  next
    fix p assume "p \<notin> ?D" "\<forall>g. tbl w p \<noteq> Some (Protocol, g)"
    then have "\<not> stale ?D es p" "tbl w1 p = tbl w p" using I marked by blast+
    then show "tbl w' p = tbl w p" using R by metis
  next
    fix p g assume "errs = []" "p \<notin> ?D" "tbl w p = Some (Protocol, g)"
    then show "tbl w' p = None" using R stale errs by blast
  qed (use I kept ins errs in auto)
qed

end

text \<open>What of a route stays where its destination is not wanted: one that is not cnidaria's.\<close>

definition unmarked :: "(nat \<times> addr option) option \<Rightarrow> (nat \<times> addr option) option" where
  "unmarked r = (case r of Some (proto, g) \<Rightarrow> if proto = Protocol then None else r | None \<Rightarrow> None)"

context routing_table
begin

lemma kernel_Apply_table:
  assumes "kernel_Apply h want w = (ins, [], w')" "list_all good_route want" "distinct (map rt_Dst want)"
  shows "tbl w' p =
      (case find (\<lambda>r. rt_Dst r = p) want of
         Some r \<Rightarrow> Some (Protocol, Some (rt_Via r))
       | None \<Rightarrow> unmarked (tbl w p))"
proof -
  note A = kernel_Apply_tbl [OF assms, unfolded want_entry_def]
  show ?thesis
  proof (cases "find (\<lambda>r. rt_Dst r = p) want")
    case None
    then have "p \<notin> rt_Dst ` set want" by (auto simp: find_None_iff)
    then show ?thesis using A None by (cases "tbl w p") (auto simp: unmarked_def split: if_splits)
  next
    case (Some r)
    then have "r \<in> set want" "rt_Dst r = p" using find_SomeD [OF Some] by auto
    then show ?thesis using A Some by (auto simp: list_failed_def)
  qed
qed

end

section \<open>A kernel\<close>

text \<open>
  A kernel to interpret the locale on: its state is the list of its routes, one counting under
  each destination, and a gateway that is not on-link is refused.
\<close>

definition counting :: "nl_route list \<Rightarrow> prefix \<Rightarrow> nl_route option" where
  "counting w p = find (\<lambda>e. prefixOf (nl_Dst e) = Some p) w"

definition host_netlink :: "(bytes \<Rightarrow> bool) \<Rightarrow> nl_route list nl_handle" where
  "host_netlink onlink =
     \<lparr>RouteList = (\<lambda>proto w. Inr (filter (\<lambda>e. nl_Protocol e = proto \<and>
         (case prefixOf (nl_Dst e) of None \<Rightarrow> True | Some p \<Rightarrow> counting w p = Some e)) w)),
      RouteReplace = (\<lambda>e w. if onlink (nl_Gw e) then (None, e # w) else (Some ''network is unreachable'', w)),
      RouteDel = (\<lambda>e w. (None, filter (\<lambda>x. prefixOf (nl_Dst x) \<noteq> prefixOf (nl_Dst e)) w))\<rparr>"

interpretation netlink: routing_table "host_netlink onlink" "\<lambda>w p. map_option nl_entry (counting w p)"
proof
  fix proto w es e p
  assume "RouteList (host_netlink onlink) proto w = Inr es" "e \<in> set es" "prefixOf (nl_Dst e) = Some p"
  then show "map_option nl_entry (counting w p) = Some (nl_entry e) \<and> nl_Protocol e = proto"
    by (auto simp: host_netlink_def)
next
  fix proto w es p g
  assume "RouteList (host_netlink onlink) proto w = Inr es" "map_option nl_entry (counting w p) = Some (proto, g)"
  then show "\<exists>e \<in> set es. prefixOf (nl_Dst e) = Some p"
    by (force simp: host_netlink_def nl_entry_def counting_def find_Some_iff)
next
  fix e w w' p
  assume "RouteReplace (host_netlink onlink) e w = (None, w')" "prefixOf (nl_Dst e) = Some p"
  then show "(\<lambda>p. map_option nl_entry (counting w' p)) = (\<lambda>p. map_option nl_entry (counting w p))(p \<mapsto> nl_entry e)"
    by (auto simp: host_netlink_def counting_def split: if_splits)
next
  fix e w w' p
  assume "RouteDel (host_netlink onlink) e w = (None, w')" "prefixOf (nl_Dst e) = Some p"
  moreover have "find (\<lambda>x. prefixOf (nl_Dst x) = Some q) (filter (\<lambda>x. prefixOf (nl_Dst x) \<noteq> Some p) w) =
      (if q = p then None else find (\<lambda>x. prefixOf (nl_Dst x) = Some q) w)" for q
    by (induction w) auto
  ultimately show "(\<lambda>p. map_option nl_entry (counting w' p)) = (\<lambda>p. map_option nl_entry (counting w p))(p := None)"
    by (auto simp: host_netlink_def counting_def)
qed (auto simp: host_netlink_def split: if_splits)

section \<open>Properties\<close>

lemma Compute_good:
  assumes "r \<in> set (fst (Compute self nodes))"
    and "\<forall>n \<in> set nodes. list_all (\<lambda>c. wf_prefix c \<and> Prefix_IsValid c \<and> \<not> Is4In6 (Prefix_Addr (Masked c))) (rn_PodCIDRs n)"
  shows "good_dst (rt_Dst r)"
proof -
  obtain n c where "n \<in> set nodes" "c \<in> set (rn_PodCIDRs n)" "rt_Dst r = Masked c"
    using assms(1) by (auto simp: set_Compute peer_routes_iff cidr_route_Inr)
  then show ?thesis using assms(2) Masked_idem [of c] by (auto simp: list_all_iff good_dst_def)
qed

definition ex_route :: route where
  "ex_route = \<lparr>rt_Node = ''n2'', rt_Dst = Prefix (Addr4 0x0A000100) 24, rt_Via = Addr4 0xC0000202\<rparr>"

text \<open>
  C15: where nothing failed, the main table holds exactly the wanted routes among those
  cnidaria marked: under each wanted destination the wanted next hop, under every other
  destination a marked route is gone and any other route is as it was. What \<open>Apply\<close>
  returns is the wanted routes the table did not hold before, and so a second call, whatever
  else it does, returns none.
\<close>

theorem kernel_Apply_exact:
  assumes "routing_table h tbl" and "kernel_Apply h want w = (ins, [], w')"
    and "list_all good_route want" and "distinct (map rt_Dst want)"
  shows "tbl w' p =
      (case find (\<lambda>r. rt_Dst r = p) want of
         Some r \<Rightarrow> Some (Protocol, Some (rt_Via r))
       | None \<Rightarrow> unmarked (tbl w p)) \<and>
    ins = filter (\<lambda>r. tbl w (rt_Dst r) \<noteq> Some (Protocol, Some (rt_Via r))) want \<and>
    (kernel_Apply h want w' = (ins', [], w'') \<longrightarrow> ins' = [])"
proof -
  note A = routing_table.kernel_Apply_tbl [OF assms, unfolded want_entry_def]
  have "ins' = []" if "kernel_Apply h want w' = (ins', [], w'')"
    using routing_table.kernel_Apply_tbl [OF assms(1) that assms(3,4), unfolded want_entry_def] A
    by (auto simp: list_failed_def)
  then show ?thesis using A routing_table.kernel_Apply_table [OF assms] by blast
qed

theorem kernel_Apply_exact_witness:
  "kernel_Apply (host_netlink (\<lambda>_. True)) [ex_route] [] = ([ex_route], [], [toNetlink ex_route]) \<and>
   map_option nl_entry (counting [toNetlink ex_route] (rt_Dst ex_route)) = Some (Protocol, Some (rt_Via ex_route))"
proof -
  have run: "kernel_Apply (host_netlink (\<lambda>_. True)) [ex_route] [] = ([ex_route], [], [toNetlink ex_route])"
    by (simp add: kernel_Apply_def host_netlink_def held_routes_def)
  have good: "list_all good_route [ex_route]"
    by (simp add: good_route_def good_dst_def ex_route_def wf_prefix_def Prefix_IsValid_def Masked_def PrefixFrom_def plain_addr_def)
  show ?thesis
    using run kernel_Apply_exact [OF netlink.routing_table_axioms run good, of "rt_Dst ex_route"] by simp
qed

text \<open>
  C32: whatever fails, nothing is lost. A wanted route either goes in or, where its install
  failed, leaves what was there with an error that names it, and one failure does not stop
  the other routes; a destination that is not wanted keeps its route unless the route was
  marked as cnidaria's.
\<close>

theorem kernel_Apply_safe:
  assumes "routing_table h tbl" and "kernel_Apply h want w = (ins, errs, w')"
    and "list_all good_route want" and "distinct (map rt_Dst want)"
  shows "(r \<in> set want \<longrightarrow> tbl w' (rt_Dst r) = Some (Protocol, Some (rt_Via r)) \<or>
      tbl w' (rt_Dst r) = tbl w (rt_Dst r) \<and> (install_failed r errs \<or> list_failed errs)) \<and>
    (p \<notin> rt_Dst ` set want \<longrightarrow> (\<forall>g. tbl w p \<noteq> Some (Protocol, g)) \<longrightarrow> tbl w' p = tbl w p)"
  using routing_table.kernel_Apply_tbl [OF assms] by (simp add: want_entry_def)

theorem kernel_Apply_safe_witness:
  "\<exists>errs w'. kernel_Apply (host_netlink (\<lambda>_. False)) [ex_route] [] = ([], errs, w') \<and> install_failed ex_route errs"
proof -
  let ?e = "''routes: install '' @ Route_String ex_route @ '': '' @ ''network is unreachable''"
  have run: "kernel_Apply (host_netlink (\<lambda>_. False)) [ex_route] [] = ([], [?e], [])"
    by (simp add: kernel_Apply_def host_netlink_def held_routes_def)
  have good: "list_all good_route [ex_route]"
    by (simp add: good_route_def good_dst_def ex_route_def wf_prefix_def Prefix_IsValid_def Masked_def PrefixFrom_def plain_addr_def)
  show ?thesis
    using run kernel_Apply_safe [OF netlink.routing_table_axioms run good, of ex_route]
    by (auto simp: counting_def list_failed_def)
qed

text \<open>
  Watching: an event ends the loop or is counted or passed over.
\<close>

fun ends :: "watch_event \<Rightarrow> bool" where
  "ends CtxDone = True"
| "ends (Closed _ _) = True"
| "ends _ = False"

lemma watch_loop_spec:
  "fst (watch_loop le es) = length (filter counts (takeWhile (\<lambda>e. \<not> ends e) es)) \<and>
   (snd (watch_loop le es) = None \<longleftrightarrow> find ends es = None) \<and>
   (snd (watch_loop le es) = Some None \<longleftrightarrow>
      find ends es = Some CtxDone \<or> (\<exists>pend. find ends es = Some (Closed True pend)))"
proof (induction es arbitrary: le)
  case (Cons e es)
  show ?case
  proof (cases "ends e")
    case True
    then show ?thesis by (cases e) simp_all
  next
    case False
    then obtain le' where "watch_loop le (e # es) =
        (if counts e then Suc (fst (watch_loop le' es)) else fst (watch_loop le' es), snd (watch_loop le' es))"
      by (cases e) (auto simp: case_prod_beta Let_def)
    then show ?thesis using Cons [of le'] False by simp
  qed
qed simp

text \<open>
  C33: \<open>Watch\<close> calls \<open>changed\<close> once when all three subscriptions are up and once more for
  each event that counts before the one that ends it; it returns nothing wrong exactly when
  the context ended it, and an error when the kernel stopped reporting while the context was
  still live. Where a subscription fails it never calls \<open>changed\<close> and returns the error.
\<close>

theorem Watch_calls:
  "fst (Watch None None None es) = 1 + length (filter counts (takeWhile (\<lambda>e. \<not> ends e) es)) \<and>
   (snd (Watch None None None es) = None \<longleftrightarrow> find ends es = None) \<and>
   (snd (Watch None None None es) = Some None \<longleftrightarrow>
      find ends es = Some CtxDone \<or> (\<exists>pend. find ends es = Some (Closed True pend))) \<and>
   (if sr = None \<and> sl = None \<and> sa = None then Watch sr sl sa es = Watch None None None es
    else \<exists>err. Watch sr sl sa es = (0, Some (Some err)))"
  using watch_loop_spec [of None es]
  by (cases sr; cases sl; cases sa) (simp_all add: Watch_def case_prod_beta)

text \<open>The lowest of the usable addresses.\<close>

lemma usable_valid: "usable_ip a = Some ip \<Longrightarrow> Addr_IsValid ip"
  by (cases ip) (auto simp: usable_ip_def Addr_IsValid_def split: option.splits if_splits)

definition lower :: "nl_addr \<Rightarrow> addr \<Rightarrow> addr" where
  "lower a best = (case usable_ip a of
      None \<Rightarrow> best | Some ip \<Rightarrow> if \<not> Addr_IsValid best \<or> ip < best then ip else best)"

lemma fold_lower:
  "(let best = fold lower as AddrZero
    in if best = AddrZero then list_all (\<lambda>a. usable_ip a = None) as
       else Some best \<in> usable_ip ` set as \<and> list_all (\<lambda>a. case usable_ip a of None \<Rightarrow> True | Some x \<Rightarrow> best \<le> x) as)"
proof (induction as rule: rev_induct)
  case (snoc a as)
  let ?b = "fold lower as AddrZero"
  show ?case
  proof (cases "usable_ip a")
    case None
    then show ?thesis using snoc by (simp add: lower_def Let_def split: if_splits)
  next
    case (Some ip)
    then have "ip \<noteq> AddrZero" using usable_valid [OF Some] by (simp add: Addr_IsValid_def)
    then show ?thesis using snoc Some
      by (force simp: lower_def Let_def Addr_IsValid_def list_all_iff split: if_splits option.splits)
  qed
qed simp

text \<open>
  C34: the address a node publishes is a usable one, the lowest, and so whatever order the
  kernel lists them in; there is none exactly where no address is usable.
\<close>

theorem pickGlobalIPv6_lowest:
  "(case pickGlobalIPv6 as of
      Some ip \<Rightarrow> Some ip \<in> usable_ip ` set as \<and> list_all (\<lambda>a. case usable_ip a of None \<Rightarrow> True | Some x \<Rightarrow> ip \<le> x) as
    | None \<Rightarrow> list_all (\<lambda>a. usable_ip a = None) as)"
  using fold_lower [of as]
  by (simp add: pickGlobalIPv6_def lower_def [abs_def] Let_def Addr_IsValid_def split: if_splits)

end
