(* ===== verification/Go_Files.thy ===== *)
theory Go_Files
  imports Cni_Prelude
begin

text \<open>
  What the sources use of \<open>errors\<close>, \<open>path/filepath\<close> and \<open>os\<close>: joining errors, the lexical
  operations on slash-separated paths, and the calls on a file system, which is the state
  \<open>'w\<close> of the node. The locale \<open>file_system\<close> says what the calls do to the contents.
\<close>

section \<open>Errors\<close>

text \<open>\<open>errors.Join\<close>: the texts of the errors there are, a line each; no error where there is none.\<close>

definition errors_Join :: "go_error option list \<Rightarrow> go_error option" where
  "errors_Join errs =
     (let es = map the (filter (\<lambda>e. e \<noteq> None) errs) in if es = [] then None else Some (join NL es))"

lemma errors_Join_None [simp]: "errors_Join errs = None \<longleftrightarrow> list_all (\<lambda>e. e = None) errs"
  by (auto simp: errors_Join_def Let_def list_all_iff filter_empty_conv)

section \<open>Paths\<close>

text \<open>\<open>filepath.Clean\<close>, element by element: \<open>.\<close> and empty elements go, \<open>..\<close> takes the one before with it.\<close>

fun clean_elems :: "bool \<Rightarrow> string list \<Rightarrow> string list \<Rightarrow> string list" where
  "clean_elems rooted out [] = rev out"
| "clean_elems rooted out (e # es) =
     (if e = [] \<or> e = ''.'' then clean_elems rooted out es
      else if e = ''..'' then
        (case out of
           o1 # rest \<Rightarrow> if o1 = ''..'' then clean_elems rooted (e # out) es else clean_elems rooted rest es
         | [] \<Rightarrow> if rooted then clean_elems rooted [] es else clean_elems rooted [e] es)
      else clean_elems rooted (e # out) es)"

definition Clean :: "string \<Rightarrow> string" where
  "Clean p =
     (let rooted = HasPrefix p ''/'';
          out = join ''/'' (clean_elems rooted [] (split_on CHR ''/'' p))
      in if rooted then CHR ''/'' # out else if out = [] then ''.'' else out)"

text \<open>\<open>filepath.Join\<close> of two elements, \<open>filepath.Base\<close> and \<open>filepath.Dir\<close>.\<close>

definition path_Join :: "string \<Rightarrow> string \<Rightarrow> string" where
  "path_Join a b =
     (let es = filter (\<lambda>e. e \<noteq> []) [a, b] in if es = [] then [] else Clean (join ''/'' es))"

definition path_Base :: "string \<Rightarrow> string" where
  "path_Base p =
     (if p = [] then ''.''
      else
       (let q = rev (dropWhile ((=) CHR ''/'') (rev p))
        in if q = [] then ''/'' else last (split_on CHR ''/'' q)))"

definition path_Dir :: "string \<Rightarrow> string" where
  "path_Dir p = Clean (rev (dropWhile ((\<noteq>) CHR ''/'') (rev p)))"

lemma split_on_set: "x \<in> set (split_on c s) \<Longrightarrow> c \<notin> set x"
proof (induction s arbitrary: x)
  case (Cons y s)
  then show ?case by (cases "split_on c s") (auto split: if_splits)
qed simp

lemma clean_elems_acc: "\<exists>pre. clean_elems rooted out (es @ fs) = clean_elems rooted pre fs"
  by (induction rooted out es rule: clean_elems.induct) (auto split: list.splits)

lemma clean_elems_plain:
  "list_all (\<lambda>e. e \<noteq> [] \<and> e \<noteq> ''.'' \<and> e \<noteq> ''..'') fs \<Longrightarrow> clean_elems rooted out fs = rev out @ fs"
  by (induction fs arbitrary: out) auto

lemma clean_elems_slash: "x \<in> set (clean_elems rooted out es) \<Longrightarrow> x \<in> set out \<union> set es"
  by (induction rooted out es rule: clean_elems.induct) (auto split: if_splits list.splits)

section \<open>Files\<close>

text \<open>An error of a file operation: whether it says that the file does not exist, and its text.\<close>

record file_error =
  fe_NotExist :: bool
  fe_text :: go_error

record 'w file_ops =
  fs_ReadFile :: "string \<Rightarrow> 'w \<Rightarrow> file_error + string"
  fs_WriteFile :: "string \<Rightarrow> string \<Rightarrow> 'w \<Rightarrow> go_error option \<times> 'w"
  fs_CreateTemp :: "string \<Rightarrow> string \<Rightarrow> 'w \<Rightarrow> (go_error + string) \<times> 'w"
  fs_Write :: "string \<Rightarrow> string \<Rightarrow> 'w \<Rightarrow> go_error option \<times> 'w"
  fs_Chmod :: "string \<Rightarrow> nat \<Rightarrow> 'w \<Rightarrow> go_error option \<times> 'w"
  fs_Close :: "string \<Rightarrow> 'w \<Rightarrow> go_error option \<times> 'w"
  fs_Rename :: "string \<Rightarrow> string \<Rightarrow> 'w \<Rightarrow> go_error option \<times> 'w"
  fs_Remove :: "string \<Rightarrow> 'w \<Rightarrow> go_error option \<times> 'w"

text \<open>
  \<open>content w p\<close> is what a reader of \<open>p\<close> sees. A temporary file is a new file, empty, whose
  name keeps the part of the pattern before the star; writing, closing and changing the mode
  of it touch no other file; a rename puts the one file in the place of the other at once.
  A call that fails may leave the file it was to write in any state, and no other file changed.
\<close>

locale file_system =
  fixes fs :: "'w file_ops" and content :: "'w \<Rightarrow> string \<Rightarrow> string option"
  assumes read_ok: "fs_ReadFile fs p w = Inr d \<longleftrightarrow> content w p = Some d"
    and write_file_ok: "fs_WriteFile fs p d w = (None, w') \<Longrightarrow> content w' = (content w)(p \<mapsto> d)"
    and write_file_err: "fs_WriteFile fs p d w = (Some e, w') \<Longrightarrow> q \<noteq> p \<Longrightarrow> content w' q = content w q"
    and temp_ok: "fs_CreateTemp fs dir (pre @ ''*'') w = (Inr t, w') \<Longrightarrow>
      content w t = None \<and> content w' = (content w)(t \<mapsto> []) \<and> HasPrefix (path_Base t) pre"
    and temp_err: "fs_CreateTemp fs dir pat w = (Inl e, w') \<Longrightarrow> content w' = content w"
    and write_ok: "fs_Write fs t d w = (None, w') \<Longrightarrow> content w t = Some c \<Longrightarrow> content w' = (content w)(t \<mapsto> c @ d)"
    and write_err: "fs_Write fs t d w = (Some e, w') \<Longrightarrow> p \<noteq> t \<Longrightarrow> content w' p = content w p"
    and chmod: "content (snd (fs_Chmod fs t m w)) = content w"
    and close: "content (snd (fs_Close fs t w)) = content w"
    and rename_ok: "fs_Rename fs t p w = (None, w') \<Longrightarrow> content w t = Some c \<Longrightarrow>
      content w' = (content w)(t := None, p \<mapsto> c)"
    and rename_err: "fs_Rename fs t p w = (Some e, w') \<Longrightarrow> content w' = content w"
    and remove: "p \<noteq> t \<Longrightarrow> content (snd (fs_Remove fs t w)) p = content w p"

section \<open>A file system\<close>

text \<open>
  Contents by name, with the files that cannot be written. A temporary file is named after
  the length of what is there, so that its name is a new one.
\<close>

definition fresh_name :: "string \<Rightarrow> (string \<times> string) list \<Rightarrow> string" where
  "fresh_name pre w = pre @ replicate (Suc (sum_list (map (length \<circ> fst) w))) CHR ''0''"

lemma fresh_name_new: "map_of w (d @ fresh_name pre w) = None"
proof -
  have "length k \<le> sum_list (map (length \<circ> fst) w)" if "k \<in> fst ` set w" for k
    using that member_le_sum_list [of "length k" "map (length \<circ> fst) w"] by force
  then have "d @ fresh_name pre w \<notin> fst ` set w" by (force simp: fresh_name_def)
  then show ?thesis by (simp add: map_of_eq_None_iff)
qed

definition disk :: "(string \<Rightarrow> bool) \<Rightarrow> (string \<times> string) list file_ops" where
  "disk readonly =
     \<lparr>fs_ReadFile = (\<lambda>p w. case map_of w p of
          None \<Rightarrow> Inl \<lparr>fe_NotExist = True, fe_text = ''open '' @ p @ '': no such file or directory''\<rparr> | Some d \<Rightarrow> Inr d),
      fs_WriteFile = (\<lambda>p d w. if readonly p then (Some (''open '' @ p @ '': permission denied''), w) else (None, (p, d) # w)),
      fs_CreateTemp = (\<lambda>dir pat w.
          if CHR ''/'' \<in> set pat then (Inl ''pattern contains path separator'', w)
          else if readonly dir then (Inl (''open '' @ dir @ '': permission denied''), w)
          else (let t = dir @ ''/'' @ fresh_name (butlast pat) w in (Inr t, (t, []) # w))),
      fs_Write = (\<lambda>t d w. case map_of w t of
          None \<Rightarrow> (Some (''write '' @ t @ '': file already closed''), w) | Some c \<Rightarrow> (None, (t, c @ d) # w)),
      fs_Chmod = (\<lambda>t m w. (None, w)),
      fs_Close = (\<lambda>t w. (None, w)),
      fs_Rename = (\<lambda>t p w. case map_of w t of
          None \<Rightarrow> (Some (''rename '' @ t @ '' '' @ p @ '': no such file or directory''), w)
        | Some c \<Rightarrow> (None, (p, c) # filter (\<lambda>x. fst x \<noteq> t) w)),
      fs_Remove = (\<lambda>t w. (None, filter (\<lambda>x. fst x \<noteq> t) w))\<rparr>"

lemma map_of_filter_key: "map_of (filter (\<lambda>x. fst x \<noteq> t) w) = (map_of w)(t := None)"
  by (induction w) (auto simp: fun_upd_def)

lemma path_Base_temp:
  assumes "CHR ''/'' \<notin> set pre"
  shows "path_Base (dir @ ''/'' @ fresh_name pre w) = fresh_name pre w"
proof -
  let ?n = "fresh_name pre w"
  have no: "CHR ''/'' \<notin> set ?n" using assms by (simp add: fresh_name_def)
  have "rev ?n \<noteq> []" "hd (rev ?n) \<noteq> CHR ''/''"
    by (simp_all only: hd_rev rev_is_Nil_conv) (simp_all add: fresh_name_def replicate_append_same [symmetric] del: replicate_Suc)
  then have "dropWhile ((=) CHR ''/'') (rev (dir @ ''/'' @ ?n)) = rev (dir @ ''/'' @ ?n)"
    by (intro dropWhile_hd) (auto simp: hd_append)
  moreover have "last (split_on CHR ''/'' (dir @ ''/'' @ ?n)) = ?n"
    using no by (simp add: split_on_append_sep split_on_append split_on_none)
  ultimately show ?thesis by (simp add: path_Base_def)
qed

interpretation disk: file_system "disk readonly" map_of
proof
  fix dir pre w t w'
  assume "fs_CreateTemp (disk readonly) dir (pre @ ''*'') w = (Inr t, w')"
  then have "CHR ''/'' \<notin> set pre" "t = dir @ ''/'' @ fresh_name pre w" "w' = (t, []) # w"
    by (auto simp: disk_def Let_def split: if_splits)
  then show "map_of w t = None \<and> map_of w' = (map_of w)(t \<mapsto> []) \<and> HasPrefix (path_Base t) pre"
    using fresh_name_new [of w "dir @ ''/''" pre] path_Base_temp [of pre dir w]
    by (simp add: HasPrefix_def) (simp add: fresh_name_def)
qed (auto simp: disk_def Let_def map_of_filter_key split: option.splits if_splits)

end
