(* ===== verification/Conflist.thy ===== *)
theory Conflist
  imports Netip Go_Files
begin

text \<open>
  \<open>internal/conflist\<close>: the CNI configuration list of a node, as the indented JSON text the
  container runtime reads, and writing it so that a reader never sees a part of it. The
  text of a document is what \<open>json.MarshalIndent\<close> writes for the struct types of the source,
  whose fields and order the model's document has.
\<close>

section \<open>JSON\<close>

datatype json =
    JStr string | JInt int | JBool bool | JArr "json list" | JObj "(string \<times> json) list"

definition BSL :: char where "BSL = CHR 0x5C"

text \<open>
  The width of the UTF-8 sequence at the head of a string that starts with a byte from 128 on,
  1 where it is not a valid one.
\<close>

definition in_byte_range :: "nat \<times> nat \<Rightarrow> char \<Rightarrow> bool" where
  "in_byte_range r c \<longleftrightarrow> fst r \<le> of_char c \<and> of_char c \<le> (snd r :: nat)"

definition continues :: "(nat \<times> nat) list \<Rightarrow> string \<Rightarrow> bool" where
  "continues rs s \<longleftrightarrow> length rs \<le> length s \<and> list_all2 in_byte_range rs (take (length rs) s)"

definition rune_len :: "char \<Rightarrow> string \<Rightarrow> nat" where
  "rune_len c s =
     (let n = of_char c :: nat; any = (0x80, 0xBF);
          tail = (if 0xC2 \<le> n \<and> n \<le> 0xDF then [any]
                  else if n = 0xE0 then [(0xA0, 0xBF), any]
                  else if n = 0xED then [(0x80, 0x9F), any]
                  else if 0xE1 \<le> n \<and> n \<le> 0xEF then [any, any]
                  else if n = 0xF0 then [(0x90, 0xBF), any, any]
                  else if n = 0xF4 then [(0x80, 0x8F), any, any]
                  else if 0xF1 \<le> n \<and> n \<le> 0xF3 then [any, any, any]
                  else [])
      in if tail \<noteq> [] \<and> continues tail s then Suc (length tail) else 1)"

definition json_char :: "char \<Rightarrow> string" where
  "json_char c =
     (let n = of_char c :: nat in
      if n = 0x22 \<or> n = 0x5C then [BSL, c]
      else if n = 8 then [BSL, CHR ''b'']
      else if n = 9 then [BSL, CHR ''t'']
      else if n = 10 then [BSL, CHR ''n'']
      else if n = 12 then [BSL, CHR ''f'']
      else if n = 13 then [BSL, CHR ''r'']
      else if n < 32 \<or> c \<in> set ''<>&'' then BSL # ''u00'' @ [hexdigit (n div 16), hexdigit (n mod 16)]
      else [c])"

fun json_chars :: "string \<Rightarrow> string" where
  "json_chars [] = []"
| "json_chars (c # cs) =
     (if of_char c < (128 :: nat) then json_char c @ json_chars cs
      else
       (let k = rune_len c cs; r = take k (c # cs)
        in (if k = 1 then BSL # ''ufffd''
            else if r = [CHR 0xE2, CHR 0x80, CHR 0xA8] then BSL # ''u2028''
            else if r = [CHR 0xE2, CHR 0x80, CHR 0xA9] then BSL # ''u2029''
            else r) @ json_chars (drop (k - 1) cs)))"

definition json_string :: "string \<Rightarrow> string" where
  "json_string s = QUOT @ json_chars s @ QUOT"

definition json_indent :: "nat \<Rightarrow> string" where
  "json_indent d = NL @ concat (replicate d ''  '')"

definition json_block :: "string \<Rightarrow> string \<Rightarrow> nat \<Rightarrow> string list \<Rightarrow> string" where
  "json_block l r d items =
     (if items = [] then l @ r
      else l @ json_indent (Suc d) @ join ('','' @ json_indent (Suc d)) items @ json_indent d @ r)"

fun json_text :: "nat \<Rightarrow> json \<Rightarrow> string" where
  "json_text d (JStr s) = json_string s"
| "json_text d (JInt i) = show_int i"
| "json_text d (JBool b) = (if b then ''true'' else ''false'')"
| "json_text d (JArr xs) = json_block ''['' '']'' d (map (json_text (Suc d)) xs)"
| "json_text d (JObj kvs) = json_block ''{'' ''}'' d (map (\<lambda>kv. json_string (fst kv) @ '': '' @ json_text (Suc d) (snd kv)) kvs)"

section \<open>The document\<close>

definition CNIVersion :: string where "CNIVersion = ''1.0.0''"

record conflist_params =
  cf_Name :: string
  cf_Bridge :: string
  cf_MTU :: int
  cf_PodCIDRs :: "prefix list"

definition hostLocalIPAM :: "string list \<Rightarrow> json" where
  "hostLocalIPAM ranges =
     JObj [(''type'', JStr ''host-local''),
           (''ranges'', JArr (map (\<lambda>s. JArr [JObj [(''subnet'', JStr s)]]) ranges))]"

definition bridgePlugin :: "string \<Rightarrow> int \<Rightarrow> json \<Rightarrow> json" where
  "bridgePlugin bridge mtu ipam =
     JObj ([(''type'', JStr ''bridge''), (''bridge'', JStr bridge), (''isDefaultGateway'', JBool True),
            (''hairpinMode'', JBool True)] @ (if mtu = 0 then [] else [(''mtu'', JInt mtu)]) @ [(''ipam'', ipam)])"

definition portmapPlugin :: json where
  "portmapPlugin =
     JObj [(''type'', JStr ''portmap''), (''capabilities'', JObj [(''portMappings'', JBool True)])]"

definition document :: "string \<Rightarrow> json list \<Rightarrow> json" where
  "document name plugins =
     JObj [(''cniVersion'', JStr CNIVersion), (''name'', JStr name), (''plugins'', JArr plugins)]"

text \<open>The loop over the pod CIDRs: one of each family, and the subnets as they are written.\<close>

fun conflist_ranges :: "bool \<Rightarrow> bool \<Rightarrow> prefix list \<Rightarrow> go_error + string list" where
  "conflist_ranges sawV4 sawV6 [] = Inr []"
| "conflist_ranges sawV4 sawV6 (cidr # cidrs) =
     (if \<not> Prefix_IsValid cidr then Inl (''conflist: invalid pod CIDR '' @ Quote (Prefix_String cidr))
      else if Is4 (Prefix_Addr cidr) \<and> \<not> sawV4 then
        bind_err (conflist_ranges True sawV6 cidrs) (\<lambda>rs. Inr (Prefix_String (Masked cidr) # rs))
      else if Is6 (Prefix_Addr cidr) \<and> \<not> sawV6 then
        bind_err (conflist_ranges sawV4 True cidrs) (\<lambda>rs. Inr (Prefix_String (Masked cidr) # rs))
      else Inl (''conflist: more than one pod CIDR for one address family: '' @ Prefix_String cidr))"

definition conflist_Render :: "conflist_params \<Rightarrow> go_error + string" where
  "conflist_Render p =
     (if cf_Name p = [] then Inl ''conflist: network name is required''
      else if cf_Bridge p = [] then Inl ''conflist: bridge name is required''
      else if cf_PodCIDRs p = [] then Inl ''conflist: at least one pod CIDR is required''
      else
        bind_err (conflist_ranges False False (cf_PodCIDRs p)) (\<lambda>ranges.
          Inr (json_text 0 (document (cf_Name p)
                 [bridgePlugin (cf_Bridge p) (cf_MTU p) (hostLocalIPAM ranges), portmapPlugin]) @ NL)))"

section \<open>Writing it\<close>

text \<open>
  The file operations with the states the file system goes through, first the one it starts
  in, so that what a reader sees at any moment can be said.
\<close>

definition fill :: "'w file_ops \<Rightarrow> string \<Rightarrow> string \<Rightarrow> 'w \<Rightarrow> go_error option \<times> 'w list" where
  "fill fs f data w =
     (let (err, w1) = fs_Write fs f data w;
          (err', w2) = (case err of None \<Rightarrow> fs_Chmod fs f 420 w1 | Some _ \<Rightarrow> (err, w1));
          (cerr, w3) = fs_Close fs f w2
      in (errors_Join [err', cerr], [w1, w2, w3]))"

definition conflist_WriteFile :: "'w file_ops \<Rightarrow> string \<Rightarrow> string \<Rightarrow> 'w \<Rightarrow> (go_error + bool) \<times> 'w list" where
  "conflist_WriteFile fs path data w =
     (if fs_ReadFile fs path w = Inr data then (Inr False, [w])
      else
       (case fs_CreateTemp fs (path_Dir path) (''.'' @ path_Base path @ ''.*'') w of
          (Inl e, w1) \<Rightarrow> (Inl (''conflist: '' @ e), [w, w1])
        | (Inr tmp, w1) \<Rightarrow>
           (case fill fs tmp data w1 of
              (Some e, ws) \<Rightarrow>
                (let (rm, w2) = fs_Remove fs tmp (last ws)
                 in (Inl (the (errors_Join [Some (''conflist: write '' @ tmp @ '': '' @ e), rm])), w # w1 # ws @ [w2]))
            | (None, ws) \<Rightarrow>
               (case fs_Rename fs tmp path (last ws) of
                  (Some e, w2) \<Rightarrow>
                    (let (rm, w3) = fs_Remove fs tmp w2
                     in (Inl (the (errors_Join [Some (''conflist: '' @ e), rm])), w # w1 # ws @ [w2, w3]))
                | (None, w2) \<Rightarrow> (Inr True, w # w1 # ws @ [w2])))))"

section \<open>Lemmas\<close>

lemma valid_family: "Prefix_IsValid p \<Longrightarrow> wf_prefix p \<Longrightarrow> Is4 (Prefix_Addr p) \<noteq> Is6 (Prefix_Addr p)"
  by (cases "Prefix_Addr p") (auto simp: Prefix_IsValid_def wf_prefix_def)

lemma conflist_ranges_Inr:
  assumes "list_all wf_prefix cs"
  shows "conflist_ranges s4 s6 cs = Inr rs \<longleftrightarrow>
    rs = map (\<lambda>c. Prefix_String (Masked c)) cs \<and> list_all Prefix_IsValid cs \<and>
    (if s4 then 1 else 0) + length (filter (\<lambda>c. Is4 (Prefix_Addr c)) cs) \<le> 1 \<and>
    (if s6 then 1 else 0) + length (filter (\<lambda>c. Is6 (Prefix_Addr c)) cs) \<le> 1"
  using assms
proof (induction cs arbitrary: s4 s6 rs)
  case (Cons c cs)
  have fam: "Is4 (Prefix_Addr c) = (\<not> Is6 (Prefix_Addr c))" if "Prefix_IsValid c" using that valid_family [of c] Cons.prems by auto
  have wf: "list_all wf_prefix cs" using Cons.prems by simp
  show ?case
    by (cases "Prefix_IsValid c"; cases "Is6 (Prefix_Addr c)"; cases s4; cases s6)
      (use fam in \<open>auto simp: bind_err_Inr Cons.IH [OF wf]\<close>)
qed auto

context file_system
begin

lemma fill_states:
  assumes "fill fs t data w = (err, ws)" "content w t = Some []"
  shows "list_all (\<lambda>v. \<forall>p. p \<noteq> t \<longrightarrow> content v p = content w p) ws \<and> ws \<noteq> [] \<and>
    (err = None \<longrightarrow> content (last ws) = (content w)(t \<mapsto> data))"
proof -
  obtain e1 w1 where 1: "fs_Write fs t data w = (e1, w1)" by (cases "fs_Write fs t data w")
  obtain e2 w2 where 2: "(case e1 of None \<Rightarrow> fs_Chmod fs t 420 w1 | Some _ \<Rightarrow> (e1, w1)) = (e2, w2)"
    by (metis surj_pair)
  obtain e3 w3 where 3: "fs_Close fs t w2 = (e3, w3)" by (cases "fs_Close fs t w2")
  have ws: "ws = [w1, w2, w3]" and err: "err = errors_Join [e2, e3]"
    using assms(1) 1 2 3 by (auto simp: fill_def)
  have c1: "p \<noteq> t \<longrightarrow> content w1 p = content w p" for p
    using write_ok [OF _ assms(2)] write_err 1 by (cases e1) auto
  have c2: "content w2 = content w1" using 2 chmod [of t 420 w1] by (cases e1) (auto simp: fst_def snd_def split: prod.splits)
  have c3: "content w3 = content w2" using 3 close [of t w2] by simp
  have "e1 = None" if "err = None" using that err 2 by (cases e1) auto
  then have "err = None \<Longrightarrow> content w1 = (content w)(t \<mapsto> data)" using write_ok [OF _ assms(2)] 1 by fastforce
  then show ?thesis using c1 c2 c3 by (simp add: ws)
qed

lemma WriteFile_states:
  assumes "conflist_WriteFile fs path data w = (r, ws)"
  shows "list_all (\<lambda>v. content v path = content w path \<or> content v path = Some data) ws \<and> ws \<noteq> [] \<and> hd ws = w \<and>
    (case r of
       Inr changed \<Rightarrow> content (last ws) = (content w)(path \<mapsto> data) \<and> (changed \<longleftrightarrow> content w path \<noteq> Some data) \<and>
         (changed \<or> ws = [w])
     | Inl e \<Rightarrow> content (last ws) path = content w path)"
proof (cases "fs_ReadFile fs path w = Inr data")
  case True
  then show ?thesis
    using assms fun_upd_idem [of "content w" path "Some data"] by (auto simp: conflist_WriteFile_def read_ok)
next
  case False
  then have old: "content w path \<noteq> Some data" by (simp add: read_ok)
  let ?pre = "''.'' @ path_Base path @ ''.''"
  obtain tr w1 where t: "fs_CreateTemp fs (path_Dir path) (?pre @ ''*'') w = (tr, w1)" by (metis surj_pair)
  show ?thesis
  proof (cases tr)
    case (Inl e)
    then show ?thesis using assms False t temp_err [OF t [unfolded Inl]] by (auto simp: conflist_WriteFile_def)
  next
    case (Inr tmp)
    note T = temp_ok [OF t [unfolded Inr]]
    have "length (path_Base tmp) > length (path_Base path)" using T by (auto simp: HasPrefix_iff)
    then have ne: "path \<noteq> tmp" by auto
    have w1: "content w1 tmp = Some []" "content w1 path = content w path" using T ne by auto
    obtain ferr fws where f: "fill fs tmp data w1 = (ferr, fws)" by (metis surj_pair)
    note F = fill_states [OF f w1(1)]
    have fp: "list_all (\<lambda>v. content v path = content w path) fws"
      using F ne w1 by (simp add: list_all_iff)
    show ?thesis
    proof (cases ferr)
      case (Some e)
      obtain rm w2 where rm: "fs_Remove fs tmp (last fws) = (rm, w2)" by (metis surj_pair)
      have "content w2 path = content w path"
        using remove [OF ne, of "last fws"] rm fp F by (simp add: list_all_iff)
      then show ?thesis using assms False t Inr f Some rm fp w1
        by (auto simp: conflist_WriteFile_def list_all_iff)
    next
      case None
      obtain rn w2 where rn: "fs_Rename fs tmp path (last fws) = (rn, w2)" by (metis surj_pair)
      have l: "content (last fws) = (content w1)(tmp \<mapsto> data)" using F None by simp
      show ?thesis
      proof (cases rn)
        case (Some e)
        obtain rm w3 where rm: "fs_Remove fs tmp w2 = (rm, w3)" by (metis surj_pair)
        have "content w2 path = content w path" using rename_err [OF rn [unfolded Some]] l ne w1 by simp
        moreover have "content w3 path = content w2 path" using remove [OF ne, of w2] rm by simp
        ultimately show ?thesis using assms False t Inr f None rn Some rm fp w1
          by (auto simp: conflist_WriteFile_def list_all_iff)
      next
        case None': None
        have "content w2 = ((content w1)(tmp \<mapsto> data))(tmp := None, path \<mapsto> data)"
          using rename_ok [OF rn [unfolded None']] l by simp
        then have "content w2 = (content w)(path \<mapsto> data)" using T by auto
        then show ?thesis using assms False t Inr f None rn None' fp w1 old
          by (auto simp: conflist_WriteFile_def list_all_iff)
      qed
    qed
  qed
qed

end

section \<open>Properties\<close>

text \<open>
  C37: a list is rendered exactly where the network and the bridge have names and there is at
  least one pod CIDR, every one valid and at most one of each family; then it is the text of
  the document with one range set per CIDR, the masked prefix, and the MTU where it is not 0.
\<close>

theorem conflist_Render_exact:
  assumes "list_all wf_prefix (cf_PodCIDRs p)"
  shows "conflist_Render p = Inr out \<longleftrightarrow>
    cf_Name p \<noteq> [] \<and> cf_Bridge p \<noteq> [] \<and> cf_PodCIDRs p \<noteq> [] \<and> list_all Prefix_IsValid (cf_PodCIDRs p) \<and>
    length (filter (\<lambda>c. Is4 (Prefix_Addr c)) (cf_PodCIDRs p)) \<le> 1 \<and>
    length (filter (\<lambda>c. Is6 (Prefix_Addr c)) (cf_PodCIDRs p)) \<le> 1 \<and>
    out = json_text 0 (document (cf_Name p)
      [bridgePlugin (cf_Bridge p) (cf_MTU p) (hostLocalIPAM (map (\<lambda>c. Prefix_String (Masked c)) (cf_PodCIDRs p))),
       portmapPlugin]) @ NL"
  by (auto simp: conflist_Render_def bind_err_Inr conflist_ranges_Inr [OF assms])

definition ex_conflist :: conflist_params where
  "ex_conflist = \<lparr>cf_Name = ''cnidaria'', cf_Bridge = ''cni0'', cf_MTU = 1500,
     cf_PodCIDRs = [Prefix (Addr4 0xC0000200) 24, Prefix (Addr6 0x20010DB8000100000000000000000000 []) 64]\<rparr>"

theorem conflist_Render_exact_witness:
  "\<exists>out. conflist_Render ex_conflist = Inr out \<and> out = json_text 0 (document ''cnidaria''
     [bridgePlugin ''cni0'' 1500 (hostLocalIPAM (map (\<lambda>c. Prefix_String (Masked c)) (cf_PodCIDRs ex_conflist))), portmapPlugin]) @ NL"
  using conflist_Render_exact [of ex_conflist]
  by (simp add: ex_conflist_def wf_prefix_def Prefix_IsValid_def)

text \<open>
  C17: whoever reads the file while it is written sees the whole old list or the whole new
  one, whatever fails. Where no error is returned the file holds the new list and no other
  file is changed; a list that is already there is not written again. Where one is returned
  the file is as it was.
\<close>

theorem conflist_WriteFile_atomic:
  assumes "file_system fs content" and "conflist_WriteFile fs path data w = (r, ws)"
  shows "list_all (\<lambda>v. content v path = content w path \<or> content v path = Some data) ws \<and> ws \<noteq> [] \<and> hd ws = w \<and>
    (case r of
       Inr changed \<Rightarrow> content (last ws) = (content w)(path \<mapsto> data) \<and> (changed \<longleftrightarrow> content w path \<noteq> Some data) \<and>
         (changed \<or> ws = [w])
     | Inl e \<Rightarrow> content (last ws) path = content w path)"
  by (rule file_system.WriteFile_states [OF assms])

theorem conflist_WriteFile_atomic_witness:
  "\<exists>ws. conflist_WriteFile (disk (\<lambda>_. False)) ''/etc/c'' ''new'' [(''/etc/c'', ''old'')] = (Inr True, ws) \<and>
     map_of (last ws) ''/etc/c'' = Some ''new''"
proof -
  obtain ws where run: "conflist_WriteFile (disk (\<lambda>_. False)) ''/etc/c'' ''new'' [(''/etc/c'', ''old'')] = (Inr True, ws)"
    by (simp add: conflist_WriteFile_def disk_def fill_def path_Base_def path_Dir_def Clean_def HasPrefix_def Let_def fresh_name_def
        errors_Join_def)
  show ?thesis using run conflist_WriteFile_atomic [OF disk.file_system_axioms run] by simp
qed

end
