(* ===== verification/Iptables.thy ===== *)
theory Iptables
  imports Netip Go_Files
begin

text \<open>
  \<open>internal/iptables/forward.go\<close>: which of the two iptables backends a node uses, and keeping
  the chain that accepts pod traffic and the jump to it. Running a command is a parameter, as
  the source has it; the locale \<open>filter_tables\<close> says what the iptables commands it runs do.
\<close>

section \<open>Commands\<close>

definition Chain_FWD :: string where "Chain_FWD = ''CNIDARIA-FWD''"

definition jumpComment :: string where
  "jumpComment = ''cnidaria: accept pod traffic ahead of the FORWARD policy''"

text \<open>
  An error of a command: whether it wraps \<open>exec.ErrNotFound\<close>, the exit code it carries, if it
  does, and its text.
\<close>

record run_error =
  re_NotFound :: bool
  re_ExitCode :: "int option"
  re_text :: go_error

type_synonym 'w ipt_runner = "string \<Rightarrow> string \<Rightarrow> string list \<Rightarrow> 'w \<Rightarrow> (run_error + string) \<times> 'w"

text \<open>\<open>cmd.Output\<close>: the error, what was printed and what went to standard error.\<close>

type_synonym 'w cmd_output = "string \<Rightarrow> string \<Rightarrow> string list \<Rightarrow> 'w \<Rightarrow> (run_error option \<times> string \<times> string) \<times> 'w"

definition Exec_Run :: "'w cmd_output \<Rightarrow> 'w ipt_runner" where
  "Exec_Run cmd stdin name args w =
     (case cmd stdin name args w of
        ((Some err, out, stderr), w') \<Rightarrow>
          (Inl (err\<lparr>re_text := name @ '' '' @ join '' '' args @ '': '' @ re_text err @ '': '' @ TrimSpace stderr\<rparr>), w')
      | ((None, out, stderr), w') \<Rightarrow> (Inr out, w'))"

section \<open>Choosing a backend\<close>

datatype backend = NFT | Legacy

fun Backend_String :: "backend \<Rightarrow> string" where
  "Backend_String NFT = ''nft''"
| "Backend_String Legacy = ''legacy''"

record forward =
  fw_V4 :: backend
  fw_V6 :: backend
  fw_V4Reason :: string
  fw_V6Reason :: string

record ipt_family =
  if_prog :: string
  if_nftKube :: nat
  if_legacyKube :: nat
  if_nftInstalled :: bool

text \<open>\<open>strings.Lines\<close>: the lines with their newlines.\<close>

fun str_Lines :: "string \<Rightarrow> string list" where
  "str_Lines [] = []"
| "str_Lines (c # cs) =
     (if c = CHR 0x0A then [c] # str_Lines cs
      else (case str_Lines cs of [] \<Rightarrow> [[c]] | l # ls \<Rightarrow> (c # l) # ls))"

definition kubeChains :: "string \<Rightarrow> nat" where
  "kubeChains save = length (filter (\<lambda>l. HasPrefix l '':KUBE-'') (str_Lines save))"

fun output_of :: "run_error + string \<Rightarrow> string" where
  "output_of (Inl _) = []"
| "output_of (Inr out) = out"

fun is_missing :: "run_error + string \<Rightarrow> bool" where
  "is_missing (Inl e) = re_NotFound e"
| "is_missing (Inr _) = False"

definition probe :: "'w ipt_runner \<Rightarrow> string \<Rightarrow> 'w \<Rightarrow> (go_error + ipt_family) \<times> 'w" where
  "probe run prog w =
     (let (nft, w1) = run [] (prog @ ''-nft-save'') [] w;
          (leg, w2) = run [] (prog @ ''-legacy-save'') [] w1
      in if is_missing nft \<and> is_missing leg
         then (Inl (''neither '' @ prog @ ''-nft nor '' @ prog @ ''-legacy is installed: the image needs the iptables package''), w2)
         else (Inr \<lparr>if_prog = prog, if_nftKube = kubeChains (output_of nft), if_legacyKube = kubeChains (output_of leg),
                    if_nftInstalled = (\<not> is_missing nft)\<rparr>, w2))"

definition byKubeProxy :: "ipt_family \<Rightarrow> backend option" where
  "byKubeProxy f =
     (if if_legacyKube f > if_nftKube f then Some Legacy
      else if if_nftKube f > if_legacyKube f then Some NFT
      else None)"

definition choose_backend :: "ipt_family \<Rightarrow> ipt_family \<Rightarrow> backend \<times> string" where
  "choose_backend f other =
     (case byKubeProxy f of
        Some b \<Rightarrow> (b, ''kube-proxy's KUBE- chains are in this backend'')
      | None \<Rightarrow>
          (case byKubeProxy other of
             Some b \<Rightarrow> (b, ''no KUBE- chains here; following '' @ if_prog other @ '', where they are in this backend'')
           | None \<Rightarrow>
               if \<not> if_nftInstalled f then (Legacy, ''no KUBE- chains in either family, and only legacy is installed'')
               else (NFT, ''no KUBE- chains in either family; nft is the default'')))"

definition Detect :: "'w ipt_runner \<Rightarrow> 'w \<Rightarrow> (go_error + forward) \<times> 'w" where
  "Detect run w =
     (case probe run ''iptables'' w of
        (Inl e, w1) \<Rightarrow> (Inl e, w1)
      | (Inr v4, w1) \<Rightarrow>
          (case probe run ''ip6tables'' w1 of
             (Inl e, w2) \<Rightarrow> (Inl e, w2)
           | (Inr v6, w2) \<Rightarrow>
               (Inr \<lparr>fw_V4 = fst (choose_backend v4 v6), fw_V6 = fst (choose_backend v6 v4),
                     fw_V4Reason = snd (choose_backend v4 v6), fw_V6Reason = snd (choose_backend v6 v4)\<rparr>, w2)))"

section \<open>The chain and the jump\<close>

text \<open>\<open>netip.Prefix.Compare\<close>, as the key it compares by.\<close>

definition compare_key :: "prefix \<Rightarrow> addr \<times> int \<times> addr" where
  "compare_key p = (Prefix_Addr (Masked p), Bits p, Prefix_Addr p)"

definition accept_rules :: "prefix list \<Rightarrow> string list" where
  "accept_rules cidrs =
     concat (map (\<lambda>p. [''-s '' @ Prefix_String p @ '' -j ACCEPT'', ''-d '' @ Prefix_String p @ '' -j ACCEPT'']) cidrs)"

definition restore_input :: "string list \<Rightarrow> string" where
  "restore_input rules =
     ''*filter'' @ NL @ '':'' @ Chain_FWD @ '' - [0:0]'' @ NL @
     concat (map (\<lambda>r. ''-A '' @ Chain_FWD @ '' '' @ r @ NL) rules) @ ''COMMIT'' @ NL"

definition jump_rule :: "string list" where
  "jump_rule = [''-m'', ''comment'', ''--comment'', jumpComment, ''-j'', Chain_FWD]"

definition chain_cidrs :: "prefix list \<Rightarrow> prefix list" where
  "chain_cidrs cidrs = remdups_adj (sort_key compare_key cidrs)"

definition forward_apply :: "'w ipt_runner \<Rightarrow> string \<Rightarrow> prefix list \<Rightarrow> 'w \<Rightarrow> go_error option \<times> 'w" where
  "forward_apply run bin cidrs w =
     (case run (restore_input (accept_rules (chain_cidrs cidrs))) (bin @ ''-restore'') [''-w'', ''--noflush''] w of
        (Inl e, w1) \<Rightarrow> (Some (re_text e), w1)
      | (Inr _, w1) \<Rightarrow>
          (case run [] bin ([''-w'', ''-t'', ''filter'', ''-C'', ''FORWARD''] @ jump_rule) w1 of
             (Inr _, w2) \<Rightarrow> (None, w2)
           | (Inl e, w2) \<Rightarrow>
               if re_ExitCode e \<noteq> Some 1 then (Some (re_text e), w2)
               else
                (case run [] bin ([''-w'', ''-t'', ''filter'', ''-I'', ''FORWARD'', ''1''] @ jump_rule) w2 of
                   (Inl e, w3) \<Rightarrow> (Some (re_text e), w3)
                 | (Inr _, w3) \<Rightarrow> (None, w3))))"

definition Forward_Apply :: "'w ipt_runner \<Rightarrow> forward \<Rightarrow> prefix list \<Rightarrow> 'w \<Rightarrow> go_error option \<times> 'w" where
  "Forward_Apply run f cidrs w =
     (let v4 = map Masked (filter (\<lambda>p. Is4 (Prefix_Addr p)) cidrs);
          v6 = map Masked (filter (\<lambda>p. \<not> Is4 (Prefix_Addr p)) cidrs);
          (e4, w1) = forward_apply run (''iptables-'' @ Backend_String (fw_V4 f)) v4 w;
          (e6, w2) = forward_apply run (''ip6tables-'' @ Backend_String (fw_V6 f)) v6 w1
      in (errors_Join [e4, e6], w2))"

lemma compare_key_inj: "inj compare_key"
proof
  fix p q show "compare_key p = compare_key q \<Longrightarrow> p = q"
    by (cases p; cases q) (simp add: compare_key_def)
qed

lemma chain_cidrs_facts:
  "set (chain_cidrs cidrs) = set cidrs" "distinct (chain_cidrs cidrs)" "sorted (map compare_key (chain_cidrs cidrs))"
proof -
  have "map compare_key (chain_cidrs cidrs) = remdups_adj (map compare_key (sort_key compare_key cidrs))"
    unfolding chain_cidrs_def by (rule remdups_adj_map_injective [OF compare_key_inj, symmetric])
  then show "distinct (chain_cidrs cidrs)" "sorted (map compare_key (chain_cidrs cidrs))"
    using distinct_remdups_adj_sorted [of "map compare_key (sort_key compare_key cidrs)"]  distinct_map [of compare_key "chain_cidrs cidrs"] by auto
qed (simp add: chain_cidrs_def)

section \<open>What it relies on\<close>

definition one_line :: "string \<Rightarrow> bool" where
  "one_line r \<longleftrightarrow> CHR 0x0A \<notin> set r"

lemma accept_rules_one_line:
  assumes "list_all (\<lambda>c. wf_prefix c \<and> Prefix_IsValid c) cidrs"
  shows "list_all one_line (accept_rules (chain_cidrs cidrs))"
proof -
  have "one_line (Prefix_String c)" if "c \<in> set cidrs" for c
    using that assms Prefix_String_chars [of c] by (auto simp: one_line_def list_all_iff addr_chars_def)
  then show ?thesis by (auto simp: accept_rules_def one_line_def list_all_iff chain_cidrs_facts(1))
qed

text \<open>
  The filter table behind a program: the rules of \<open>CNIDARIA-FWD\<close> and of \<open>FORWARD\<close>.
  \<^verbatim>\<open>iptables-restore --noflush\<close> replaces the chain it declares, in one transaction, and leaves the others;
  \<^verbatim>\<open>-C\<close> changes nothing and exits 0 where the rule is there and 1 where it is not; \<^verbatim>\<open>-I FORWARD 1\<close> puts
  a rule first. A command that fails changes nothing.
\<close>

locale filter_tables =
  fixes run :: "'w ipt_runner" and own :: "'w \<Rightarrow> string \<Rightarrow> string list" and fwd :: "'w \<Rightarrow> string \<Rightarrow> string list list"
  assumes restore_ok: "list_all one_line rules \<Longrightarrow> run (restore_input rules) (bin @ ''-restore'') [''-w'', ''--noflush''] w = (Inr out, w') \<Longrightarrow>
      own w' = (own w)(bin := rules) \<and> fwd w' = fwd w"
    and restore_err: "run stdin (bin @ ''-restore'') [''-w'', ''--noflush''] w = (Inl e, w') \<Longrightarrow> own w' = own w \<and> fwd w' = fwd w"
    and check: "run [] bin ([''-w'', ''-t'', ''filter'', ''-C'', ''FORWARD''] @ rule) w = (res, w') \<Longrightarrow>
      own w' = own w \<and> fwd w' = fwd w \<and>
      (case res of Inr _ \<Rightarrow> rule \<in> set (fwd w bin) | Inl e \<Rightarrow> re_ExitCode e = Some 1 \<longrightarrow> rule \<notin> set (fwd w bin))"
    and insert_ok: "run [] bin ([''-w'', ''-t'', ''filter'', ''-I'', ''FORWARD'', ''1''] @ rule) w = (Inr out, w') \<Longrightarrow>
      own w' = own w \<and> fwd w' = (fwd w)(bin := rule # fwd w bin)"
    and insert_err: "run [] bin ([''-w'', ''-t'', ''filter'', ''-I'', ''FORWARD'', ''1''] @ rule) w = (Inl e, w') \<Longrightarrow>
      own w' = own w \<and> fwd w' = fwd w"
begin

text \<open>One family: what its two chains hold afterwards, and that nothing of another program changed.\<close>

lemma forward_apply_outcome:
  assumes "forward_apply run bin cidrs w = (err, w')" "list_all (\<lambda>c. wf_prefix c \<and> Prefix_IsValid c) cidrs"
  shows "(\<forall>b. b \<noteq> bin \<longrightarrow> own w' b = own w b \<and> fwd w' b = fwd w b) \<and>
    own w' bin \<in> {own w bin, accept_rules (chain_cidrs cidrs)} \<and>
    (fwd w' bin = fwd w bin \<or> jump_rule \<notin> set (fwd w bin) \<and> fwd w' bin = jump_rule # fwd w bin) \<and>
    (err = None \<longrightarrow> own w' bin = accept_rules (chain_cidrs cidrs) \<and> jump_rule \<in> set (fwd w' bin))"
proof -
  let ?rs = "accept_rules (chain_cidrs cidrs)"
  obtain r1 w1 where 1: "run (restore_input ?rs) (bin @ ''-restore'') [''-w'', ''--noflush''] w = (r1, w1)" by (metis surj_pair)
  obtain r2 w2 where 2: "run [] bin ([''-w'', ''-t'', ''filter'', ''-C'', ''FORWARD''] @ jump_rule) w1 = (r2, w2)" by (metis surj_pair)
  obtain r3 w3 where 3: "run [] bin ([''-w'', ''-t'', ''filter'', ''-I'', ''FORWARD'', ''1''] @ jump_rule) w2 = (r3, w3)" by (metis surj_pair)
  note C = check [OF 2]
  show ?thesis
  proof (cases r1)
    case (Inl e)
    then show ?thesis using assms(1) 1 restore_err [OF 1 [unfolded Inl]] by (auto simp: forward_apply_def)
  next
    case R: (Inr out)
    note O = restore_ok [OF accept_rules_one_line [OF assms(2)] 1 [unfolded R]]
    show ?thesis
    proof (cases r2)
      case (Inr out')
      then show ?thesis using assms(1) 1 2 R C O unfolding forward_apply_def by auto
    next
      case L: (Inl e)
      show ?thesis
      proof (cases "re_ExitCode e = Some 1")
        case False
        then show ?thesis using assms(1) 1 2 R L C O unfolding forward_apply_def by auto
      next
        case True
        then have run: "(err, w') = (case r3 of Inl e \<Rightarrow> (Some (re_text e), w3) | Inr _ \<Rightarrow> (None, w3))"
          using assms(1) 1 2 3 R L unfolding forward_apply_def by (cases r3) auto
        show ?thesis
          using run True L C O insert_ok [of bin jump_rule w2] insert_err [of bin jump_rule w2] 3
          by (cases r3) (auto simp: fun_upd_def)
      qed
    qed
  qed
qed

end

section \<open>A host\<close>

text \<open>
  A host: the programs it has, what their \<^verbatim>\<open>-save\<close> prints, and as its state the rules of the two
  chains behind each program. A locked table makes every command on it fail.
\<close>

definition restored :: "string \<Rightarrow> string list" where
  "restored stdin =
     (let own = ''-A '' @ Chain_FWD @ '' ''
      in map (drop (length own)) (filter (\<lambda>l. HasPrefix l own) (split_on CHR 0x0A stdin)))"

lemma split_on_lines:
  "list_all (\<lambda>l. CHR 0x0A \<notin> set l) ls \<Longrightarrow> split_on CHR 0x0A (concat (map (\<lambda>l. l @ NL) ls) @ rest) = ls @ split_on CHR 0x0A rest"
  by (induction ls) (simp_all add: NL_def split_on_append_sep)

lemma restored_input: "list_all one_line rules \<Longrightarrow> restored (restore_input rules) = rules"
proof -
  assume rules: "list_all one_line rules"
  let ?own = "''-A '' @ Chain_FWD @ '' ''"
  define ls where "ls = [''*filter'', '':'' @ Chain_FWD @ '' - [0:0]''] @ map (\<lambda>r. ?own @ r) rules @ [''COMMIT'']"
  have eq: "restore_input rules = concat (map (\<lambda>l. l @ NL) ls)"
    by (simp add: restore_input_def ls_def comp_def)
  have "list_all (\<lambda>l. CHR 0x0A \<notin> set l) ls"
    using rules by (auto simp: ls_def list_all_iff one_line_def Chain_FWD_def)
  from split_on_lines [OF this, of "[]"] have "split_on CHR 0x0A (restore_input rules) = ls @ [[]]"
    by (simp add: eq)
  moreover have "filter (\<lambda>l. HasPrefix l ?own) (map (\<lambda>r. ?own @ r) rules) = map (\<lambda>r. ?own @ r) rules"
    by (simp add: filter_map comp_def)
  moreover have "map (drop (length ?own)) (map (\<lambda>r. ?own @ r) rules) = rules" by (simp add: comp_def)
  ultimately show ?thesis by (simp add: restored_def ls_def Let_def HasPrefix_def Chain_FWD_def)
qed

record ipt_state =
  st_own :: "string \<Rightarrow> string list"
  st_fwd :: "string \<Rightarrow> string list list"

definition host_ipt :: "(string \<Rightarrow> bool) \<Rightarrow> (string \<Rightarrow> string) \<Rightarrow> (string \<Rightarrow> bool) \<Rightarrow> ipt_state ipt_runner" where
  "host_ipt installed save locked stdin name args w =
     (if \<not> installed name
      then (Inl \<lparr>re_NotFound = True, re_ExitCode = None, re_text = name @ '': executable file not found in $PATH''\<rparr>, w)
      else if locked name
      then (Inl \<lparr>re_NotFound = False, re_ExitCode = Some 4, re_text = name @ '': exit status 4''\<rparr>, w)
      else if args = [''-w'', ''--noflush'']
      then (Inr [], w\<lparr>st_own := (st_own w)(take (length name - 8) name := restored stdin)\<rparr>)
      else if take 5 args = [''-w'', ''-t'', ''filter'', ''-C'', ''FORWARD'']
      then (if drop 5 args \<in> set (st_fwd w name) then (Inr [], w)
            else (Inl \<lparr>re_NotFound = False, re_ExitCode = Some 1, re_text = name @ '': exit status 1''\<rparr>, w))
      else if take 6 args = [''-w'', ''-t'', ''filter'', ''-I'', ''FORWARD'', ''1'']
      then (Inr [], w\<lparr>st_fwd := (st_fwd w)(name := drop 6 args # st_fwd w name)\<rparr>)
      else (Inr (save name), w))"

interpretation ipt: filter_tables "host_ipt installed save locked" st_own st_fwd
proof
  fix rules bin w out w'
  assume "list_all one_line rules"
    "host_ipt installed save locked (restore_input rules) (bin @ ''-restore'') [''-w'', ''--noflush''] w = (Inr out, w')"
  then show "st_own w' = (st_own w)(bin := rules) \<and> st_fwd w' = st_fwd w"
    by (auto simp: host_ipt_def restored_input split: if_splits)
qed (auto simp: host_ipt_def split: if_splits)

section \<open>Properties\<close>

definition bin4 :: "forward \<Rightarrow> string" where "bin4 f = ''iptables-'' @ Backend_String (fw_V4 f)"
definition bin6 :: "forward \<Rightarrow> string" where "bin6 f = ''ip6tables-'' @ Backend_String (fw_V6 f)"

definition accepts :: "prefix \<Rightarrow> string set" where
  "accepts p = {''-s '' @ Prefix_String p @ '' -j ACCEPT'', ''-d '' @ Prefix_String p @ '' -j ACCEPT''}"

lemma set_accept_rules: "set (accept_rules (chain_cidrs cidrs)) = \<Union> (accepts ` set cidrs)"
  by (auto simp: accept_rules_def accepts_def chain_cidrs_facts(1))

lemma bins_differ: "bin4 f \<noteq> bin6 f"
  by (simp add: bin4_def bin6_def)

context filter_tables
begin

lemma Forward_Apply_outcome:
  assumes "Forward_Apply run f cidrs w = (err, w')" "list_all (\<lambda>c. wf_prefix c \<and> Prefix_IsValid c) cidrs"
  shows "(\<forall>b. b \<noteq> bin4 f \<and> b \<noteq> bin6 f \<longrightarrow> own w' b = own w b \<and> fwd w' b = fwd w b) \<and>
    (\<forall>b. fwd w' b = fwd w b \<or> jump_rule \<notin> set (fwd w b) \<and> fwd w' b = jump_rule # fwd w b) \<and>
    (err = None \<longrightarrow>
       own w' (bin4 f) = accept_rules (chain_cidrs (map Masked (filter (\<lambda>p. Is4 (Prefix_Addr p)) cidrs))) \<and>
       own w' (bin6 f) = accept_rules (chain_cidrs (map Masked (filter (\<lambda>p. \<not> Is4 (Prefix_Addr p)) cidrs))) \<and>
       jump_rule \<in> set (fwd w' (bin4 f)) \<and> jump_rule \<in> set (fwd w' (bin6 f)))"
proof -
  let ?v4 = "map Masked (filter (\<lambda>p. Is4 (Prefix_Addr p)) cidrs)" and ?v6 = "map Masked (filter (\<lambda>p. \<not> Is4 (Prefix_Addr p)) cidrs)"
  have good: "list_all (\<lambda>c. wf_prefix c \<and> Prefix_IsValid c) ?v4" "list_all (\<lambda>c. wf_prefix c \<and> Prefix_IsValid c) ?v6"
    using assms(2) Masked_idem by (auto simp: list_all_iff)
  obtain e4 w1 where 4: "forward_apply run (bin4 f) ?v4 w = (e4, w1)" by (metis surj_pair)
  obtain e6 w2 where 6: "forward_apply run (bin6 f) ?v6 w1 = (e6, w2)" by (metis surj_pair)
  have r: "err = errors_Join [e4, e6]" "w' = w2"
    using assms(1) 4 6 by (auto simp: Forward_Apply_def Let_def bin4_def bin6_def)
  note A4 = forward_apply_outcome [OF 4 good(1)] and A6 = forward_apply_outcome [OF 6 good(2)]
  have b6: "own w1 (bin6 f) = own w (bin6 f)" "fwd w1 (bin6 f) = fwd w (bin6 f)"
    using A4 bins_differ [of f] by metis+
  have b4: "own w' (bin4 f) = own w1 (bin4 f)" "fwd w' (bin4 f) = fwd w1 (bin4 f)"
    using A6 bins_differ [of f] r by metis+
  have oth: "b \<noteq> bin4 f \<Longrightarrow> b \<noteq> bin6 f \<Longrightarrow> own w' b = own w b \<and> fwd w' b = fwd w b" for b
    using A4 A6 r by metis
  moreover have "fwd w' b = fwd w b \<or> jump_rule \<notin> set (fwd w b) \<and> fwd w' b = jump_rule # fwd w b" for b
  proof -
    consider "b = bin4 f" | "b = bin6 f" | "b \<noteq> bin4 f" "b \<noteq> bin6 f" by blast
    then show ?thesis by cases (use A4 A6 b4 b6 r oth in simp_all)
  qed
  ultimately show ?thesis using A4 A6 b4 b6 r by auto
qed

lemma Forward_Apply_chains:
  assumes "Forward_Apply run f cidrs w = (None, w')" "list_all (\<lambda>c. wf_prefix c \<and> Prefix_IsValid c) cidrs"
  shows "set (own w' (bin4 f)) = (\<Union>c \<in> {c \<in> set cidrs. Is4 (Prefix_Addr c)}. accepts (Masked c)) \<and>
    set (own w' (bin6 f)) = (\<Union>c \<in> {c \<in> set cidrs. Is6 (Prefix_Addr c)}. accepts (Masked c)) \<and>
    jump_rule \<in> set (fwd w' (bin4 f)) \<and> jump_rule \<in> set (fwd w' (bin6 f))"
proof -
  have "\<not> Is4 (Prefix_Addr c) \<longleftrightarrow> Is6 (Prefix_Addr c)" if "c \<in> set cidrs" for c
    using that assms(2) by (cases "Prefix_Addr c") (auto simp: list_all_iff wf_prefix_def Prefix_IsValid_def)
  then have "{c \<in> set cidrs. Is6 (Prefix_Addr c)} = {c \<in> set cidrs. \<not> Is4 (Prefix_Addr c)}" by auto
  then show ?thesis using Forward_Apply_outcome [OF assms] by (simp add: set_accept_rules)
qed

end

text \<open>
  C16: where \<open>Apply\<close> returns no error, the chain of each family accepts exactly the traffic
  from and to the masked CIDRs of that family, and \<open>FORWARD\<close> of each family jumps to it.
\<close>

theorem Forward_Apply_exact:
  assumes "filter_tables run own fwd" and "list_all (\<lambda>c. wf_prefix c \<and> Prefix_IsValid c) cidrs"
    and "Forward_Apply run f cidrs w = (None, w')"
  shows "set (own w' (bin4 f)) = (\<Union>c \<in> {c \<in> set cidrs. Is4 (Prefix_Addr c)}. accepts (Masked c)) \<and>
    set (own w' (bin6 f)) = (\<Union>c \<in> {c \<in> set cidrs. Is6 (Prefix_Addr c)}. accepts (Masked c)) \<and>
    jump_rule \<in> set (fwd w' (bin4 f)) \<and> jump_rule \<in> set (fwd w' (bin6 f))"
  by (rule filter_tables.Forward_Apply_chains [OF assms(1,3,2)])

definition ex_forward :: forward where
  "ex_forward = \<lparr>fw_V4 = NFT, fw_V6 = Legacy, fw_V4Reason = [], fw_V6Reason = []\<rparr>"

definition ex_ipt :: ipt_state where
  "ex_ipt = \<lparr>st_own = (\<lambda>_. []), st_fwd = (\<lambda>_. [[''-j'', ''DOCKER'']])\<rparr>"

lemmas Forward_Apply_eval =
  Forward_Apply_def forward_apply_def host_ipt_def ex_forward_def ex_ipt_def jump_rule_def Let_def errors_Join_def

theorem Forward_Apply_exact_witness:
  "\<exists>w'. Forward_Apply (host_ipt (\<lambda>_. True) (\<lambda>_. []) (\<lambda>_. False)) ex_forward [Prefix (Addr4 0x0A000000) 16] ex_ipt = (None, w') \<and>
     set (st_own w' (bin4 ex_forward)) = accepts (Masked (Prefix (Addr4 0x0A000000) 16))"
proof -
  obtain w' where run: "Forward_Apply (host_ipt (\<lambda>_. True) (\<lambda>_. []) (\<lambda>_. False)) ex_forward [Prefix (Addr4 0x0A000000) 16] ex_ipt = (None, w')"
    by (simp add: Forward_Apply_eval)
  show ?thesis
    using run Forward_Apply_exact [OF ipt.filter_tables_axioms _ run] by (auto simp: wf_prefix_def Prefix_IsValid_def)
qed

text \<open>
  C35: whatever fails, \<open>FORWARD\<close> only ever gains the one jump, at its head and only where it
  was not there, so that it never holds more than one that cnidaria put; every other rule and
  every table behind another program is as it was.
\<close>

theorem Forward_Apply_safe:
  assumes "filter_tables run own fwd" and "list_all (\<lambda>c. wf_prefix c \<and> Prefix_IsValid c) cidrs"
    and "Forward_Apply run f cidrs w = (err, w')"
  shows "(b \<noteq> bin4 f \<and> b \<noteq> bin6 f \<longrightarrow> own w' b = own w b \<and> fwd w' b = fwd w b) \<and>
    (fwd w' b = fwd w b \<or> fwd w' b = jump_rule # fwd w b) \<and>
    count_list (fwd w' b) jump_rule \<le> max 1 (count_list (fwd w b) jump_rule)"
proof -
  have "(b \<noteq> bin4 f \<and> b \<noteq> bin6 f \<longrightarrow> own w' b = own w b \<and> fwd w' b = fwd w b) \<and>
      (fwd w' b = fwd w b \<or> jump_rule \<notin> set (fwd w b) \<and> fwd w' b = jump_rule # fwd w b)"
    using filter_tables.Forward_Apply_outcome [OF assms(1,3,2)] by blast
  then show ?thesis by (auto simp: count_notin)
qed

theorem Forward_Apply_safe_witness:
  "\<exists>err w'. Forward_Apply (host_ipt (\<lambda>_. True) (\<lambda>_. []) (\<lambda>n. n = ''iptables-nft'')) ex_forward [] ex_ipt = (err, w') \<and>
     count_list (st_fwd w' ''ip6tables-legacy'') jump_rule \<le> 1"
proof -
  obtain err w' where run: "Forward_Apply (host_ipt (\<lambda>_. True) (\<lambda>_. []) (\<lambda>n. n = ''iptables-nft'')) ex_forward [] ex_ipt = (err, w')"
    by (metis surj_pair)
  show ?thesis
    using run Forward_Apply_safe [OF ipt.filter_tables_axioms _ run, of "''ip6tables-legacy''"]
    by (auto simp: ex_ipt_def jump_rule_def)
qed

text \<open>Probing a family where \<^verbatim>\<open>-save\<close> only reads.\<close>

lemma probe_saves:
  assumes "\<forall>name. run [] name [] v = (out name, v)"
  shows "probe run prog v =
      (if is_missing (out (prog @ ''-nft-save'')) \<and> is_missing (out (prog @ ''-legacy-save''))
       then (Inl (''neither '' @ prog @ ''-nft nor '' @ prog @ ''-legacy is installed: the image needs the iptables package''), v)
       else (Inr \<lparr>if_prog = prog, if_nftKube = kubeChains (output_of (out (prog @ ''-nft-save''))),
                  if_legacyKube = kubeChains (output_of (out (prog @ ''-legacy-save''))),
                  if_nftInstalled = (\<not> is_missing (out (prog @ ''-nft-save'')))\<rparr>, v))"
  using assms by (simp add: probe_def)

text \<open>What the probe finds, and the choice between two such families.\<close>

definition saved :: "(string \<Rightarrow> run_error + string) \<Rightarrow> string \<Rightarrow> ipt_family" where
  "saved out prog =
     \<lparr>if_prog = prog, if_nftKube = kubeChains (output_of (out (prog @ ''-nft-save''))),
      if_legacyKube = kubeChains (output_of (out (prog @ ''-legacy-save''))),
      if_nftInstalled = (\<not> is_missing (out (prog @ ''-nft-save'')))\<rparr>"

definition kube_of :: "ipt_family \<Rightarrow> backend \<Rightarrow> nat" where
  "kube_of f b = (case b of NFT \<Rightarrow> if_nftKube f | Legacy \<Rightarrow> if_legacyKube f)"

lemma saved_kube: "kubeChains (output_of (out (prog @ ''-'' @ Backend_String b @ ''-save''))) = kube_of (saved out prog) b"
  by (cases b) (simp_all add: kube_of_def saved_def)

lemma kube_of_all: "(\<forall>c. kube_of f c = n) \<longleftrightarrow> if_nftKube f = n \<and> if_legacyKube f = n"
  "(\<exists>c. kube_of f c < n) \<longleftrightarrow> if_nftKube f < n \<or> if_legacyKube f < n"
  by (metis backend.exhaust kube_of_def backend.simps(3,4))+

lemma choose_backend_most: "kube_of f c \<le> kube_of f (fst (choose_backend f g))"
  by (cases c) (auto simp: choose_backend_def byKubeProxy_def kube_of_def)

lemma choose_backend_follows:
  assumes "kube_of f (fst (choose_backend f g)) = 0" "if_nftInstalled f \<longleftrightarrow> fst (choose_backend f g) = Legacy"
  shows "(\<forall>c. kube_of f c = 0) \<and> (\<exists>c. kube_of g c < kube_of g (fst (choose_backend f g)))"
  unfolding kube_of_all using assms by (auto simp: choose_backend_def byKubeProxy_def kube_of_def split: if_splits)

lemma choose_backend_differ:
  assumes "fst (choose_backend f g) \<noteq> fst (choose_backend g f)" "if_nftInstalled f = if_nftInstalled g"
  shows "kube_of f (fst (choose_backend g f)) < kube_of f (fst (choose_backend f g))"
  using assms by (auto simp: choose_backend_def byKubeProxy_def kube_of_def split: if_splits)

lemma Detect_saved:
  assumes "\<forall>name. run [] name [] w = (out name, w)"
  shows "isl (fst (Detect run w)) \<longleftrightarrow>
      (\<exists>prog \<in> {''iptables'', ''ip6tables''}. is_missing (out (prog @ ''-nft-save'')) \<and> is_missing (out (prog @ ''-legacy-save'')))"
    and "fst (Detect run w) = Inr f \<Longrightarrow>
      fw_V4 f = fst (choose_backend (saved out ''iptables'') (saved out ''ip6tables'')) \<and>
      fw_V6 f = fst (choose_backend (saved out ''ip6tables'') (saved out ''iptables''))"
  by (auto simp: Detect_def probe_saves [of run w out, OF assms] saved_def split: if_splits)

lemma missing_saved:
  assumes "is_missing (out (prog @ ''-'' @ Backend_String b @ ''-save''))"
    and "\<not> (is_missing (out (prog @ ''-nft-save'')) \<and> is_missing (out (prog @ ''-legacy-save'')))"
  shows "kube_of (saved out prog) b = 0" "if_nftInstalled (saved out prog) \<longleftrightarrow> b = Legacy"
proof -
  have "kubeChains (output_of (out (prog @ ''-'' @ Backend_String b @ ''-save''))) = 0"
    using assms(1) by (cases "out (prog @ ''-'' @ Backend_String b @ ''-save'')") (simp_all add: kubeChains_def)
  then show "kube_of (saved out prog) b = 0" unfolding saved_kube .
  show "if_nftInstalled (saved out prog) \<longleftrightarrow> b = Legacy" using assms by (cases b) (simp_all add: saved_def)
qed

text \<open>
  A backend that is chosen and not installed is the other family's; and where both families have the same
  backends there is no such one.
\<close>

lemma Detect_follows:
  assumes "\<forall>name. run [] name [] w = (out name, w)" "fst (Detect run w) = Inr f"
  shows "is_missing (out (bin4 f @ ''-save'')) \<Longrightarrow> (\<forall>c. kube_of (saved out ''iptables'') c = 0) \<and>
      (\<exists>c. kube_of (saved out ''ip6tables'') c < kube_of (saved out ''ip6tables'') (fw_V4 f))"
    and "is_missing (out (bin6 f @ ''-save'')) \<Longrightarrow> (\<forall>c. kube_of (saved out ''ip6tables'') c = 0) \<and>
      (\<exists>c. kube_of (saved out ''iptables'') c < kube_of (saved out ''iptables'') (fw_V6 f))"
proof -
  note D = Detect_saved [of run w out, OF assms(1)]
  have ok: "\<not> (is_missing (out (prog @ ''-nft-save'')) \<and> is_missing (out (prog @ ''-legacy-save'')))"
    if "prog \<in> {''iptables'', ''ip6tables''}" for prog
    using D(1) that assms(2) by auto
  show "is_missing (out (bin4 f @ ''-save'')) \<Longrightarrow> (\<forall>c. kube_of (saved out ''iptables'') c = 0) \<and>
      (\<exists>c. kube_of (saved out ''ip6tables'') c < kube_of (saved out ''ip6tables'') (fw_V4 f))"
    using missing_saved [of out "''iptables''" "fw_V4 f"] ok [of "''iptables''"] D(2) [OF assms(2)]
      choose_backend_follows [of "saved out ''iptables''" "saved out ''ip6tables''"] by (simp add: bin4_def)
  show "is_missing (out (bin6 f @ ''-save'')) \<Longrightarrow> (\<forall>c. kube_of (saved out ''ip6tables'') c = 0) \<and>
      (\<exists>c. kube_of (saved out ''iptables'') c < kube_of (saved out ''iptables'') (fw_V6 f))"
    using missing_saved [of out "''ip6tables''" "fw_V6 f"] ok [of "''ip6tables''"] D(2) [OF assms(2)]
      choose_backend_follows [of "saved out ''ip6tables''" "saved out ''iptables''"] by (simp add: bin6_def)
qed

lemma Detect_same:
  assumes "\<forall>name. run [] name [] w = (out name, w)" "fst (Detect run w) = Inr f"
    and "\<forall>b. is_missing (out (''iptables-'' @ Backend_String b @ ''-save'')) = is_missing (out (''ip6tables-'' @ Backend_String b @ ''-save''))"
  shows "\<not> is_missing (out (bin4 f @ ''-save'')) \<and> \<not> is_missing (out (bin6 f @ ''-save'')) \<and>
      (fw_V4 f \<noteq> fw_V6 f \<longrightarrow>
        kube_of (saved out ''iptables'') (fw_V6 f) < kube_of (saved out ''iptables'') (fw_V4 f) \<and>
        kube_of (saved out ''ip6tables'') (fw_V4 f) < kube_of (saved out ''ip6tables'') (fw_V6 f))"
proof -
  note D = Detect_saved [of run w out, OF assms(1)]
  have ok: "\<not> (is_missing (out (prog @ ''-nft-save'')) \<and> is_missing (out (prog @ ''-legacy-save'')))"
    if "prog \<in> {''iptables'', ''ip6tables''}" for prog
    using D(1) that assms(2) by auto
  have "if_nftInstalled (saved out ''iptables'') = if_nftInstalled (saved out ''ip6tables'')"
    using spec [OF assms(3), of NFT] by (simp add: saved_def)
  moreover have "\<not> is_missing (out (bin4 f @ ''-save''))"
    using Detect_follows(1) [of run w out, OF assms(1,2)] missing_saved(1) [of out "''ip6tables''" "fw_V4 f"] ok [of "''ip6tables''"]
      spec [OF assms(3), of "fw_V4 f"] by (auto simp: bin4_def)
  moreover have "\<not> is_missing (out (bin6 f @ ''-save''))"
    using Detect_follows(2) [of run w out, OF assms(1,2)] missing_saved(1) [of out "''iptables''" "fw_V6 f"] ok [of "''iptables''"]
      spec [OF assms(3), of "fw_V6 f"] by (auto simp: bin6_def)
  ultimately show ?thesis
    using choose_backend_differ [of "saved out ''iptables''" "saved out ''ip6tables''"]
      choose_backend_differ [of "saved out ''ip6tables''" "saved out ''iptables''"] D(2) [OF assms(2)] by simp
qed

text \<open>
  C36: detection fails exactly where a family has neither backend. A backend it chooses holds at
  least as many of kube-proxy's chains as the other one of the family. It is one that is not installed
  only where it follows the other family: where this family has none of kube-proxy's chains and the other has
  more of them in that backend. So where the two families have the same backends installed, what is chosen
  is installed, and then the two families differ only where each has kube-proxy's chains in its own.
\<close>

theorem Detect_choice:
  assumes "\<forall>name. run [] name [] w = (out name, w)"
  shows "(isl (fst (Detect run w)) \<longleftrightarrow>
      (\<exists>prog \<in> {''iptables'', ''ip6tables''}. is_missing (out (prog @ ''-nft-save'')) \<and> is_missing (out (prog @ ''-legacy-save'')))) \<and>
    (\<forall>f. fst (Detect run w) = Inr f \<longrightarrow>
      (\<forall>b. kubeChains (output_of (out (''iptables-'' @ Backend_String b @ ''-save''))) \<le> kubeChains (output_of (out (bin4 f @ ''-save''))) \<and>
           kubeChains (output_of (out (''ip6tables-'' @ Backend_String b @ ''-save''))) \<le> kubeChains (output_of (out (bin6 f @ ''-save'')))) \<and>
      (is_missing (out (bin4 f @ ''-save'')) \<longrightarrow>
        (\<forall>b. kubeChains (output_of (out (''iptables-'' @ Backend_String b @ ''-save''))) = 0) \<and>
        (\<exists>b. kubeChains (output_of (out (''ip6tables-'' @ Backend_String b @ ''-save''))) <
             kubeChains (output_of (out (''ip6tables-'' @ Backend_String (fw_V4 f) @ ''-save''))))) \<and>
      (is_missing (out (bin6 f @ ''-save'')) \<longrightarrow>
        (\<forall>b. kubeChains (output_of (out (''ip6tables-'' @ Backend_String b @ ''-save''))) = 0) \<and>
        (\<exists>b. kubeChains (output_of (out (''iptables-'' @ Backend_String b @ ''-save''))) <
             kubeChains (output_of (out (''iptables-'' @ Backend_String (fw_V6 f) @ ''-save''))))) \<and>
      ((\<forall>b. is_missing (out (''iptables-'' @ Backend_String b @ ''-save'')) = is_missing (out (''ip6tables-'' @ Backend_String b @ ''-save''))) \<longrightarrow>
        \<not> is_missing (out (bin4 f @ ''-save'')) \<and> \<not> is_missing (out (bin6 f @ ''-save'')) \<and>
        (fw_V4 f \<noteq> fw_V6 f \<longrightarrow>
          kubeChains (output_of (out (''iptables-'' @ Backend_String (fw_V6 f) @ ''-save''))) < kubeChains (output_of (out (bin4 f @ ''-save''))) \<and>
          kubeChains (output_of (out (''ip6tables-'' @ Backend_String (fw_V4 f) @ ''-save''))) < kubeChains (output_of (out (bin6 f @ ''-save''))))))"
proof -
  have kube: "kubeChains (output_of (out (''iptables-'' @ Backend_String b @ ''-save''))) = kube_of (saved out ''iptables'') b"
    "kubeChains (output_of (out (''ip6tables-'' @ Backend_String b @ ''-save''))) = kube_of (saved out ''ip6tables'') b" for b
    using saved_kube [of out "''iptables''" b] saved_kube [of out "''ip6tables''" b] by simp_all
  have bins: "out (bin4 f @ ''-save'') = out (''iptables-'' @ Backend_String (fw_V4 f) @ ''-save'')"
    "out (bin6 f @ ''-save'') = out (''ip6tables-'' @ Backend_String (fw_V6 f) @ ''-save'')" for f
    by (simp_all add: bin4_def bin6_def)
  have most: "kube_of (saved out ''iptables'') b \<le> kube_of (saved out ''iptables'') (fw_V4 f) \<and>
      kube_of (saved out ''ip6tables'') b \<le> kube_of (saved out ''ip6tables'') (fw_V6 f)" if "fst (Detect run w) = Inr f" for f b
    using Detect_saved(2) [of run w out, OF assms that] by (simp add: choose_backend_most)
  show ?thesis
    unfolding bins kube
    using Detect_saved(1) [of run w out, OF assms] most Detect_follows [of run w out, OF assms, unfolded bins]
      Detect_same [of run w out, OF assms, unfolded bins]
    by (intro conjI allI impI) blast+
qed

definition ex_saves :: "string \<Rightarrow> run_error + string" where
  "ex_saves name =
     (if name = ''iptables-nft-save'' then Inr ('':KUBE-FORWARD - [0:0]'' @ NL)
      else if name = ''ip6tables-nft-save'' then Inr []
      else Inl \<lparr>re_NotFound = True, re_ExitCode = None, re_text = ''not found''\<rparr>)"

theorem Detect_choice_witness:
  "\<exists>f. fst (Detect (\<lambda>stdin name args w. (ex_saves name, w)) ()) = Inr f \<and>
     kubeChains (output_of (ex_saves ''iptables-legacy-save'')) \<le> kubeChains (output_of (ex_saves (bin4 f @ ''-save''))) \<and>
     \<not> is_missing (ex_saves (bin4 f @ ''-save'')) \<and> \<not> is_missing (ex_saves (bin6 f @ ''-save''))"
proof -
  let ?run = "\<lambda>stdin name args w. (ex_saves name, w)"
  have r: "\<forall>name. ?run [] name [] () = (ex_saves name, ())" by simp
  note C = Detect_choice [of ?run "()" ex_saves, OF r]
  have "\<not> isl (fst (Detect ?run ()))" using C by (simp add: ex_saves_def)
  then obtain f where f: "fst (Detect ?run ()) = Inr f" by (cases "fst (Detect ?run ())") auto
  have "is_missing (ex_saves (''iptables-'' @ Backend_String b @ ''-save'')) = is_missing (ex_saves (''ip6tables-'' @ Backend_String b @ ''-save''))" for b
    by (cases b) (simp_all add: ex_saves_def)
  moreover have "kubeChains (output_of (ex_saves (''iptables-'' @ Backend_String Legacy @ ''-save''))) \<le> kubeChains (output_of (ex_saves (bin4 f @ ''-save'')))"
    using C f by blast
  ultimately show ?thesis using C f by auto
qed

end
