(* ===== verification/Controller_Routes.thy ===== *)
theory Controller_Routes
  imports "HOL-Library.Sublist" Controller_Objects Netip_Roundtrip Routes_Kernel Conflist Iptables
begin

text \<open>
  The route reconciler, \<open>internal/controller/routes.go\<close>: one run of \<open>Reconcile\<close> brings the host-gw
  routes, the iptables forward chain, this node's conflist and its IPv6 annotation in step with the
  Node objects. The kernel, iptables, the file system and the API server are parameters, each
  with a state of its own; a \<open>machine\<close> is the four of them. The log is not modelled.
\<close>

section \<open>Model\<close>

record ('k, 'i, 'f, 'a) machine =
  m_kernel :: 'k
  m_ipt :: 'i
  m_files :: 'f
  m_api :: 'a

record conflist_cfg =
  cc_Path :: string
  cc_Name :: string
  cc_Bridge :: string
  cc_MTU :: int

text \<open>What \<open>net.Interfaces\<close> and \<open>Interface.Addrs\<close> give; an address need not be an \<open>IPNet\<close>.\<close>

datatype net_addr = IPNet ipnet | OtherAddr string

record iface =
  ifc_MTU :: int
  ifc_Addrs :: "go_error + net_addr list"

text \<open>
  The reconciler, with the interfaces \<open>Kernel\<close> and \<open>Forward\<close> of its struct. \<open>rr_Patch old new\<close> is
  \<open>Patch\<close> of \<open>new\<close> by \<open>MergeFrom\<close> \<open>old\<close>.
\<close>

record ('k, 'i, 'f, 'a) routes_env =
  rr_List :: "'a \<Rightarrow> go_error + k8s_node list"
  rr_Patch :: "k8s_node \<Rightarrow> k8s_node \<Rightarrow> 'a \<Rightarrow> go_error option \<times> 'a"
  rr_NodeName :: string
  rr_Apply :: "route list \<Rightarrow> 'k \<Rightarrow> route list \<times> go_error option \<times> 'k"
  rr_GlobalIPv6 :: "'k \<Rightarrow> addr \<Rightarrow> go_error + addr option"
  rr_Interfaces :: "'k \<Rightarrow> go_error + iface list"
  rr_Forward :: "prefix list \<Rightarrow> 'i \<Rightarrow> go_error option \<times> 'i"
  rr_Files :: "'f file_ops"
  rr_Conflist :: conflist_cfg

subsection \<open>The conflist\<close>

definition holds_addr :: "addr list \<Rightarrow> net_addr \<Rightarrow> bool" where
  "holds_addr addrs ia =
     (case ia of
        OtherAddr _ \<Rightarrow> False
      | IPNet ipnet \<Rightarrow>
          (case AddrFromSlice (ipn_IP ipnet) of
             None \<Rightarrow> False
           | Some held \<Rightarrow> list_ex (\<lambda>a. Unmap held = Unmap a) addrs))"

definition iface_holds :: "addr list \<Rightarrow> iface \<Rightarrow> bool" where
  "iface_holds addrs i = (case ifc_Addrs i of Inl _ \<Rightarrow> False | Inr ias \<Rightarrow> list_ex (holds_addr addrs) ias)"

definition uplinkMTU :: "go_error + iface list \<Rightarrow> addr list \<Rightarrow> go_error + int" where
  "uplinkMTU interfaces addrs =
     bind_err interfaces (\<lambda>ifaces.
       case find (iface_holds addrs) ifaces of
         Some i \<Rightarrow> Inr (ifc_MTU i)
       | None \<Rightarrow>
           Inl (''no interface holds any of this node's InternalIPs ['' @ join '' '' (map Addr_String addrs) @
                '']; set --mtu explicitly''))"

definition conflist_mtu :: "('k, 'i, 'f, 'a) routes_env \<Rightarrow> rnode \<Rightarrow> 'k \<Rightarrow> go_error + int" where
  "conflist_mtu E self k =
     (if cc_MTU (rr_Conflist E) = 0
      then map_err (\<lambda>e. ''conflist: '' @ e) (uplinkMTU (rr_Interfaces E k) (rn_InternalIPs self))
      else Inr (cc_MTU (rr_Conflist E)))"

definition conflist_data :: "('k, 'i, 'f, 'a) routes_env \<Rightarrow> rnode \<Rightarrow> 'k \<Rightarrow> go_error + string" where
  "conflist_data E self k =
     bind_err (conflist_mtu E self k) (\<lambda>mtu.
       conflist_Render \<lparr>cf_Name = cc_Name (rr_Conflist E), cf_Bridge = cc_Bridge (rr_Conflist E),
                        cf_MTU = mtu, cf_PodCIDRs = rn_PodCIDRs self\<rparr>)"

definition writeConflist :: "('k, 'i, 'f, 'a) routes_env \<Rightarrow> rnode \<Rightarrow> 'k \<Rightarrow> 'f \<Rightarrow> go_error option \<times> 'f" where
  "writeConflist E self k f =
     (if rn_PodCIDRs self = [] then (None, f)
      else
       (case conflist_data E self k of
          Inl e \<Rightarrow> (Some e, f)
        | Inr data \<Rightarrow>
           (case conflist_WriteFile (rr_Files E) (cc_Path (rr_Conflist E)) data f of
              (Inl e, fs) \<Rightarrow> (Some e, last fs)
            | (Inr changed, fs) \<Rightarrow> (None, last fs))))"

subsection \<open>The annotation\<close>

definition wanted_ipv6 :: "('k, 'i, 'f, 'a) routes_env \<Rightarrow> rnode \<Rightarrow> 'k \<Rightarrow> go_error + string" where
  "wanted_ipv6 E self k =
     (if list_ex Is6 (rn_InternalIPs self) then Inr []
      else
       (case find Is4 (rn_InternalIPs self) of
          None \<Rightarrow> Inr []
        | Some on \<Rightarrow>
            bind_err (rr_GlobalIPv6 E k on) (\<lambda>ip.
              case ip of None \<Rightarrow> Inr [] | Some g \<Rightarrow> Inr (Addr_String g))))"

definition annotated :: "string \<Rightarrow> k8s_node \<Rightarrow> k8s_node" where
  "annotated want n =
     n\<lparr>kn_Annotations := (kn_Annotations n)(NodeIPv6Annotation := if want = [] then None else Some want)\<rparr>"

definition publishIPv6 :: "('k, 'i, 'f, 'a) routes_env \<Rightarrow> k8s_node \<Rightarrow> rnode \<Rightarrow> 'k \<Rightarrow> 'a \<Rightarrow> go_error option \<times> 'a" where
  "publishIPv6 E n self k a =
     (case wanted_ipv6 E self k of
        Inl e \<Rightarrow> (Some e, a)
      | Inr want \<Rightarrow>
          (let found = kn_Annotations n NodeIPv6Annotation;
               got = (case found of None \<Rightarrow> [] | Some s \<Rightarrow> s);
               has = (found \<noteq> None)
           in if got = want \<and> has = (want \<noteq> []) then (None, a)
              else rr_Patch E n (annotated want n) a))"

subsection \<open>Reconcile\<close>

text \<open>The part of \<open>Reconcile\<close> that is about this node's own object, where the cluster has it.\<close>

definition own_node :: "('k, 'i, 'f, 'a) routes_env \<Rightarrow> k8s_node list \<Rightarrow> 'k \<Rightarrow> 'f \<Rightarrow> 'a \<Rightarrow>
    go_error option \<times> go_error option \<times> 'f \<times> 'a" where
  "own_node E items k f a =
     (case find (\<lambda>n. kn_Name n = rr_NodeName E) items of
        None \<Rightarrow> (None, None, f, a)
      | Some n \<Rightarrow>
          (let (writeErr, f1) = writeConflist E (fromNode n) k f;
               (err, a1) = publishIPv6 E n (fromNode n) k a
           in (writeErr, map_option (\<lambda>e. ''node IPv6 annotation: '' @ e) err, f1, a1)))"

definition Routes_Reconcile ::
  "('k, 'i, 'f, 'a) routes_env \<Rightarrow> ('k, 'i, 'f, 'a) machine \<Rightarrow> (go_error + int) \<times> ('k, 'i, 'f, 'a) machine" where
  "Routes_Reconcile E m =
     (case rr_List E (m_api m) of
        Inl err \<Rightarrow> (Inl (''list nodes: '' @ err), m)
      | Inr items \<Rightarrow>
          (let nodes = map fromNode items;
               clusterPodCIDRs = concat (map rn_PodCIDRs nodes);
               (installed, applyErr, k1) = rr_Apply E (fst (Compute (rr_NodeName E) nodes)) (m_kernel m);
               (forwardErr, i1) = rr_Forward E clusterPodCIDRs (m_ipt m);
               (writeErr, annotateErr, f1, a1) = own_node E items k1 (m_files m) (m_api m);
               m1 = \<lparr>m_kernel = k1, m_ipt = i1, m_files = f1, m_api = a1\<rparr>
           in case errors_Join [applyErr, forwardErr, writeErr, annotateErr] of
                Some err \<Rightarrow> (Inl err, m1)
              | None \<Rightarrow> (Inr Resync, m1)))"

section \<open>A node\<close>

text \<open>
  What the daemon runs on, and the reconciler as \<open>run\<close> of \<open>cmd/cnidaria/main.go\<close> puts it together:
  the netlink handle behind \<open>routes.Kernel\<close>, the commands behind \<open>iptables.Forward\<close>.
\<close>

record ('k, 'l, 'i, 'f, 'a) node_host =
  nh_Netlink :: "'k nl_handle"
  nh_Links :: "'k \<Rightarrow> 'l nl_links"
  nh_Interfaces :: "'k \<Rightarrow> go_error + iface list"
  nh_Run :: "'i ipt_runner"
  nh_Files :: "'f file_ops"
  nh_List :: "'a \<Rightarrow> go_error + k8s_node list"
  nh_Patch :: "k8s_node \<Rightarrow> k8s_node \<Rightarrow> 'a \<Rightarrow> go_error option \<times> 'a"

definition node_env ::
  "('k, 'l, 'i, 'f, 'a) node_host \<Rightarrow> forward \<Rightarrow> string \<Rightarrow> conflist_cfg \<Rightarrow> ('k, 'i, 'f, 'a) routes_env" where
  "node_env H forward nodeName cfg =
     \<lparr>rr_List = nh_List H, rr_Patch = nh_Patch H, rr_NodeName = nodeName,
      rr_Apply = (\<lambda>set k. let (installed, errs, k') = kernel_Apply (nh_Netlink H) set k
                          in (installed, errors_Join (map Some errs), k')),
      rr_GlobalIPv6 = (\<lambda>k. GlobalIPv6 (nh_Links H k)),
      rr_Interfaces = nh_Interfaces H,
      rr_Forward = Forward_Apply (nh_Run H) forward,
      rr_Files = nh_Files H, rr_Conflist = cfg\<rparr>"

lemma node_env_sel [simp]:
  "rr_List (node_env H fw me cfg) = nh_List H" "rr_Patch (node_env H fw me cfg) = nh_Patch H"
  "rr_NodeName (node_env H fw me cfg) = me" "rr_Files (node_env H fw me cfg) = nh_Files H"
  "rr_Conflist (node_env H fw me cfg) = cfg" "rr_Forward (node_env H fw me cfg) = Forward_Apply (nh_Run H) fw"
  "rr_GlobalIPv6 (node_env H fw me cfg) = (\<lambda>k. GlobalIPv6 (nh_Links H k))"
  by (simp_all add: node_env_def)

text \<open>
  The Node objects of the API server. A merge patch changes of the object there what differs between
  the two objects it was made from, and nothing else; one that is refused changes nothing.
\<close>

definition merged :: "(string \<Rightarrow> string option) \<Rightarrow> (string \<Rightarrow> string option) \<Rightarrow> (string \<Rightarrow> string option) \<Rightarrow> string \<Rightarrow> string option" where
  "merged old new cur key = (if old key = new key then cur key else new key)"

locale node_store =
  fixes patch :: "k8s_node \<Rightarrow> k8s_node \<Rightarrow> 'a \<Rightarrow> go_error option \<times> 'a" and obj :: "'a \<Rightarrow> string \<Rightarrow> k8s_node option"
  assumes patch_ok: "patch old (old\<lparr>kn_Annotations := ann\<rparr>) a = (None, a') \<Longrightarrow>
      \<exists>n. obj a (kn_Name old) = Some n \<and>
        obj a' = (obj a)(kn_Name old \<mapsto> n\<lparr>kn_Annotations := merged (kn_Annotations old) ann (kn_Annotations n)\<rparr>)"
    and patch_err: "patch old new a = (Some e, a') \<Longrightarrow> obj a' = obj a"
begin

text \<open>Publishing changes this node's annotation at most, to what is wanted of it.\<close>

lemma publishIPv6_outcome:
  assumes "publishIPv6 E n self k a = (err, a')" "rr_Patch E = patch"
  shows "obj a' = obj a \<or>
      (\<exists>want cur. wanted_ipv6 E self k = Inr want \<and> obj a (kn_Name n) = Some cur \<and>
         obj a' = (obj a)(kn_Name n \<mapsto> annotated want cur))"
    "err = None \<Longrightarrow> obj a (kn_Name n) = Some n \<Longrightarrow>
       \<exists>want. wanted_ipv6 E self k = Inr want \<and> obj a' (kn_Name n) = Some (annotated want n)"
proof -
  have "(obj a' = obj a \<or>
      (\<exists>want cur. wanted_ipv6 E self k = Inr want \<and> obj a (kn_Name n) = Some cur \<and>
         obj a' = (obj a)(kn_Name n \<mapsto> annotated want cur))) \<and>
    (err = None \<longrightarrow> obj a (kn_Name n) = Some n \<longrightarrow>
       (\<exists>want. wanted_ipv6 E self k = Inr want \<and> obj a' (kn_Name n) = Some (annotated want n)))"
  proof (cases "wanted_ipv6 E self k")
    case (Inl e)
    then show ?thesis using assms(1) by (auto simp: publishIPv6_def)
  next
    case (Inr want)
    let ?v = "if want = [] then None else Some want" and ?found = "kn_Annotations n NodeIPv6Annotation"
    have same: "(case ?found of None \<Rightarrow> [] | Some s \<Rightarrow> s) = want \<and> (?found \<noteq> None) = (want \<noteq> []) \<longleftrightarrow> ?found = ?v"
      by (cases ?found) auto
    show ?thesis
    proof (cases "?found = ?v")
      case True
      then have "annotated want n = n" by (simp add: annotated_def fun_upd_idem)
      moreover have "err = None" "a' = a" using assms(1) Inr True same by (simp_all add: publishIPv6_def Let_def)
      ultimately show ?thesis using Inr by auto
    next
      case False
      let ?new = "(kn_Annotations n)(NodeIPv6Annotation := ?v)"
      have c: "\<not> ((case ?found of None \<Rightarrow> [] | Some s \<Rightarrow> s) = want \<and> (?found \<noteq> None) = (want \<noteq> []))" using False same by blast
      have p: "patch n (n\<lparr>kn_Annotations := ?new\<rparr>) a = (err, a')"
        using assms(1) unfolding publishIPv6_def Let_def Inr sum.case if_not_P [OF c] annotated_def assms(2) .
      have upd: "merged (kn_Annotations n) ?new cur = cur(NodeIPv6Annotation := ?v)" for cur
        using False by (intro ext) (simp add: merged_def)
      show ?thesis
      proof (cases err)
        case None
        with patch_ok p obtain cur where "obj a (kn_Name n) = Some cur"
          "obj a' = (obj a)(kn_Name n \<mapsto> cur\<lparr>kn_Annotations := merged (kn_Annotations n) ?new (kn_Annotations cur)\<rparr>)" by blast
        then show ?thesis using Inr by (auto simp: upd annotated_def)
      next
        case (Some e)
        then show ?thesis using patch_err p by blast
      qed
    qed
  qed
  then show "obj a' = obj a \<or>
      (\<exists>want cur. wanted_ipv6 E self k = Inr want \<and> obj a (kn_Name n) = Some cur \<and>
         obj a' = (obj a)(kn_Name n \<mapsto> annotated want cur))"
    "err = None \<Longrightarrow> obj a (kn_Name n) = Some n \<Longrightarrow>
       \<exists>want. wanted_ipv6 E self k = Inr want \<and> obj a' (kn_Name n) = Some (annotated want n)"
    by blast+
qed

end

context file_system
begin

lemma writeConflist_outcome:
  assumes "writeConflist E self k f = (err, f')" "rr_Files E = fs"
  shows "content f' (cc_Path (rr_Conflist E)) = content f (cc_Path (rr_Conflist E)) \<or>
      (\<exists>d. conflist_data E self k = Inr d \<and> content f' (cc_Path (rr_Conflist E)) = Some d)"
    "err = None \<Longrightarrow> rn_PodCIDRs self \<noteq> [] \<Longrightarrow>
      \<exists>d. conflist_data E self k = Inr d \<and> content f' = (content f)(cc_Path (rr_Conflist E) \<mapsto> d)"
proof -
  let ?p = "cc_Path (rr_Conflist E)"
  have "(content f' ?p = content f ?p \<or> (\<exists>d. conflist_data E self k = Inr d \<and> content f' ?p = Some d)) \<and>
    (err = None \<longrightarrow> rn_PodCIDRs self \<noteq> [] \<longrightarrow> (\<exists>d. conflist_data E self k = Inr d \<and> content f' = (content f)(?p \<mapsto> d)))"
  proof (cases "conflist_data E self k")
    case (Inl e)
    then show ?thesis using assms(1) by (auto simp: writeConflist_def split: if_splits)
  next
    case (Inr d)
    obtain r ws where w: "conflist_WriteFile fs ?p d f = (r, ws)" by (metis surj_pair)
    show ?thesis
      using assms Inr w WriteFile_states [OF w]
      by (cases r) (auto simp: writeConflist_def split: if_splits)
  qed
  then show "content f' ?p = content f ?p \<or> (\<exists>d. conflist_data E self k = Inr d \<and> content f' ?p = Some d)"
    "err = None \<Longrightarrow> rn_PodCIDRs self \<noteq> [] \<Longrightarrow> \<exists>d. conflist_data E self k = Inr d \<and> content f' = (content f)(?p \<mapsto> d)"
    by blast+
qed

end

section \<open>What the nodes of a cluster have\<close>

text \<open>
  The addresses of a cluster that can be routed: no IPv4 range or address in IPv6 form, no
  zone, and no pod CIDR twice.
\<close>

definition routable :: "k8s_node list \<Rightarrow> bool" where
  "routable items \<longleftrightarrow>
     list_all (\<lambda>n. list_all (\<lambda>c. \<not> Is4In6 (Prefix_Addr (Masked c))) (rn_PodCIDRs n) \<and>
                   list_all (\<lambda>a. plain_addr a \<and> \<not> Is4In6 a) (rn_InternalIPs n) \<and>
                   (rn_AnnotatedIPv6 n = AddrZero \<or> plain_addr (rn_AnnotatedIPv6 n))) (map fromNode items) \<and>
     distinct (concat (map (\<lambda>n. map Masked (rn_PodCIDRs n)) (map fromNode items)))"

lemma fromNode_cidrs: "c \<in> set (rn_PodCIDRs (fromNode n)) \<Longrightarrow> wf_prefix c \<and> Prefix_IsValid c"
  using ParsePrefix_wf by (fastforce simp: fromNode_def parsed_def isl_def)

lemma fromNode_annotated: "\<not> Is4In6 (rn_AnnotatedIPv6 (fromNode n))"
  by (auto simp: fromNode_def annotated_ipv6_def split: option.splits sum.splits)

lemma cidr_routes_dst: "subseq (map (rt_Dst \<circ> projr) (filter (\<lambda>x. \<not> isl x) (map (cidr_route n) cs))) (map Masked cs)"
proof (induction cs)
  case (Cons c cs)
  have "isl (cidr_route n c) \<or> rt_Dst (projr (cidr_route n c)) = Masked c"
    by (auto simp: cidr_route_def split: option.splits)
  then show ?case using Cons by auto
qed simp

lemma peer_routes_dst:
  "subseq (map (rt_Dst \<circ> projr) (filter (\<lambda>x. \<not> isl x) (peer_routes self nodes))) (concat (map (\<lambda>n. map Masked (rn_PodCIDRs n)) nodes))"
proof (induction nodes)
  case (Cons n nodes)
  show ?case
  proof (cases "rn_Name n = self")
    case True
    then show ?thesis using Cons list_emb_append2 [OF Cons] by (simp add: peer_routes_def)
  next
    case False
    then show ?thesis
      using list_emb_append_mono [OF cidr_routes_dst [of n "rn_PodCIDRs n"] Cons] by (simp add: peer_routes_def comp_def)
  qed
qed (simp add: peer_routes_def)

lemma routable_Compute:
  assumes "routable items"
  shows "list_all good_route (fst (Compute me (map fromNode items)))" "distinct (map rt_Dst (fst (Compute me (map fromNode items))))"
proof -
  let ?nodes = "map fromNode items" and ?rs = "fst (Compute me (map fromNode items))"
  let ?found = "map projr (filter (\<lambda>x. \<not> isl x) (peer_routes me ?nodes))"
  have "good_route r" if r: "r \<in> set ?rs" for r
  proof -
    have "\<forall>n \<in> set ?nodes. list_all (\<lambda>c. wf_prefix c \<and> Prefix_IsValid c \<and> \<not> Is4In6 (Prefix_Addr (Masked c))) (rn_PodCIDRs n)"
      using assms fromNode_cidrs by (auto simp: routable_def list_all_iff)
    then have "good_dst (rt_Dst r)" using Compute_good r by blast
    moreover obtain n c where n: "n \<in> set items" "Inr r = cidr_route (fromNode n) c"
      using r by (auto simp: set_Compute peer_routes_iff)
    then have "rt_Via r \<in> set (rn_InternalIPs (fromNode n)) \<or> rt_Via r = rn_AnnotatedIPv6 (fromNode n) \<and> Is6 (rn_AnnotatedIPv6 (fromNode n))"
      using find_SomeD by (fastforce simp: cidr_route_Inr split: option.splits)
    then have "plain_addr (rt_Via r) \<and> \<not> Is4In6 (rt_Via r)"
      using assms n(1) fromNode_annotated [of n] by (auto simp: routable_def list_all_iff)
    ultimately show ?thesis by (simp add: good_route_def)
  qed
  then show "list_all good_route ?rs" by (simp add: list_all_iff)
  have "distinct (map rt_Dst ?found)"
    using peer_routes_dst [of me ?nodes] assms by (auto simp: routable_def subseq_conv_nths intro: distinct_nthsI)
  moreover have "mset (map rt_Dst ?rs) = mset (map rt_Dst ?found)" by (simp add: Compute_def Let_def multiset.map_comp)
  ultimately show "distinct (map rt_Dst ?rs)" using mset_eq_imp_distinct_iff by blast
qed

section \<open>The node and what a run leaves on it\<close>

locale routes_node =
  rt: routing_table "nh_Netlink H" tbl + ft: filter_tables "nh_Run H" own fwd +
  fsys: file_system "nh_Files H" content + store: node_store "nh_Patch H" obj
  for H :: "('k, 'l, 'i, 'f, 'a) node_host"
    and tbl :: "'k \<Rightarrow> prefix \<Rightarrow> (nat \<times> addr option) option"
    and own :: "'i \<Rightarrow> string \<Rightarrow> string list" and fwd :: "'i \<Rightarrow> string \<Rightarrow> string list list"
    and content :: "'f \<Rightarrow> string \<Rightarrow> string option" and obj :: "'a \<Rightarrow> string \<Rightarrow> k8s_node option"

text \<open>A run that could list the nodes is its four steps, each on its own part of the machine.\<close>

lemma Routes_Reconcile_steps:
  assumes "Routes_Reconcile (node_env H fw me cfg) m = (r, m')" "nh_List H (m_api m) = Inr items"
  obtains ins errs ferr werr aerr where
    "kernel_Apply (nh_Netlink H) (fst (Compute me (map fromNode items))) (m_kernel m) = (ins, errs, m_kernel m')"
    "Forward_Apply (nh_Run H) fw (concat (map rn_PodCIDRs (map fromNode items))) (m_ipt m) = (ferr, m_ipt m')"
    "own_node (node_env H fw me cfg) items (m_kernel m') (m_files m) (m_api m) = (werr, aerr, m_files m', m_api m')"
    "r = (case errors_Join [errors_Join (map Some errs), ferr, werr, aerr] of None \<Rightarrow> Inr Resync | Some e \<Rightarrow> Inl e)"
proof -
  let ?E = "node_env H fw me cfg"
  obtain ins errs k1 where k: "kernel_Apply (nh_Netlink H) (fst (Compute me (map fromNode items))) (m_kernel m) = (ins, errs, k1)"
    by (metis surj_pair)
  obtain ferr i1 where i: "Forward_Apply (nh_Run H) fw (concat (map rn_PodCIDRs (map fromNode items))) (m_ipt m) = (ferr, i1)"
    by (metis surj_pair)
  obtain werr aerr f1 a1 where o: "own_node ?E items k1 (m_files m) (m_api m) = (werr, aerr, f1, a1)" by (metis surj_pair)
  have ap: "rr_Apply ?E (fst (Compute me (map fromNode items))) (m_kernel m) = (ins, errors_Join (map Some errs), k1)"
    by (simp add: node_env_def k)
  have "(r, m') = (case errors_Join [errors_Join (map Some errs), ferr, werr, aerr] of None \<Rightarrow> Inr Resync | Some e \<Rightarrow> Inl e,
      \<lparr>m_kernel = k1, m_ipt = i1, m_files = f1, m_api = a1\<rparr>)"
    using assms ap i o unfolding Routes_Reconcile_def Let_def
    by (auto simp: comp_def simp del: errors_Join_None split: option.splits)
  then show ?thesis using that [of ins errs ferr werr aerr] k i o by simp
qed

lemma own_node_steps:
  assumes "own_node E items k f a = (werr, aerr, f', a')"
  shows "find (\<lambda>n. kn_Name n = rr_NodeName E) items = None \<Longrightarrow> f' = f \<and> a' = a"
    "find (\<lambda>n. kn_Name n = rr_NodeName E) items = Some n \<Longrightarrow>
      \<exists>err. writeConflist E (fromNode n) k f = (werr, f') \<and> publishIPv6 E n (fromNode n) k a = (err, a') \<and> (aerr = None \<longrightarrow> err = None)"
  using assms by (auto simp: own_node_def Let_def split: prod.splits)

context routes_node
begin

lemma own_node_outcome:
  assumes "own_node (node_env H fw me cfg) items k f a = (werr, aerr, f', a')"
  shows "content f' (cc_Path cfg) = content f (cc_Path cfg) \<or>
      (\<exists>n d. find (\<lambda>n. kn_Name n = me) items = Some n \<and> conflist_data (node_env H fw me cfg) (fromNode n) k = Inr d \<and>
         content f' (cc_Path cfg) = Some d)"
    "obj a' = obj a \<or> (\<exists>want cur. obj a me = Some cur \<and> obj a' = (obj a)(me \<mapsto> annotated want cur))"
    "find (\<lambda>n. kn_Name n = me) items = Some n \<Longrightarrow> werr = None \<Longrightarrow> rn_PodCIDRs (fromNode n) \<noteq> [] \<Longrightarrow>
      \<exists>d. conflist_data (node_env H fw me cfg) (fromNode n) k = Inr d \<and> content f' (cc_Path cfg) = Some d"
    "find (\<lambda>n. kn_Name n = me) items = Some n \<Longrightarrow> aerr = None \<Longrightarrow> obj a me = Some n \<Longrightarrow>
      \<exists>want. wanted_ipv6 (node_env H fw me cfg) (fromNode n) k = Inr want \<and> obj a' me = Some (annotated want n)"
proof -
  let ?E = "node_env H fw me cfg"
  have "(content f' (cc_Path cfg) = content f (cc_Path cfg) \<or>
      (\<exists>n d. find (\<lambda>n. kn_Name n = me) items = Some n \<and> conflist_data ?E (fromNode n) k = Inr d \<and> content f' (cc_Path cfg) = Some d)) \<and>
    (obj a' = obj a \<or> (\<exists>want cur. obj a me = Some cur \<and> obj a' = (obj a)(me \<mapsto> annotated want cur)))"
  proof (cases "find (\<lambda>n. kn_Name n = me) items")
    case None
    then show ?thesis using own_node_steps(1) [OF assms] by simp
  next
    case (Some v)
    obtain err where s: "writeConflist ?E (fromNode v) k f = (werr, f')" "publishIPv6 ?E v (fromNode v) k a = (err, a')"
      using own_node_steps(2) [OF assms] Some by auto
    then show ?thesis
      using fsys.writeConflist_outcome(1) [OF s(1)] store.publishIPv6_outcome(1) [OF s(2)] find_SomeD [OF Some] Some
      by (simp only: node_env_sel) blast
  qed
  then show "content f' (cc_Path cfg) = content f (cc_Path cfg) \<or>
      (\<exists>n d. find (\<lambda>n. kn_Name n = me) items = Some n \<and> conflist_data ?E (fromNode n) k = Inr d \<and> content f' (cc_Path cfg) = Some d)"
    "obj a' = obj a \<or> (\<exists>want cur. obj a me = Some cur \<and> obj a' = (obj a)(me \<mapsto> annotated want cur))" by blast+
  assume n: "find (\<lambda>n. kn_Name n = me) items = Some n"
  obtain err where s: "writeConflist ?E (fromNode n) k f = (werr, f')" "publishIPv6 ?E n (fromNode n) k a = (err, a')" "aerr = None \<Longrightarrow> err = None"
    using own_node_steps(2) [OF assms] n by auto
  show "werr = None \<Longrightarrow> rn_PodCIDRs (fromNode n) \<noteq> [] \<Longrightarrow>
      \<exists>d. conflist_data ?E (fromNode n) k = Inr d \<and> content f' (cc_Path cfg) = Some d"
    using fsys.writeConflist_outcome(2) [OF s(1)] by fastforce
  show "aerr = None \<Longrightarrow> obj a me = Some n \<Longrightarrow>
      \<exists>want. wanted_ipv6 ?E (fromNode n) k = Inr want \<and> obj a' me = Some (annotated want n)"
    using store.publishIPv6_outcome(2) [OF s(2)] s(3) find_SomeD [OF n] by simp
qed

lemma cluster_cidrs: "list_all (\<lambda>c. wf_prefix c \<and> Prefix_IsValid c) (concat (map rn_PodCIDRs (map fromNode items)))"
  using fromNode_cidrs by (auto simp: list_all_iff)

lemma Reconcile_exact:
  assumes "Routes_Reconcile (node_env H fw me cfg) m = (Inr delay, m')" "nh_List H (m_api m) = Inr items" "routable items"
  shows "delay = Resync \<and>
    tbl (m_kernel m') p =
      (case find (\<lambda>r. rt_Dst r = p) (fst (Compute me (map fromNode items))) of
         Some r \<Rightarrow> Some (Protocol, Some (rt_Via r))
       | None \<Rightarrow> unmarked (tbl (m_kernel m) p)) \<and>
    set (own (m_ipt m') (bin4 fw)) =
      (\<Union>c \<in> {c. \<exists>n \<in> set items. c \<in> set (rn_PodCIDRs (fromNode n)) \<and> Is4 (Prefix_Addr c)}. accepts (Masked c)) \<and>
    set (own (m_ipt m') (bin6 fw)) =
      (\<Union>c \<in> {c. \<exists>n \<in> set items. c \<in> set (rn_PodCIDRs (fromNode n)) \<and> Is6 (Prefix_Addr c)}. accepts (Masked c)) \<and>
    jump_rule \<in> set (fwd (m_ipt m') (bin4 fw)) \<and> jump_rule \<in> set (fwd (m_ipt m') (bin6 fw)) \<and>
    (\<forall>n. find (\<lambda>n. kn_Name n = me) items = Some n \<longrightarrow>
      (rn_PodCIDRs (fromNode n) \<noteq> [] \<longrightarrow>
         (\<exists>d. conflist_data (node_env H fw me cfg) (fromNode n) (m_kernel m') = Inr d \<and>
              content (m_files m') (cc_Path cfg) = Some d)) \<and>
      (obj (m_api m) me = Some n \<longrightarrow>
         (\<exists>want. wanted_ipv6 (node_env H fw me cfg) (fromNode n) (m_kernel m') = Inr want \<and>
                 obj (m_api m') me = Some (annotated want n))))"
proof -
  let ?E = "node_env H fw me cfg"
  obtain ins errs ferr werr aerr where
    k: "kernel_Apply (nh_Netlink H) (fst (Compute me (map fromNode items))) (m_kernel m) = (ins, errs, m_kernel m')" and
    i: "Forward_Apply (nh_Run H) fw (concat (map rn_PodCIDRs (map fromNode items))) (m_ipt m) = (ferr, m_ipt m')" and
    o: "own_node ?E items (m_kernel m') (m_files m) (m_api m) = (werr, aerr, m_files m', m_api m')" and
    r: "Inr delay = (case errors_Join [errors_Join (map Some errs), ferr, werr, aerr] of None \<Rightarrow> Inr Resync | Some e \<Rightarrow> Inl e)"
    using Routes_Reconcile_steps [OF assms(1,2)] by metis
  have none: "errors_Join [errors_Join (map Some errs), ferr, werr, aerr] = None" "delay = Resync"
    using r by (auto simp del: errors_Join_None split: option.splits)
  then have ok: "errs = []" "ferr = None" "werr = None" "aerr = None" by (cases errs; simp)+
  have cidrs: "{c \<in> set (concat (map rn_PodCIDRs (map fromNode items))). P c} =
      {c. \<exists>n \<in> set items. c \<in> set (rn_PodCIDRs (fromNode n)) \<and> P c}" for P by auto
  have N: "\<forall>n. find (\<lambda>n. kn_Name n = me) items = Some n \<longrightarrow>
      (rn_PodCIDRs (fromNode n) \<noteq> [] \<longrightarrow>
         (\<exists>d. conflist_data ?E (fromNode n) (m_kernel m') = Inr d \<and> content (m_files m') (cc_Path cfg) = Some d)) \<and>
      (obj (m_api m) me = Some n \<longrightarrow>
         (\<exists>want. wanted_ipv6 ?E (fromNode n) (m_kernel m') = Inr want \<and> obj (m_api m') me = Some (annotated want n)))"
    using own_node_outcome(3,4) [OF o] ok(3,4) by simp
  show ?thesis
    using none(2) rt.kernel_Apply_table [OF k [unfolded ok] routable_Compute [OF assms(3)]]
      ft.Forward_Apply_chains [OF i [unfolded ok] cluster_cidrs, unfolded cidrs] N
    by (elim conjE, intro conjI) assumption+
qed

lemma Reconcile_safe:
  assumes "Routes_Reconcile (node_env H fw me cfg) m = (r, m')" "nh_List H (m_api m) = Inr items"
  shows "routable items \<Longrightarrow> (\<forall>v \<in> set (fst (Compute me (map fromNode items))).
      tbl (m_kernel m') (rt_Dst v) = Some (Protocol, Some (rt_Via v)) \<or> tbl (m_kernel m') (rt_Dst v) = tbl (m_kernel m) (rt_Dst v) \<and> isl r)"
    "routable items \<Longrightarrow> \<forall>p. p \<notin> rt_Dst ` set (fst (Compute me (map fromNode items))) \<longrightarrow> unmarked (tbl (m_kernel m) p) = tbl (m_kernel m) p \<longrightarrow>
      tbl (m_kernel m') p = tbl (m_kernel m) p"
    "\<forall>b. fwd (m_ipt m') b = fwd (m_ipt m) b \<or> jump_rule \<notin> set (fwd (m_ipt m) b) \<and> fwd (m_ipt m') b = jump_rule # fwd (m_ipt m) b"
    "content (m_files m') (cc_Path cfg) = content (m_files m) (cc_Path cfg) \<or>
      (\<exists>n d. find (\<lambda>n. kn_Name n = me) items = Some n \<and>
         conflist_data (node_env H fw me cfg) (fromNode n) (m_kernel m') = Inr d \<and> content (m_files m') (cc_Path cfg) = Some d)"
    "obj (m_api m') = obj (m_api m) \<or>
      (\<exists>want cur. obj (m_api m) me = Some cur \<and> obj (m_api m') = (obj (m_api m))(me \<mapsto> annotated want cur))"
proof -
  obtain ins errs ferr werr aerr where
    k: "kernel_Apply (nh_Netlink H) (fst (Compute me (map fromNode items))) (m_kernel m) = (ins, errs, m_kernel m')" and
    i: "Forward_Apply (nh_Run H) fw (concat (map rn_PodCIDRs (map fromNode items))) (m_ipt m) = (ferr, m_ipt m')" and
    o: "own_node (node_env H fw me cfg) items (m_kernel m') (m_files m) (m_api m) = (werr, aerr, m_files m', m_api m')" and
    r: "r = (case errors_Join [errors_Join (map Some errs), ferr, werr, aerr] of None \<Rightarrow> Inr Resync | Some e \<Rightarrow> Inl e)"
    using Routes_Reconcile_steps [OF assms(1,2)] by metis
  have "isl r" if "errs \<noteq> []"
    using that r by (cases errs) (auto simp: errors_Join_def)
  moreover have "errs \<noteq> []" if "install_failed v errs \<or> list_failed errs" for v using that by (auto simp: list_failed_def)
  ultimately show "\<forall>v \<in> set (fst (Compute me (map fromNode items))).
      tbl (m_kernel m') (rt_Dst v) = Some (Protocol, Some (rt_Via v)) \<or> tbl (m_kernel m') (rt_Dst v) = tbl (m_kernel m) (rt_Dst v) \<and> isl r"
    if "routable items"
    using rt.kernel_Apply_tbl [OF k routable_Compute [OF that]] unfolding want_entry_def by blast
  show "\<forall>p. p \<notin> rt_Dst ` set (fst (Compute me (map fromNode items))) \<longrightarrow> unmarked (tbl (m_kernel m) p) = tbl (m_kernel m) p \<longrightarrow>
      tbl (m_kernel m') p = tbl (m_kernel m) p"
    if "routable items"
    using rt.kernel_Apply_tbl [OF k routable_Compute [OF that]] by (auto simp: unmarked_def split: option.splits if_splits)
  show "\<forall>b. fwd (m_ipt m') b = fwd (m_ipt m) b \<or> jump_rule \<notin> set (fwd (m_ipt m) b) \<and> fwd (m_ipt m') b = jump_rule # fwd (m_ipt m) b"
    using ft.Forward_Apply_outcome [OF i cluster_cidrs] by blast
qed (use own_node_outcome(1,2) assms Routes_Reconcile_steps in \<open>metis+\<close>)

end

section \<open>Publishing and reading an address\<close>

lemma pickGlobalIPv6_usable:
  assumes "pickGlobalIPv6 as = Some g"
  shows "Is6 g" "\<not> Is4In6 g" "plain_addr g"
proof -
  obtain x where "usable_ip x = Some g"
    using assms fold_lower [of as]
    by (auto simp: pickGlobalIPv6_def lower_def [abs_def] Let_def Addr_IsValid_def split: if_splits)
  then show "Is6 g" "\<not> Is4In6 g" "plain_addr g"
    by (auto simp: usable_ip_def AddrFromSlice_def plain_addr_def Let_def split: option.splits if_splits)
qed

lemma GlobalIPv6_usable:
  assumes "GlobalIPv6 k on = Inr (Some g)"
  shows "Is6 g" "\<not> Is4In6 g" "plain_addr g"
proof -
  obtain as where "pickGlobalIPv6 as = Some g"
    using assms by (auto simp: GlobalIPv6_def bind_err_Inr split: option.splits)
  then show "Is6 g" "\<not> Is4In6 g" "plain_addr g" using pickGlobalIPv6_usable by blast+
qed

lemma annotated_read:
  assumes "Is6 g" "\<not> Is4In6 g" "plain_addr g" "IsGlobalUnicast g"
  shows "fromNode (annotated (Addr_String g) n) = (fromNode n)\<lparr>rn_AnnotatedIPv6 := g\<rparr>"
  using assms ParseAddr_Addr_String6 [OF assms(1-3)]
  by (simp add: annotated_def fromNode_def annotated_ipv6_def Addr_String_not_Nil)

lemma route_through_annotation:
  assumes "fromNode n \<in> set nodes" "kn_Name n \<noteq> me" "c \<in> set (rn_PodCIDRs (fromNode n))" "Is6 (Prefix_Addr c)"
    and "\<not> list_ex Is6 (rn_InternalIPs (fromNode n))" "Is6 (rn_AnnotatedIPv6 (fromNode n))"
  shows "\<lparr>rt_Node = kn_Name n, rt_Dst = Masked c, rt_Via = rn_AnnotatedIPv6 (fromNode n)\<rparr> \<in> set (fst (Compute me nodes))"
proof -
  have "find (\<lambda>a. Is6 a = Is6 (Prefix_Addr c)) (rn_InternalIPs (fromNode n)) = None"
    using assms(4,5) by (auto simp: find_None_iff list_ex_iff)
  moreover have "rn_Name (fromNode n) = kn_Name n" by (simp add: fromNode_def)
  ultimately show ?thesis
    using assms unfolding set_Compute mem_Collect_eq peer_routes_iff by (force simp: cidr_route_Inr)
qed

section \<open>A host\<close>

text \<open>
  A node to interpret the locale on: the kernel, the iptables tables and the files of the
  components' own hosts, and an API server whose state is the list of its Node objects, which
  refuses to patch an object it does not have or has frozen.
\<close>

definition host_patch :: "(string \<Rightarrow> bool) \<Rightarrow> k8s_node \<Rightarrow> k8s_node \<Rightarrow> k8s_node list \<Rightarrow> go_error option \<times> k8s_node list" where
  "host_patch frozen old new ns =
     (if frozen (kn_Name old) \<or> kn_Name old \<notin> kn_Name ` set ns then (Some (''nodes '' @ kn_Name old @ '': not patched''), ns)
      else (None, map (\<lambda>n. if kn_Name n = kn_Name old
              then n\<lparr>kn_Annotations := merged (kn_Annotations old) (kn_Annotations new) (kn_Annotations n)\<rparr> else n) ns))"

definition host_obj :: "k8s_node list \<Rightarrow> string \<Rightarrow> k8s_node option" where
  "host_obj ns name = find (\<lambda>n. kn_Name n = name) ns"

lemma find_map_same:
  "(\<And>n. kn_Name (f n) = kn_Name n) \<Longrightarrow> find (\<lambda>n. kn_Name n = name) (map f ns) = map_option f (find (\<lambda>n. kn_Name n = name) ns)"
  by (induction ns) auto

interpretation nodes: node_store "host_patch frozen" host_obj
proof
  fix old ann a a'
  assume p: "host_patch frozen old (old\<lparr>kn_Annotations := ann\<rparr>) a = (None, a')"
  let ?f = "\<lambda>n. if kn_Name n = kn_Name old then n\<lparr>kn_Annotations := merged (kn_Annotations old) ann (kn_Annotations n)\<rparr> else n"
  have a': "a' = map ?f a" and "kn_Name old \<in> kn_Name ` set a" using p by (auto simp: host_patch_def split: if_splits)
  then obtain n where n: "host_obj a (kn_Name old) = Some n"
    by (cases "host_obj a (kn_Name old)") (auto simp: host_obj_def find_None_iff)
  have "host_obj a' name = map_option ?f (host_obj a name)" for name
    unfolding a' host_obj_def by (rule find_map_same) simp
  moreover have "kn_Name v = name" if "host_obj a name = Some v" for name v
    using find_SomeD [OF that [unfolded host_obj_def]] by simp
  ultimately have "host_obj a' = (host_obj a)(kn_Name old \<mapsto> n\<lparr>kn_Annotations := merged (kn_Annotations old) ann (kn_Annotations n)\<rparr>)"
    using n by (intro ext) (auto simp: map_option_case split: option.splits)
  then show "\<exists>n. host_obj a (kn_Name old) = Some n \<and>
      host_obj a' = (host_obj a)(kn_Name old \<mapsto> n\<lparr>kn_Annotations := merged (kn_Annotations old) ann (kn_Annotations n)\<rparr>)"
    using n by blast
qed (auto simp: host_patch_def split: if_splits)

definition host_machine ::
  "(bytes \<Rightarrow> bool) \<Rightarrow> 'l nl_links \<Rightarrow> (go_error + iface list) \<Rightarrow> (string \<Rightarrow> bool) \<Rightarrow> (string \<Rightarrow> bool) \<Rightarrow> (string \<Rightarrow> bool) \<Rightarrow>
    (nl_route list, 'l, ipt_state, (string \<times> string) list, k8s_node list) node_host" where
  "host_machine onlink links ifaces locked readonly frozen =
     \<lparr>nh_Netlink = host_netlink onlink, nh_Links = (\<lambda>_. links), nh_Interfaces = (\<lambda>_. ifaces),
      nh_Run = host_ipt (\<lambda>_. True) (\<lambda>_. []) locked, nh_Files = disk readonly, nh_List = Inr, nh_Patch = host_patch frozen\<rparr>"

interpretation machine: routes_node "host_machine onlink links ifaces locked readonly frozen"
  "\<lambda>w p. map_option nl_entry (counting w p)" st_own st_fwd map_of host_obj
  unfolding routes_node_def host_machine_def
  by (simp add: netlink.routing_table_axioms ipt.filter_tables_axioms disk.file_system_axioms nodes.node_store_axioms)

text \<open>Two nodes: this one has an IPv4 InternalIP only, on an interface with a global IPv6 address.\<close>

definition ex_items :: "k8s_node list" where
  "ex_items =
     [\<lparr>kn_Name = ''n1'', kn_Labels = Map.empty, kn_Annotations = Map.empty, kn_PodCIDRs = [''10.0.0.0/24'', ''2001:db8:1::/64''],
       kn_Addresses = [\<lparr>nad_Type = ''InternalIP'', nad_Address = ''192.0.2.1''\<rparr>]\<rparr>,
      \<lparr>kn_Name = ''n2'', kn_Labels = Map.empty, kn_Annotations = Map.empty, kn_PodCIDRs = [''10.0.1.0/24''],
       kn_Addresses = [\<lparr>nad_Type = ''InternalIP'', nad_Address = ''192.0.2.2''\<rparr>]\<rparr>]"

definition ex_global :: addr where "ex_global = Addr6 0x20010DB8000000000000000000000001 []"

definition ex_links :: "nat nl_links" where
  "ex_links =
     \<lparr>AddrListV4 = Inr [\<lparr>na_IP = AsSlice (Addr4 0xC0000201), na_Scope = 0, na_Flags = 0, na_LinkIndex = 2\<rparr>],
      LinkByIndex = Inr,
      AddrListV6 = (\<lambda>l. Inr [\<lparr>na_IP = AsSlice ex_global, na_Scope = 0, na_Flags = 0, na_LinkIndex = l\<rparr>])\<rparr>"

definition ex_cfg :: conflist_cfg where
  "ex_cfg = \<lparr>cc_Path = ''/etc/c'', cc_Name = ''cnidaria'', cc_Bridge = ''cni0'', cc_MTU = 1450\<rparr>"

definition ex_machine :: "(nl_route list, ipt_state, (string \<times> string) list, k8s_node list) machine" where
  "ex_machine = \<lparr>m_kernel = [], m_ipt = ex_ipt, m_files = [], m_api = ex_items\<rparr>"

definition ex_node_host :: "(nl_route list, nat, ipt_state, (string \<times> string) list, k8s_node list) node_host" where
  "ex_node_host = host_machine (\<lambda>_. True) ex_links (Inr []) (\<lambda>_. False) (\<lambda>_. False) (\<lambda>_. False)"

lemma ex_parsed:
  "ParsePrefix ''10.0.0.0/24'' = Inr (Prefix (Addr4 0x0A000000) 24)"
  "ParsePrefix ''10.0.1.0/24'' = Inr (Prefix (Addr4 0x0A000100) 24)"
  "ParseAddr ''192.0.2.1'' = Inr (Addr4 0xC0000201)"
  "ParseAddr ''192.0.2.2'' = Inr (Addr4 0xC0000202)"
  by (simp_all add: ParsePrefix_eval)

lemma replicate_five: "replicate 5 x = [x, x, x, x, x]"
  by (simp add: eval_nat_numeral)

lemmas ipv6_loop_numeral = ipv6_loop.simps(2) [of _ "pred_numeral v" for v, folded numeral_eq_Suc]

lemma ex_parsed6: "ParsePrefix ''2001:db8:1::/64'' = Inr (Prefix (Addr6 0x20010DB8000100000000000000000000 []) 64)"
  by (simp add: ParsePrefix_eval parseIPv6_def ipv6_loop_numeral hex_val_def replicate_five)

lemma ex_fromNode:
  "map fromNode ex_items =
     [\<lparr>rn_Name = ''n1'', rn_PodCIDRs = [Prefix (Addr4 0x0A000000) 24, Prefix (Addr6 0x20010DB8000100000000000000000000 []) 64],
       rn_InternalIPs = [Addr4 0xC0000201], rn_AnnotatedIPv6 = AddrZero\<rparr>,
      \<lparr>rn_Name = ''n2'', rn_PodCIDRs = [Prefix (Addr4 0x0A000100) 24], rn_InternalIPs = [Addr4 0xC0000202], rn_AnnotatedIPv6 = AddrZero\<rparr>]"
  by (simp add: ex_items_def fromNode_def parsed_def NodeInternalIP_def annotated_ipv6_def ex_parsed ex_parsed6)

lemma ex_host_sel:
  "nh_Netlink ex_node_host = host_netlink (\<lambda>_. True)" "nh_Links ex_node_host = (\<lambda>_. ex_links)"
  "nh_Run ex_node_host = host_ipt (\<lambda>_. True) (\<lambda>_. []) (\<lambda>_. False)" "nh_Files ex_node_host = disk (\<lambda>_. False)"
  "nh_List ex_node_host = Inr" "nh_Patch ex_node_host = host_patch (\<lambda>_. False)"
  by (simp_all add: ex_node_host_def host_machine_def)

lemma ex_routable: "routable ex_items"
  unfolding routable_def ex_fromNode by (simp add: Masked_def PrefixFrom_def Prefix_IsValid_def plain_addr_def)

lemma ex_compute: "fst (Compute ''n1'' (map fromNode ex_items)) = [ex_route]"
  unfolding ex_fromNode
  by (simp add: Compute_def peer_routes_def cidr_route_def nextHop_def firstOfFamily_def ex_route_def Masked_def PrefixFrom_def Prefix_IsValid_def)

lemma ex_kernel: "kernel_Apply (host_netlink (\<lambda>_. True)) [ex_route] [] = ([ex_route], [], [toNetlink ex_route])"
  by (simp add: kernel_Apply_def host_netlink_def held_routes_def)

lemma ex_wanted:
  "find (\<lambda>n. kn_Name n = ''n1'') ex_items = Some (hd ex_items)"
  "GlobalIPv6 ex_links (Addr4 0xC0000201) = Inr (Some ex_global)"
  "wanted_ipv6 (node_env ex_node_host ex_forward ''n1'' ex_cfg) (hd (map fromNode ex_items)) k = Inr (Addr_String ex_global)"
proof -
  show "find (\<lambda>n. kn_Name n = ''n1'') ex_items = Some (hd ex_items)" by (simp add: ex_items_def)
  have a: "AddrFromSlice (AsSlice (Addr4 0xC0000201)) = Some (Addr4 0xC0000201)" "AddrFromSlice (AsSlice ex_global) = Some ex_global"
    by (rule AddrFromSlice_AsSlice, simp add: plain_addr_def ex_global_def)+
  show g: "GlobalIPv6 ex_links (Addr4 0xC0000201) = Inr (Some ex_global)"
    by (simp add: GlobalIPv6_def ex_links_def a pickGlobalIPv6_def usable_ip_def RT_SCOPE_UNIVERSE_def Addr_IsValid_def Let_def
        del: AsSlice.simps) (simp add: ex_global_def)
  show "wanted_ipv6 (node_env ex_node_host ex_forward ''n1'' ex_cfg) (hd (map fromNode ex_items)) k = Inr (Addr_String ex_global)"
    unfolding ex_fromNode by (simp add: wanted_ipv6_def ex_host_sel g)
qed

lemma ex_published:
  "publishIPv6 (node_env ex_node_host ex_forward ''n1'' ex_cfg) (hd ex_items) (fromNode (hd ex_items)) k ex_items =
     (None, snd (host_patch (\<lambda>_. False) (hd ex_items) (annotated (Addr_String ex_global) (hd ex_items)) ex_items))"
proof -
  have hd: "fromNode (hd ex_items) = hd (map fromNode ex_items)" by (simp add: ex_items_def)
  have "kn_Annotations (hd ex_items) NodeIPv6Annotation = None" "kn_Name (hd ex_items) \<in> kn_Name ` set ex_items"
    by (simp_all add: ex_items_def)
  then show ?thesis
    unfolding hd by (simp add: publishIPv6_def ex_wanted(3) Addr_String_not_Nil [THEN not_sym] ex_host_sel host_patch_def)
qed

lemma ex_written: "\<exists>f'. writeConflist (node_env ex_node_host ex_forward ''n1'' ex_cfg) (hd (map fromNode ex_items)) k [] = (None, f')"
  unfolding ex_fromNode
  by (simp add: writeConflist_def conflist_data_def conflist_mtu_def ex_cfg_def conflist_Render_def Prefix_IsValid_def ex_host_sel
      conflist_WriteFile_def disk_def fill_def path_Base_def path_Dir_def Clean_def HasPrefix_def Let_def fresh_name_def errors_Join_def)

lemma ex_routes_run: "\<exists>m'. Routes_Reconcile (node_env ex_node_host ex_forward ''n1'' ex_cfg) ex_machine = (Inr Resync, m')"
proof -
  let ?E = "node_env ex_node_host ex_forward ''n1'' ex_cfg"
  obtain i' where i: "Forward_Apply (host_ipt (\<lambda>_. True) (\<lambda>_. []) (\<lambda>_. False)) ex_forward
      (concat (map rn_PodCIDRs (map fromNode ex_items))) ex_ipt = (None, i')"
    unfolding ex_fromNode by (simp add: Forward_Apply_eval)
  have hd: "fromNode (hd ex_items) = hd (map fromNode ex_items)" by (simp add: ex_items_def)
  let ?k = "[toNetlink ex_route]"
  obtain f' where f: "writeConflist ?E (fromNode (hd ex_items)) ?k [] = (None, f')"
    using ex_written [of ?k] unfolding hd by blast
  have o: "\<exists>a'. own_node ?E ex_items ?k [] ex_items = (None, None, f', a')"
    by (simp add: own_node_def ex_wanted(1) f ex_published)
  have k: "rr_Apply ?E [ex_route] [] = ([ex_route], None, ?k)" by (simp add: node_env_def ex_host_sel ex_kernel errors_Join_def)
  show ?thesis
    using o i by (auto simp: Routes_Reconcile_def ex_machine_def ex_host_sel ex_compute k errors_Join_def simp del: map_map)
qed

section \<open>Properties\<close>

text \<open>
  C5: a reconcile that returns no error has brought all four in step with the Node objects it
  read, and asks to be run again after \<open>Resync\<close>: of cnidaria's routes the kernel holds exactly
  those \<open>Compute\<close> asks for and keeps every other; the forward chain of each family accepts exactly
  the cluster's pod CIDRs of that family and is jumped to; this node's conflist is the one rendered
  for its CIDRs; and its Node object says the IPv6 address that is wanted and is otherwise as it was.
\<close>

theorem routes_reconcile_exact:
  assumes "routes_node H tbl own fwd content obj" and "Routes_Reconcile (node_env H fw me cfg) m = (Inr delay, m')"
    and "nh_List H (m_api m) = Inr items" and "routable items"
  shows "delay = Resync \<and>
    tbl (m_kernel m') p =
      (case find (\<lambda>r. rt_Dst r = p) (fst (Compute me (map fromNode items))) of
         Some r \<Rightarrow> Some (Protocol, Some (rt_Via r))
       | None \<Rightarrow> unmarked (tbl (m_kernel m) p)) \<and>
    set (own (m_ipt m') (bin4 fw)) =
      (\<Union>c \<in> {c. \<exists>n \<in> set items. c \<in> set (rn_PodCIDRs (fromNode n)) \<and> Is4 (Prefix_Addr c)}. accepts (Masked c)) \<and>
    set (own (m_ipt m') (bin6 fw)) =
      (\<Union>c \<in> {c. \<exists>n \<in> set items. c \<in> set (rn_PodCIDRs (fromNode n)) \<and> Is6 (Prefix_Addr c)}. accepts (Masked c)) \<and>
    jump_rule \<in> set (fwd (m_ipt m') (bin4 fw)) \<and> jump_rule \<in> set (fwd (m_ipt m') (bin6 fw)) \<and>
    (\<forall>n. find (\<lambda>n. kn_Name n = me) items = Some n \<longrightarrow>
      (rn_PodCIDRs (fromNode n) \<noteq> [] \<longrightarrow>
         (\<exists>d. conflist_data (node_env H fw me cfg) (fromNode n) (m_kernel m') = Inr d \<and>
              content (m_files m') (cc_Path cfg) = Some d)) \<and>
      (obj (m_api m) me = Some n \<longrightarrow>
         (\<exists>want. wanted_ipv6 (node_env H fw me cfg) (fromNode n) (m_kernel m') = Inr want \<and>
                 obj (m_api m') me = Some (annotated want n))))"
  by (rule routes_node.Reconcile_exact [OF assms])

theorem routes_reconcile_exact_witness:
  "\<exists>m'. Routes_Reconcile (node_env ex_node_host ex_forward ''n1'' ex_cfg) ex_machine = (Inr Resync, m') \<and>
     map_option nl_entry (counting (m_kernel m') (rt_Dst ex_route)) = Some (Protocol, Some (rt_Via ex_route)) \<and>
     (\<exists>d. map_of (m_files m') ''/etc/c'' = Some d) \<and>
     host_obj (m_api m') ''n1'' = Some (annotated (Addr_String ex_global) (hd ex_items))"
proof -
  obtain m' where run: "Routes_Reconcile (node_env ex_node_host ex_forward ''n1'' ex_cfg) ex_machine = (Inr Resync, m')"
    using ex_routes_run by blast
  have l: "nh_List ex_node_host (m_api ex_machine) = Inr ex_items" by (simp add: ex_host_sel ex_machine_def)
  have hd: "fromNode (hd ex_items) = hd (map fromNode ex_items)" by (simp add: ex_items_def)
  have "rn_PodCIDRs (fromNode (hd ex_items)) \<noteq> []" unfolding hd ex_fromNode by simp
  moreover have "host_obj (m_api ex_machine) ''n1'' = Some (hd ex_items)" by (simp add: ex_machine_def host_obj_def ex_wanted(1))
  moreover have "cc_Path ex_cfg = ''/etc/c''" by (simp add: ex_cfg_def)
  moreover note routes_reconcile_exact [OF machine.routes_node_axioms [of "\<lambda>_. True" ex_links "Inr []" "\<lambda>_. False" "\<lambda>_. False" "\<lambda>_. False",
        folded ex_node_host_def] run l ex_routable, of "rt_Dst ex_route", unfolded ex_compute]
  ultimately show ?thesis using run ex_wanted(1) ex_wanted(3) [of "m_kernel m'", folded hd] by auto
qed

text \<open>
  C10: how much a reconcile can change, whatever fails in it. A listing that fails changes nothing.
  Otherwise, for nodes whose addresses netlink can carry (\<open>routable\<close>), each wanted route is in the kernel, in
  the place of what was at its destination, or the kernel is as it was there and an error is returned, and a route
  without the marker at a destination that is not wanted stays; the FORWARD chains at most gain the jump where they had
  none, the conflist is the old one or the whole new one, and no Node object changes but this node's, and of
  it nothing but the IPv6 annotation.
\<close>

theorem routes_reconcile_safe:
  assumes "routes_node H tbl own fwd content obj" and "Routes_Reconcile (node_env H fw me cfg) m = (r, m')"
  shows "case nh_List H (m_api m) of
      Inl e \<Rightarrow> r = Inl (''list nodes: '' @ e) \<and> m' = m
    | Inr items \<Rightarrow>
       (routable items \<longrightarrow> (\<forall>v \<in> set (fst (Compute me (map fromNode items))).
          tbl (m_kernel m') (rt_Dst v) = Some (Protocol, Some (rt_Via v)) \<or>
          tbl (m_kernel m') (rt_Dst v) = tbl (m_kernel m) (rt_Dst v) \<and> isl r)) \<and>
       (routable items \<longrightarrow> (\<forall>p. p \<notin> rt_Dst ` set (fst (Compute me (map fromNode items))) \<longrightarrow> unmarked (tbl (m_kernel m) p) = tbl (m_kernel m) p \<longrightarrow>
          tbl (m_kernel m') p = tbl (m_kernel m) p)) \<and>
       (\<forall>b. fwd (m_ipt m') b = fwd (m_ipt m) b \<or> jump_rule \<notin> set (fwd (m_ipt m) b) \<and> fwd (m_ipt m') b = jump_rule # fwd (m_ipt m) b) \<and>
       (content (m_files m') (cc_Path cfg) = content (m_files m) (cc_Path cfg) \<or>
          (\<exists>n d. find (\<lambda>n. kn_Name n = me) items = Some n \<and>
             conflist_data (node_env H fw me cfg) (fromNode n) (m_kernel m') = Inr d \<and> content (m_files m') (cc_Path cfg) = Some d)) \<and>
       (obj (m_api m') = obj (m_api m) \<or>
          (\<exists>want cur. obj (m_api m) me = Some cur \<and> obj (m_api m') = (obj (m_api m))(me \<mapsto> annotated want cur)))"
proof (cases "nh_List H (m_api m)")
  case (Inl e)
  then show ?thesis using assms(2) by (simp add: Routes_Reconcile_def)
next
  case (Inr items)
  show ?thesis unfolding Inr sum.case
    using routes_node.Reconcile_safe [OF assms Inr] by (intro conjI impI) auto
qed

text \<open>A node whose kernel takes no route: the wanted one is not there, and an error says so.\<close>

theorem routes_reconcile_safe_witness:
  "\<exists>r m'. Routes_Reconcile (node_env (ex_node_host\<lparr>nh_Netlink := host_netlink (\<lambda>_. False)\<rparr>) ex_forward ''n1'' ex_cfg) ex_machine = (r, m') \<and>
     (map_option nl_entry (counting (m_kernel m') (rt_Dst ex_route)) = Some (Protocol, Some (rt_Via ex_route)) \<or>
      map_option nl_entry (counting (m_kernel m') (rt_Dst ex_route)) = None \<and> isl r)"
proof -
  let ?H = "ex_node_host\<lparr>nh_Netlink := host_netlink (\<lambda>_. False)\<rparr>"
  have H: "?H = host_machine (\<lambda>_. False) ex_links (Inr []) (\<lambda>_. False) (\<lambda>_. False) (\<lambda>_. False)"
    by (simp add: ex_node_host_def host_machine_def)
  obtain r m' where run: "Routes_Reconcile (node_env ?H ex_forward ''n1'' ex_cfg) ex_machine = (r, m')" by (metis surj_pair)
  have l: "nh_List ?H (m_api ex_machine) = Inr ex_items" by (simp add: ex_host_sel ex_machine_def)
  have "counting (m_kernel ex_machine) (rt_Dst ex_route) = None" by (simp add: ex_machine_def counting_def)
  then show ?thesis
    using run routes_reconcile_safe [OF machine.routes_node_axioms [of "\<lambda>_. False" ex_links "Inr []" "\<lambda>_. False" "\<lambda>_. False" "\<lambda>_. False",
        folded H] run, unfolded l sum.case ex_compute] ex_routable by auto
qed

text \<open>
  C11: the address a node publishes is the one its peers route through. Where a node has no
  IPv6 InternalIP and the interface of its IPv4 one has a global address, then after \<open>publishIPv6\<close>
  its Node object is read as having that address; every other node routes each of its IPv6 pod
  CIDRs through it; and publishing again patches nothing.
\<close>

theorem annotation_roundtrip:
  assumes "node_store (nh_Patch H) obj" and "E = node_env H fw me cfg"
    and "publishIPv6 E n (fromNode n) k a = (None, a')" and "obj a (kn_Name n) = Some n"
    and "\<not> list_ex Is6 (rn_InternalIPs (fromNode n))" and "find Is4 (rn_InternalIPs (fromNode n)) = Some on"
    and "GlobalIPv6 (nh_Links H k) on = Inr (Some g)" and "IsGlobalUnicast g"
  shows "\<exists>n'. obj a' (kn_Name n) = Some n' \<and> fromNode n' = (fromNode n)\<lparr>rn_AnnotatedIPv6 := g\<rparr> \<and>
    (\<forall>peer items c. peer \<noteq> kn_Name n \<and> n' \<in> set items \<and> c \<in> set (rn_PodCIDRs (fromNode n)) \<and> Is6 (Prefix_Addr c) \<longrightarrow>
       \<lparr>rt_Node = kn_Name n, rt_Dst = Masked c, rt_Via = g\<rparr> \<in> set (fst (Compute peer (map fromNode items)))) \<and>
    publishIPv6 E n' (fromNode n') k a' = (None, a')"
proof -
  note g = GlobalIPv6_usable [OF assms(7)]
  let ?n = "annotated (Addr_String g) n"
  have w: "wanted_ipv6 E (fromNode n) k = Inr (Addr_String g)" using assms(2,5-7) by (simp add: wanted_ipv6_def)
  have P: "rr_Patch E = nh_Patch H" using assms(2) by simp
  have o: "obj a' (kn_Name n) = Some ?n"
    using node_store.publishIPv6_outcome(2) [OF assms(1,3) P refl assms(4)] w by simp
  have read: "fromNode ?n = (fromNode n)\<lparr>rn_AnnotatedIPv6 := g\<rparr>" using annotated_read [OF g assms(8)] .
  have name: "kn_Name ?n = kn_Name n" by (simp add: annotated_def)
  have "\<lparr>rt_Node = kn_Name n, rt_Dst = Masked c, rt_Via = g\<rparr> \<in> set (fst (Compute peer (map fromNode items)))"
    if "peer \<noteq> kn_Name n" "?n \<in> set items" "c \<in> set (rn_PodCIDRs (fromNode n))" "Is6 (Prefix_Addr c)" for peer items c
    using route_through_annotation [of ?n "map fromNode items" peer c] that read name assms(5) g by force
  moreover have "publishIPv6 E ?n (fromNode ?n) k a' = (None, a')"
  proof -
    have "wanted_ipv6 E (fromNode ?n) k = Inr (Addr_String g)" using assms(2,5-7) read by (simp add: wanted_ipv6_def)
    then show ?thesis by (simp add: publishIPv6_def annotated_def Addr_String_not_Nil)
  qed
  ultimately show ?thesis using o read by blast
qed

theorem annotation_roundtrip_witness:
  "\<exists>a' n'. host_obj a' ''n1'' = Some n' \<and> fromNode n' = (fromNode (hd ex_items))\<lparr>rn_AnnotatedIPv6 := ex_global\<rparr> \<and>
     \<lparr>rt_Node = ''n1'', rt_Dst = Prefix (Addr6 0x20010DB8000100000000000000000000 []) 64, rt_Via = ex_global\<rparr>
       \<in> set (fst (Compute ''n2'' (map fromNode [n'])))"
proof -
  let ?E = "node_env ex_node_host ex_forward ''n1'' ex_cfg" and ?c = "Prefix (Addr6 0x20010DB8000100000000000000000000 []) 64"
  have hd: "fromNode (hd ex_items) = hd (map fromNode ex_items)" by (simp add: ex_items_def)
  have n: "kn_Name (hd ex_items) = ''n1''" "host_obj ex_items (kn_Name (hd ex_items)) = Some (hd ex_items)"
    using ex_wanted(1) by (simp_all add: ex_items_def host_obj_def)
  have ips: "\<not> list_ex Is6 (rn_InternalIPs (fromNode (hd ex_items)))" "find Is4 (rn_InternalIPs (fromNode (hd ex_items))) = Some (Addr4 0xC0000201)"
    "?c \<in> set (rn_PodCIDRs (fromNode (hd ex_items)))"
    unfolding hd ex_fromNode by simp_all
  have g: "IsGlobalUnicast ex_global" by (simp add: IsGlobalUnicast_def ex_global_def)
  have st: "node_store (nh_Patch ex_node_host) host_obj" unfolding ex_host_sel by (rule nodes.node_store_axioms)
  have gl: "GlobalIPv6 (nh_Links ex_node_host k) (Addr4 0xC0000201) = Inr (Some ex_global)" for k using ex_wanted(2) by (simp add: ex_host_sel)
  let ?a = "snd (host_patch (\<lambda>_. False) (hd ex_items) (annotated (Addr_String ex_global) (hd ex_items)) ex_items)"
  obtain n' where n': "host_obj ?a ''n1'' = Some n'" "fromNode n' = (fromNode (hd ex_items))\<lparr>rn_AnnotatedIPv6 := ex_global\<rparr>"
    and peers: "\<forall>peer items c. peer \<noteq> ''n1'' \<and> n' \<in> set items \<and> c \<in> set (rn_PodCIDRs (fromNode (hd ex_items))) \<and> Is6 (Prefix_Addr c) \<longrightarrow>
      \<lparr>rt_Node = ''n1'', rt_Dst = Masked c, rt_Via = ex_global\<rparr> \<in> set (fst (Compute peer (map fromNode items)))"
    using annotation_roundtrip [OF st refl ex_published n(2) ips(1,2) gl g] unfolding n(1) by blast
  have "Masked ?c = ?c" by (simp add: Masked_def PrefixFrom_def Prefix_IsValid_def)
  then have "\<lparr>rt_Node = ''n1'', rt_Dst = ?c, rt_Via = ex_global\<rparr> \<in> set (fst (Compute ''n2'' (map fromNode [n'])))"
    using peers [rule_format, of "''n2''" "[n']" ?c] ips(3) by simp
  with n' show ?thesis by blast
qed

end
