(* ===== verification/Sysctl.thy ===== *)
theory Sysctl
  imports Go_Files
begin

text \<open>
  \<open>internal/sysctl/sysctl.go\<close>: checking the bridge settings the data plane needs, which are the
  node's to provide, and turning on IP forwarding, which is the daemon's.
\<close>

section \<open>Model\<close>

definition ProcSys :: string where "ProcSys = ''/proc/sys''"

definition bridgeSettings :: "string list" where
  "bridgeSettings = [''net.bridge.bridge-nf-call-iptables'', ''net.bridge.bridge-nf-call-ip6tables'']"

definition forwardingSettings :: "string list" where
  "forwardingSettings = [''net.ipv4.ip_forward'', ''net.ipv6.conf.all.forwarding'']"

definition setting_path :: "string \<Rightarrow> string \<Rightarrow> string" where
  "setting_path root name = path_Join root (map (\<lambda>c. if c = CHR ''.'' then CHR ''/'' else c) name)"

text \<open>\<open>os.ReadFile\<close> reads nothing where it fails to open the file.\<close>

definition read_setting :: "'w file_ops \<Rightarrow> string \<Rightarrow> string \<Rightarrow> 'w \<Rightarrow> file_error + string" where
  "read_setting fs root name w =
     (case fs_ReadFile fs (setting_path root name) w of Inl e \<Rightarrow> Inl e | Inr raw \<Rightarrow> Inr (TrimSpace raw))"

definition check_setting :: "'w file_ops \<Rightarrow> string \<Rightarrow> 'w \<Rightarrow> string \<Rightarrow> go_error option" where
  "check_setting fs root w name =
     (case read_setting fs root name w of
        Inl e \<Rightarrow>
          if fe_NotExist e
          then Some (name @ '' is absent (is the br_netfilter module loaded?), must be 1'')
          else Some (name @ '': '' @ fe_text e @ '', must be 1'')
      | Inr value \<Rightarrow> if value \<noteq> ''1'' then Some (name @ '' is '' @ value @ '', must be 1'') else None)"

definition Check :: "'w file_ops \<Rightarrow> string \<Rightarrow> 'w \<Rightarrow> go_error option" where
  "Check fs root w = errors_Join (map (check_setting fs root w) bridgeSettings)"

fun ensure_settings ::
  "'w file_ops \<Rightarrow> string \<Rightarrow> string list \<Rightarrow> 'w \<Rightarrow> string list \<times> go_error option \<times> 'w" where
  "ensure_settings fs root [] w = ([], None, w)"
| "ensure_settings fs root (name # names) w =
     (case read_setting fs root name w of
        Inl e \<Rightarrow> ([], Some (name @ '': '' @ fe_text e), w)
      | Inr value \<Rightarrow>
          if value = ''1'' then ensure_settings fs root names w
          else
           (case fs_WriteFile fs (setting_path root name) (''1'' @ NL) w of
              (Some e, w1) \<Rightarrow> ([], Some (name @ '' is '' @ value @ '' and could not be set to 1: '' @ e), w1)
            | (None, w1) \<Rightarrow>
                (let (changed, err, w2) = ensure_settings fs root names w1 in (name # changed, err, w2))))"

definition EnsureForwarding :: "'w file_ops \<Rightarrow> string \<Rightarrow> 'w \<Rightarrow> string list \<times> go_error option \<times> 'w" where
  "EnsureForwarding fs root w = ensure_settings fs root forwardingSettings w"

section \<open>Lemmas\<close>

text \<open>What a setting is, as the program reads it.\<close>

definition is_on :: "('w \<Rightarrow> string \<Rightarrow> string option) \<Rightarrow> string \<Rightarrow> 'w \<Rightarrow> string \<Rightarrow> bool" where
  "is_on content root w name \<longleftrightarrow> map_option TrimSpace (content w (setting_path root name)) = Some ''1''"

text \<open>The two files of the forwarding settings are two files, whatever the root.\<close>

lemma Clean_under:
  assumes "list_all (\<lambda>e. e \<noteq> [] \<and> e \<noteq> ''.'' \<and> e \<noteq> ''..'' \<and> CHR ''/'' \<notin> set e) fs" "fs \<noteq> []"
  shows "\<exists>pre. split_on CHR ''/'' (Clean (root @ ''/'' @ join ''/'' fs)) = pre @ fs"
proof -
  let ?p = "root @ ''/'' @ join ''/'' fs" and ?r = "HasPrefix (root @ ''/'' @ join ''/'' fs) ''/''"
  have fs: "list_all (\<lambda>e. e \<noteq> [] \<and> e \<noteq> ''.'' \<and> e \<noteq> ''..'') fs" "\<And>x. x \<in> set fs \<Longrightarrow> CHR ''/'' \<notin> set x"
    using assms(1) by (auto simp: list_all_iff)
  have sp: "split_on CHR ''/'' ?p = split_on CHR ''/'' root @ fs"
    using split_on_join [OF assms(2), of "CHR ''/''"] fs(2) by (simp add: split_on_append)
  obtain pre where "clean_elems ?r [] (split_on CHR ''/'' root @ fs) = clean_elems ?r pre fs"
    using clean_elems_acc by blast
  then have c: "clean_elems ?r [] (split_on CHR ''/'' ?p) = rev pre @ fs"
    using clean_elems_plain [OF fs(1)] sp by simp
  have "CHR ''/'' \<notin> set x" if "x \<in> set (rev pre @ fs)" for x
    using that clean_elems_slash [of x ?r "[]" "split_on CHR ''/'' ?p"] split_on_set [of x "CHR ''/''" ?p]
    unfolding c by simp
  then have sp': "split_on CHR ''/'' (join ''/'' (rev pre @ fs)) = rev pre @ fs"
    using assms(2) by (intro split_on_join) auto
  have "join ''/'' (rev pre @ fs) \<noteq> []"
  proof
    assume "join ''/'' (rev pre @ fs) = []"
    then have "rev pre @ fs = [[]]" using sp' by simp
    then show False using assms by (auto simp: append_eq_Cons_conv)
  qed
  then have "Clean ?p = (if ?r then [CHR ''/''] else []) @ join ''/'' (rev pre @ fs)"
    unfolding Clean_def Let_def c by simp
  then show ?thesis using sp' by auto
qed

lemma forwarding_paths: "setting_path root ''net.ipv4.ip_forward'' \<noteq> setting_path root ''net.ipv6.conf.all.forwarding''"
proof (cases "root = []")
  case True
  then show ?thesis
    by (simp add: setting_path_def path_Join_def Clean_def HasPrefix_def Let_def)
next
  case False
  obtain pre pre' where
    "split_on CHR ''/'' (setting_path root ''net.ipv4.ip_forward'') = pre @ [''net'', ''ipv4'', ''ip_forward'']"
    "split_on CHR ''/'' (setting_path root ''net.ipv6.conf.all.forwarding'') = pre' @ [''net'', ''ipv6'', ''conf'', ''all'', ''forwarding'']"
    using Clean_under [of "[''net'', ''ipv4'', ''ip_forward'']" root]
      Clean_under [of "[''net'', ''ipv6'', ''conf'', ''all'', ''forwarding'']" root] False
    by (auto simp: setting_path_def path_Join_def)
  then have "last (split_on CHR ''/'' (setting_path root ''net.ipv4.ip_forward'')) \<noteq>
      last (split_on CHR ''/'' (setting_path root ''net.ipv6.conf.all.forwarding''))" by simp
  then show ?thesis by metis
qed

context file_system
begin

lemma read_setting_on: "(read_setting fs root name w = Inr v) \<longleftrightarrow> map_option TrimSpace (content w (setting_path root name)) = Some v"
  by (cases "fs_ReadFile fs (setting_path root name) w") (auto simp: read_setting_def simp flip: read_ok)

lemma check_setting_on: "check_setting fs root w name = None \<longleftrightarrow> is_on content root w name"
  unfolding is_on_def read_setting_on [symmetric] check_setting_def by (auto split: sum.splits)

lemma ensure_settings_outcome:
  assumes "ensure_settings fs root names w = (changed, err, w')" "distinct (map (setting_path root) names)"
  shows "(err = None \<longrightarrow> changed = filter (\<lambda>n. \<not> is_on content root w n) names) \<and>
    list_all (\<lambda>n. is_on content root w' n) (if err = None then names else changed) \<and>
    set changed \<subseteq> {n \<in> set names. \<not> is_on content root w n} \<and>
    (\<forall>e. err = Some e \<longrightarrow> list_ex (\<lambda>n. HasPrefix e n \<and> n \<notin> set changed) names) \<and>
    (\<forall>p. p \<notin> setting_path root ` {n \<in> set names. \<not> is_on content root w n} \<longrightarrow> content w' p = content w p)"
  using assms
proof (induction names arbitrary: w changed)
  case (Cons n ns)
  let ?p = "setting_path root n"
  have ne: "setting_path root m \<noteq> ?p" if "m \<in> set ns" for m using that Cons.prems(2) by (metis distinct.simps(2) image_eqI list.simps(9) list.set_map)
  have distinct_ns: "distinct (map (setting_path root) ns)" using Cons.prems(2) by simp
  have other: "is_on content root w1 m = is_on content root w m"
    if "m \<in> set ns" "\<forall>p. p \<noteq> ?p \<longrightarrow> content w1 p = content w p" for m w1
    using that ne [OF that(1)] by (simp add: is_on_def)
  show ?case
  proof (cases "read_setting fs root n w")
    case (Inl e)
    then have "\<not> is_on content root w n" using read_setting_on [of root n w "''1''"] by (simp add: is_on_def)
    then show ?thesis using Cons.prems(1) Inl by auto
  next
    case (Inr v)
    have on: "is_on content root w n \<longleftrightarrow> v = ''1''" using Inr by (auto simp: is_on_def read_setting_on)
    show ?thesis
    proof (cases "v = ''1''")
      case True
      then have "ensure_settings fs root ns w = (changed, err, w')" using Cons.prems(1) Inr by simp
      note IH = Cons.IH [OF this]
      have "content w' ?p = content w ?p" using IH Cons.prems(2) ne by auto
      then have "is_on content root w' n" using on True by (simp add: is_on_def)
      then show ?thesis using IH Cons.prems(2) True on by auto
    next
      case False
      obtain res w1 where wr: "fs_WriteFile fs ?p (''1'' @ NL) w = (res, w1)" by (cases "fs_WriteFile fs ?p (''1'' @ NL) w")
      show ?thesis
      proof (cases res)
        case (Some e)
        then show ?thesis using Cons.prems(1) Inr False wr write_file_err [of ?p _ w e w1] on by auto
      next
        case None
        have w1: "content w1 = (content w)(?p \<mapsto> ''1'' @ NL)" using write_file_ok wr None by blast
        obtain ch where rest: "ensure_settings fs root ns w1 = (ch, err, w')" and ch: "changed = n # ch"
          using Cons.prems(1) Inr False wr None by (auto split: prod.splits)
        have on1: "\<forall>m \<in> set ns. is_on content root w1 m = is_on content root w m" by (intro ballI other) (simp_all add: w1)
        note IH = Cons.IH [OF rest]
        have "content w' ?p = content w1 ?p" using IH Cons.prems(2) ne by auto
        then have "is_on content root w' n" using w1 by (simp add: is_on_def NL_def TrimSpace_def is_space_def)
        moreover have eq: "{m \<in> set ns. \<not> is_on content root w1 m} = {m \<in> set ns. \<not> is_on content root w m}"
          "filter (\<lambda>m. \<not> is_on content root w1 m) ns = filter (\<lambda>m. \<not> is_on content root w m) ns"
          using on1 by (auto cong: filter_cong)
        moreover have "n \<notin> set ns" using ne by blast
        moreover have "{m \<in> set (n # ns). \<not> is_on content root w m} = insert n {m \<in> set ns. \<not> is_on content root w m}"
          using on False by auto
        ultimately have facts: "is_on content root w' n" "n \<notin> set ns"
          "{m \<in> set (n # ns). \<not> is_on content root w m} = insert n {m \<in> set ns. \<not> is_on content root w m}" by simp_all
        note IH' = IH [OF distinct_ns, unfolded eq]
        have chg: "err = None \<longrightarrow> ch = filter (\<lambda>m. \<not> is_on content root w m) ns" using IH' by simp
        have sub: "set ch \<subseteq> {m \<in> set ns. \<not> is_on content root w m}" using IH' by simp
        have err: "\<forall>e. err = Some e \<longrightarrow> list_ex (\<lambda>m. HasPrefix e m \<and> m \<notin> set ch) ns" using IH' by simp
        have frame: "\<forall>p. p \<notin> setting_path root ` {m \<in> set ns. \<not> is_on content root w m} \<longrightarrow> content w' p = content w1 p"
          using IH' by simp
        show ?thesis unfolding ch facts(3)
        proof (intro conjI)
          show "err = None \<longrightarrow> n # ch = filter (\<lambda>m. \<not> is_on content root w m) (n # ns)" using chg on False by simp
          show "list_all (is_on content root w') (if err = None then n # ns else n # ch)" using IH' facts(1) by (cases err) auto
          show "set (n # ch) \<subseteq> insert n {m \<in> set ns. \<not> is_on content root w m}" using sub by auto
          show "\<forall>e. err = Some e \<longrightarrow> list_ex (\<lambda>m. HasPrefix e m \<and> m \<notin> set (n # ch)) (n # ns)"
            using err facts(2) by (auto simp: list_ex_iff)
          show "\<forall>p. p \<notin> setting_path root ` insert n {m \<in> set ns. \<not> is_on content root w m} \<longrightarrow> content w' p = content w p"
            using frame w1 by simp
        qed
      qed
    qed
  qed
qed simp

lemma Check_on: "Check fs root w = None \<longleftrightarrow> list_all (is_on content root w) bridgeSettings"
  by (simp add: Check_def bridgeSettings_def check_setting_on)

lemma EnsureForwarding_on:
  assumes "EnsureForwarding fs root w = (changed, err, w')"
  shows "(err = None \<longrightarrow> changed = filter (\<lambda>n. \<not> is_on content root w n) forwardingSettings) \<and>
    list_all (is_on content root w') (if err = None then forwardingSettings else changed) \<and>
    set changed \<subseteq> {n \<in> set forwardingSettings. \<not> is_on content root w n} \<and>
    (\<forall>e. err = Some e \<longrightarrow> list_ex (\<lambda>n. HasPrefix e n \<and> n \<notin> set changed) forwardingSettings) \<and>
    (\<forall>p. p \<notin> setting_path root ` {n \<in> set forwardingSettings. \<not> is_on content root w n} \<longrightarrow> content w' p = content w p)"
  using assms forwarding_paths unfolding EnsureForwarding_def
  by (intro ensure_settings_outcome) (simp_all add: forwardingSettings_def)

end

section \<open>Properties\<close>

text \<open>
  C38: \<open>EnsureForwarding\<close> reports exactly the settings it turned on. Where it returns no
  error both read 1 afterwards; where it does, the error starts with the name of a setting
  that is not among those reported, and those reported read 1. No file is changed but those
  of settings that did not read 1.
\<close>

theorem EnsureForwarding_outcome:
  assumes "file_system fs content" and "EnsureForwarding fs root w = (changed, err, w')"
  shows "(err = None \<longrightarrow> changed = filter (\<lambda>n. \<not> is_on content root w n) forwardingSettings) \<and>
    list_all (is_on content root w') (if err = None then forwardingSettings else changed) \<and>
    set changed \<subseteq> {n \<in> set forwardingSettings. \<not> is_on content root w n} \<and>
    (\<forall>e. err = Some e \<longrightarrow> list_ex (\<lambda>n. HasPrefix e n \<and> n \<notin> set changed) forwardingSettings) \<and>
    (\<forall>p. p \<notin> setting_path root ` {n \<in> set forwardingSettings. \<not> is_on content root w n} \<longrightarrow> content w' p = content w p)"
  by (rule file_system.EnsureForwarding_on [OF assms])

definition ex_settings :: "(string \<times> string) list" where
  "ex_settings =
     [(''/proc/sys/net/bridge/bridge-nf-call-iptables'', ''1'' @ NL),
      (''/proc/sys/net/ipv4/ip_forward'', ''1'' @ NL), (''/proc/sys/net/ipv6/conf/all/forwarding'', ''0'' @ NL)]"

lemmas ex_settings_eval =
  ex_settings_def setting_path_def path_Join_def Clean_def HasPrefix_def Let_def ProcSys_def bridgeSettings_def
  forwardingSettings_def is_on_def NL_def TrimSpace_def is_space_def

theorem EnsureForwarding_outcome_witness:
  "\<exists>w'. EnsureForwarding (disk (\<lambda>_. False)) ProcSys ex_settings = ([''net.ipv6.conf.all.forwarding''], None, w') \<and>
     list_all (is_on map_of ProcSys w') forwardingSettings"
proof -
  let ?w = "(setting_path ProcSys ''net.ipv6.conf.all.forwarding'', ''1'' @ NL) # ex_settings"
  have run: "EnsureForwarding (disk (\<lambda>_. False)) ProcSys ex_settings = ([''net.ipv6.conf.all.forwarding''], None, ?w)"
    by (simp add: EnsureForwarding_def read_setting_def disk_def ex_settings_eval)
  show ?thesis using run EnsureForwarding_outcome [OF disk.file_system_axioms run] by simp
qed

end
