(* ===== verification/Daemon.thy ===== *)
theory Daemon
  imports Controller_Routes Sysctl Nft_Apply Nft_Render
begin

text \<open>
  \<open>run\<close> of \<open>cmd/cnidaria/main.go\<close>: what the daemon refuses to start on, in what order, and what it
  starts. The manager of controller-runtime and the configuration it is made from are parameters: each
  call is the error it returns, if any, and \<open>dm_Start\<close> is the manager's run with the two reconcilers
  it was given. The reading of the command line and the environment is the record of flags.
\<close>

section \<open>Model\<close>

record daemon_flags =
  fl_nodeName :: string
  fl_conflist :: string
  fl_mtu :: int
  fl_networkName :: string
  fl_procSys :: string

text \<open>What the ruleset reconciler is made from, besides the manager's client.\<close>

record ruleset_cfg =
  rsc_NodeName :: string
  rsc_SafePorts :: safe_ports
  rsc_Applier :: applier

record ('k, 'l, 'i, 'f, 'a) daemon =
  dm_Host :: "('k, 'l, 'i, 'f, 'a) node_host"
  dm_GetConfig :: "go_error option"
  dm_AddToScheme :: "go_error option list"
  dm_NewManager :: "go_error option"
  dm_AddHealthzCheck :: "go_error option"
  dm_AddReadyzCheck :: "go_error option"
  dm_NewKernel :: "go_error option"
  dm_AddWatch :: "go_error option"
  dm_CompleteRoutes :: "go_error option"
  dm_SetupRuleset :: "go_error option"
  dm_Start :: "('k, 'i, 'f, 'a) routes_env \<Rightarrow> ruleset_cfg \<Rightarrow> ('k, 'i, 'f, 'a) machine \<Rightarrow> go_error option \<times> ('k, 'i, 'f, 'a) machine"

text \<open>\<open>if err := ...; err != nil { return ... }\<close>: the first error of a list of calls, as it is wrapped.\<close>

fun first_error :: "(string \<times> go_error option) list \<Rightarrow> go_error option" where
  "first_error [] = None"
| "first_error ((pre, err) # rest) = (case err of Some e \<Rightarrow> Some (pre @ e) | None \<Rightarrow> first_error rest)"

definition manager_errors :: "('k, 'l, 'i, 'f, 'a) daemon \<Rightarrow> (string \<times> go_error option) list" where
  "manager_errors D =
     [(''kubeconfig: '', dm_GetConfig D)] @ map (\<lambda>e. (''scheme: '', e)) (dm_AddToScheme D) @
     [(''manager: '', dm_NewManager D), ([], dm_AddHealthzCheck D), ([], dm_AddReadyzCheck D)]"

definition Routes_SetupWithManager :: "('k, 'l, 'i, 'f, 'a) daemon \<Rightarrow> go_error option" where
  "Routes_SetupWithManager D = first_error [([], dm_AddWatch D), ([], dm_CompleteRoutes D)]"

definition setup_errors :: "('k, 'l, 'i, 'f, 'a) daemon \<Rightarrow> (string \<times> go_error option) list" where
  "setup_errors D =
     [([], dm_NewKernel D), (''routes reconciler: '', Routes_SetupWithManager D),
      (''ruleset reconciler: '', dm_SetupRuleset D)]"

definition daemon_cfg :: "daemon_flags \<Rightarrow> conflist_cfg" where
  "daemon_cfg fl =
     \<lparr>cc_Path = fl_conflist fl, cc_Name = fl_networkName fl, cc_Bridge = ''cni0'', cc_MTU = fl_mtu fl\<rparr>"

definition daemon_ruleset :: "daemon_flags \<Rightarrow> ruleset_cfg" where
  "daemon_ruleset fl = \<lparr>rsc_NodeName = fl_nodeName fl, rsc_SafePorts = DefaultSafePorts, rsc_Applier = NewApplier\<rparr>"

definition daemon_run ::
  "('k, 'l, 'i, 'f, 'a) daemon \<Rightarrow> daemon_flags \<Rightarrow> ('k, 'i, 'f, 'a) machine \<Rightarrow> go_error option \<times> ('k, 'i, 'f, 'a) machine" where
  "daemon_run D fl m =
     (let fs = nh_Files (dm_Host D); root = fl_procSys fl
      in if fl_nodeName fl = [] then (Some ''--node-name or NODE_NAME is required'', m)
         else
          (case Check fs root (m_files m) of
             Some e \<Rightarrow> (Some (''kernel settings the data plane needs are not in place:'' @ NL @ e), m)
           | None \<Rightarrow>
              (let (changed, err, f1) = EnsureForwarding fs root (m_files m);
                   m1 = m\<lparr>m_files := f1\<rparr>
               in case err of
                    Some e \<Rightarrow> (Some (''could not turn on forwarding:'' @ NL @ e), m1)
                  | None \<Rightarrow>
                     (case first_error (manager_errors D) of
                        Some e \<Rightarrow> (Some e, m1)
                      | None \<Rightarrow>
                         (case Detect (nh_Run (dm_Host D)) (m_ipt m1) of
                            (Inl e, i1) \<Rightarrow> (Some e, m1\<lparr>m_ipt := i1\<rparr>)
                          | (Inr forward, i1) \<Rightarrow>
                             (let m2 = m1\<lparr>m_ipt := i1\<rparr>
                              in case first_error (setup_errors D) of
                                   Some e \<Rightarrow> (Some e, m2)
                                 | None \<Rightarrow>
                                     dm_Start D (node_env (dm_Host D) forward (fl_nodeName fl) (daemon_cfg fl))
                                       (daemon_ruleset fl) m2))))))"

section \<open>Lemmas\<close>

lemma first_error_None: "first_error xs = None \<longleftrightarrow> list_all (\<lambda>x. snd x = None) xs"
  by (induction xs rule: first_error.induct) (auto split: option.splits)

definition wired :: "('k, 'l, 'i, 'f, 'a) daemon \<Rightarrow> bool" where
  "wired D \<longleftrightarrow> dm_GetConfig D = None \<and> list_all (\<lambda>e. e = None) (dm_AddToScheme D) \<and> dm_NewManager D = None \<and>
     dm_AddHealthzCheck D = None \<and> dm_AddReadyzCheck D = None \<and> dm_NewKernel D = None \<and> dm_AddWatch D = None \<and>
     dm_CompleteRoutes D = None \<and> dm_SetupRuleset D = None"

lemma wired_errors: "wired D \<longleftrightarrow> first_error (manager_errors D) = None \<and> first_error (setup_errors D) = None"
  by (auto simp: wired_def first_error_None manager_errors_def setup_errors_def Routes_SetupWithManager_def list.pred_map comp_def
      split: option.splits)

lemma Detect_saves:
  assumes "\<forall>name. run [] name [] w = (out name, w)"
  shows "snd (Detect run w) = w" "isl (fst (Detect run w)) \<longleftrightarrow>
    (\<exists>prog \<in> {''iptables'', ''ip6tables''}. is_missing (out (prog @ ''-nft-save'')) \<and> is_missing (out (prog @ ''-legacy-save'')))"
  by (auto simp: Detect_def probe_saves [of run w out, OF assms])

section \<open>Properties\<close>

text \<open>
  C12: the daemon starts only on a node that can carry its data plane. It hands the manager
  its two reconcilers exactly where it knows its node's name, both bridge settings read 1, forwarding is on
  or could be turned on, both families have an iptables backend and nothing of the wiring failed; then
  both forwarding settings read 1 at the start. Otherwise it returns an error. Up to there it
  has changed nothing but forwarding settings that did not read 1.
\<close>

theorem daemon_run_refuses:
  assumes "file_system (nh_Files (dm_Host D)) content" and "\<forall>name. nh_Run (dm_Host D) [] name [] (m_ipt m) = (out name, m_ipt m)"
  shows "\<exists>f1. (\<forall>p. p \<notin> setting_path (fl_procSys fl) ` {n \<in> set forwardingSettings. \<not> is_on content (fl_procSys fl) (m_files m) n} \<longrightarrow>
        content f1 p = content (m_files m) p) \<and>
    (if fl_nodeName fl \<noteq> [] \<and> list_all (is_on content (fl_procSys fl) (m_files m)) bridgeSettings \<and>
        fst (snd (EnsureForwarding (nh_Files (dm_Host D)) (fl_procSys fl) (m_files m))) = None \<and> wired D \<and>
        (\<forall>prog \<in> {''iptables'', ''ip6tables''}. \<not> (is_missing (out (prog @ ''-nft-save'')) \<and> is_missing (out (prog @ ''-legacy-save''))))
     then list_all (is_on content (fl_procSys fl) f1) forwardingSettings \<and>
       (\<exists>forward. fst (Detect (nh_Run (dm_Host D)) (m_ipt m)) = Inr forward \<and>
          daemon_run D fl m = dm_Start D (node_env (dm_Host D) forward (fl_nodeName fl) (daemon_cfg fl)) (daemon_ruleset fl) (m\<lparr>m_files := f1\<rparr>))
     else \<exists>e. daemon_run D fl m = (Some e, m\<lparr>m_files := f1\<rparr>))"
proof -
  let ?root = "fl_procSys fl" and ?fs = "nh_Files (dm_Host D)" and ?ipt = "Detect (nh_Run (dm_Host D)) (m_ipt m)"
  note chk = file_system.Check_on [OF assms(1), of ?root "m_files m"]
  obtain changed err f1 where e: "EnsureForwarding ?fs ?root (m_files m) = (changed, err, f1)" by (metis surj_pair)
  note F = file_system.EnsureForwarding_on [OF assms(1) e]
  note det = Detect_saves [of "nh_Run (dm_Host D)" "m_ipt m" out, OF assms(2)]
  have same: "m\<lparr>m_files := m_files m\<rparr> = m" by simp
  show ?thesis
  proof (cases "fl_nodeName fl \<noteq> [] \<and> Check ?fs ?root (m_files m) = None")
    case False
    then show ?thesis
      using chk by (intro exI [of _ "m_files m"]) (auto simp: daemon_run_def Let_def split: option.splits)
  next
    case True
    obtain r where r: "?ipt = (r, m_ipt m)" using det(1) by (metis prod.collapse)
    have m: "m\<lparr>m_files := f1, m_ipt := m_ipt m\<rparr> = m\<lparr>m_files := f1\<rparr>" by (cases m) simp
    have run: "daemon_run D fl m =
        (case err of Some e \<Rightarrow> (Some (''could not turn on forwarding:'' @ NL @ e), m\<lparr>m_files := f1\<rparr>)
         | None \<Rightarrow> (case first_error (manager_errors D) of Some e \<Rightarrow> (Some e, m\<lparr>m_files := f1\<rparr>)
         | None \<Rightarrow> (case r of Inl e \<Rightarrow> (Some e, m\<lparr>m_files := f1\<rparr>)
         | Inr forward \<Rightarrow> (case first_error (setup_errors D) of Some e \<Rightarrow> (Some e, m\<lparr>m_files := f1\<rparr>)
         | None \<Rightarrow> dm_Start D (node_env (dm_Host D) forward (fl_nodeName fl) (daemon_cfg fl)) (daemon_ruleset fl) (m\<lparr>m_files := f1\<rparr>)))))"
      using True by (cases err; cases "first_error (manager_errors D)"; cases r; cases "first_error (setup_errors D)"; simp add: daemon_run_def Let_def e r m)
    show ?thesis
      using True F chk det(2) r run
      by (intro exI [of _ f1])
        (cases err; cases "first_error (manager_errors D)"; cases "first_error (setup_errors D)"; cases r; simp add: wired_errors e)
  qed
qed

definition ex_daemon :: "(nl_route list, nat, ipt_state, (string \<times> string) list, k8s_node list) daemon" where
  "ex_daemon =
     \<lparr>dm_Host = ex_node_host, dm_GetConfig = None, dm_AddToScheme = [None, None], dm_NewManager = None,
      dm_AddHealthzCheck = None, dm_AddReadyzCheck = None, dm_NewKernel = None, dm_AddWatch = None,
      dm_CompleteRoutes = None, dm_SetupRuleset = None, dm_Start = (\<lambda>E R m. (None, m))\<rparr>"

definition ex_flags :: daemon_flags where
  "ex_flags = \<lparr>fl_nodeName = ''n1'', fl_conflist = ''/etc/c'', fl_mtu = 0, fl_networkName = ''cnidaria'', fl_procSys = ProcSys\<rparr>"

definition ex_bridged :: "(string \<times> string) list" where
  "ex_bridged = (''/proc/sys/net/bridge/bridge-nf-call-ip6tables'', ''1'' @ NL) # ex_settings"

theorem daemon_run_refuses_witness:
  "(\<exists>f1. daemon_run ex_daemon ex_flags (ex_machine\<lparr>m_files := ex_bridged\<rparr>) = (None, ex_machine\<lparr>m_files := f1\<rparr>) \<and>
      list_all (is_on map_of ProcSys f1) forwardingSettings) \<and>
   (\<exists>e m'. daemon_run ex_daemon ex_flags (ex_machine\<lparr>m_files := ex_settings\<rparr>) = (Some e, m'))"
proof -
  have host: "dm_Host ex_daemon = ex_node_host" "wired ex_daemon" "fl_nodeName ex_flags = ''n1''" "fl_procSys ex_flags = ProcSys"
    "dm_Start ex_daemon = (\<lambda>E R m. (None, m))"
    by (simp_all add: ex_daemon_def wired_def ex_flags_def)
  have saves: "\<forall>name. nh_Run (dm_Host ex_daemon) [] name [] (m_ipt m) = (Inr [], m_ipt m)" for m
    by (simp add: host ex_host_sel host_ipt_def)
  have fs: "file_system (nh_Files (dm_Host ex_daemon)) map_of" unfolding host ex_host_sel by (rule disk.file_system_axioms)
  have on: "list_all (is_on map_of ProcSys ex_bridged) bridgeSettings" "\<not> list_all (is_on map_of ProcSys ex_settings) bridgeSettings"
    by (simp_all add: ex_bridged_def ex_settings_eval)
  have ok: "fst (snd (EnsureForwarding (disk (\<lambda>_. False)) ProcSys ex_bridged)) = None"
    by (simp add: EnsureForwarding_def read_setting_def disk_def ex_bridged_def ex_settings_eval)
  note R = daemon_run_refuses [where D = ex_daemon and out = "\<lambda>_. Inr []" and fl = ex_flags, OF fs saves]
  show ?thesis
    using R [of "ex_machine\<lparr>m_files := ex_bridged\<rparr>"] R [of "ex_machine\<lparr>m_files := ex_settings\<rparr>"]
    by (simp add: host on ok ex_host_sel del: machine.update_convs) blast
qed

end
