(* ===== verification/Reconcile_Loop.thy ===== *)
theory Reconcile_Loop
  imports Routes_Kernel
begin

text \<open>
  What \<open>Routes.SetupWithManager\<close> of \<open>internal/controller/routes.go\<close> sets up: the kernel's events and
  the Node events end in one key of the reconciler's queue, and a lost route in a run of
  \<open>Apply\<close>. The parts run beside each other, so the loop is a step relation: the kernel, the
  watch, the source that empties the channel, and the one worker each take steps in any order.
  The queue of the controller library is a parameter with the contract \<open>work_queue\<close>.
\<close>

section \<open>Model\<close>

text \<open>The queue, for the one key there is.\<close>

record 'q workqueue =
  wq_Add :: "'q \<Rightarrow> 'q"
  wq_Get :: "'q \<Rightarrow> 'q option"
  wq_Done :: "'q \<Rightarrow> 'q"

datatype phase = Idle | Started | Applied bool

text \<open>
  \<open>lp_lost\<close>: a route is gone that no \<open>Apply\<close> has put back. \<open>lp_events\<close>: what the kernel has reported and
  \<open>Watch\<close> has not taken. \<open>lp_chan\<close>: \<open>kernelEvents\<close> holds its one event. \<open>lp_retry\<close>: a run that
  failed is to be tried again. \<open>lp_resync\<close>: one that succeeded asked to be run again.
\<close>

record 'q loop =
  lp_lost :: bool
  lp_events :: "watch_event list"
  lp_chan :: bool
  lp_queue :: 'q
  lp_run :: phase
  lp_retry :: bool
  lp_resync :: bool

text \<open>\<open>changed\<close>: a send that is dropped where the channel is full.\<close>

definition kernelEvents_send :: "bool \<Rightarrow> bool" where
  "kernelEvents_send full = (if full then full else True)"

datatype act =
    ALose watch_event | AReport watch_event | ANode | AResync
  | AWatch | ADeliver | ABegin | AApply bool | AFinish | ARetry

inductive loop_step :: "'q workqueue \<Rightarrow> 'q loop \<Rightarrow> act \<Rightarrow> 'q loop \<Rightarrow> bool" for Q where
  lose: "counts e \<Longrightarrow> loop_step Q s (ALose e) (s\<lparr>lp_lost := True, lp_events := lp_events s @ [e]\<rparr>)"
| report: "\<not> ends e \<Longrightarrow> loop_step Q s (AReport e) (s\<lparr>lp_events := lp_events s @ [e]\<rparr>)"
| node: "loop_step Q s ANode (s\<lparr>lp_queue := wq_Add Q (lp_queue s)\<rparr>)"
| resync: "lp_resync s \<Longrightarrow> loop_step Q s AResync (s\<lparr>lp_resync := False, lp_queue := wq_Add Q (lp_queue s)\<rparr>)"
| watch: "lp_events s = e # es \<Longrightarrow>
    loop_step Q s AWatch (s\<lparr>lp_events := es, lp_chan := if counts e then kernelEvents_send (lp_chan s) else lp_chan s\<rparr>)"
| deliver: "lp_chan s \<Longrightarrow> loop_step Q s ADeliver (s\<lparr>lp_chan := False, lp_queue := wq_Add Q (lp_queue s)\<rparr>)"
| start_run: "lp_run s = Idle \<Longrightarrow> wq_Get Q (lp_queue s) = Some q \<Longrightarrow>
    loop_step Q s ABegin (s\<lparr>lp_queue := q, lp_run := Started\<rparr>)"
| apply_routes: "lp_run s = Started \<Longrightarrow> loop_step Q s (AApply ok) (s\<lparr>lp_run := Applied ok, lp_lost := (lp_lost s \<and> \<not> ok)\<rparr>)"
| finish: "lp_run s = Applied ok \<Longrightarrow>
    loop_step Q s AFinish (s\<lparr>lp_run := Idle, lp_queue := wq_Done Q (lp_queue s),
      lp_retry := (lp_retry s \<or> \<not> ok), lp_resync := (lp_resync s \<or> ok)\<rparr>)"
| retry: "lp_retry s \<Longrightarrow> loop_step Q s ARetry (s\<lparr>lp_retry := False, lp_queue := wq_Add Q (lp_queue s)\<rparr>)"

inductive_cases loop_step_cases: "loop_step Q s a s'"
inductive_simps loop_step_simps:
  "loop_step Q s AWatch s'" "loop_step Q s ADeliver s'" "loop_step Q s ABegin s'" "loop_step Q s (AApply ok) s'"
  "loop_step Q s AFinish s'" "loop_step Q s ARetry s'" "loop_step Q s (ALose e) s'"

inductive loop_runs :: "'q workqueue \<Rightarrow> 'q loop \<Rightarrow> act list \<Rightarrow> 'q loop \<Rightarrow> bool" for Q where
  runs_none: "loop_runs Q s [] s"
| runs_step: "loop_step Q s a s1 \<Longrightarrow> loop_runs Q s1 acts s2 \<Longrightarrow> loop_runs Q s (a # acts) s2"

inductive_simps loop_runs_Nil: "loop_runs Q s [] s'"
inductive_simps loop_runs_Cons: "loop_runs Q s (a # acts) s'"

text \<open>The start: \<open>Watch\<close> has called \<open>changed\<close> once, since a route may be gone already.\<close>

definition loop_start :: "bool \<Rightarrow> 'q \<Rightarrow> 'q loop" where
  "loop_start lost q =
     \<lparr>lp_lost = lost, lp_events = [], lp_chan = kernelEvents_send False, lp_queue = q, lp_run = Idle, lp_retry = False, lp_resync = False\<rparr>"

text \<open>The steps the daemon takes of its own, where the kernel takes the routes.\<close>

fun internal :: "act \<Rightarrow> bool" where
  "internal AWatch = True"
| "internal ADeliver = True"
| "internal ABegin = True"
| "internal (AApply ok) = ok"
| "internal AFinish = True"
| "internal ARetry = True"
| "internal _ = False"

section \<open>The queue's contract\<close>

text \<open>
  A key that is added waits, once, until the worker is given it; it is not given out while it
  is being worked on, and what is added meanwhile waits for the worker to be done.
\<close>

locale work_queue =
  fixes Q :: "'q workqueue" and waiting :: "'q \<Rightarrow> bool" and busy :: "'q \<Rightarrow> bool"
  assumes add: "waiting (wq_Add Q q)" "busy (wq_Add Q q) = busy q"
    and get: "wq_Get Q q = Some q' \<Longrightarrow> \<not> busy q \<and> waiting q \<and> busy q' \<and> \<not> waiting q'"
    and ready: "waiting q \<Longrightarrow> \<not> busy q \<Longrightarrow> wq_Get Q q \<noteq> None"
    and done_ok: "busy q \<Longrightarrow> \<not> busy (wq_Done Q q) \<and> waiting (wq_Done Q q) = waiting q"
begin

definition covered :: "'q loop \<Rightarrow> bool" where
  "covered s \<longleftrightarrow> list_ex counts (lp_events s) \<or> lp_chan s \<or> waiting (lp_queue s) \<or> lp_run s \<in> {Started, Applied False} \<or> lp_retry s"

definition loop_ok :: "'q loop \<Rightarrow> bool" where
  "loop_ok s \<longleftrightarrow> (lp_lost s \<longrightarrow> covered s) \<and> busy (lp_queue s) = (lp_run s \<noteq> Idle)"

lemma loop_ok_step: "loop_step Q s a s' \<Longrightarrow> loop_ok s \<Longrightarrow> loop_ok s'"
  by (induction rule: loop_step.induct)
    (auto simp: loop_ok_def covered_def add kernelEvents_send_def dest: get done_ok)

lemma loop_ok_runs: "loop_runs Q s acts s' \<Longrightarrow> loop_ok s \<Longrightarrow> loop_ok s'"
  by (induction rule: loop_runs.induct) (auto dest: loop_ok_step)

lemma loop_ok_start: "\<not> busy q \<Longrightarrow> loop_ok (loop_start lost q)"
  by (simp add: loop_ok_def covered_def loop_start_def kernelEvents_send_def)

text \<open>How far the loop is from rest.\<close>

definition work_left :: "'q loop \<Rightarrow> nat" where
  "work_left s =
     6 * length (lp_events s) + (if lp_chan s then 5 else 0) + (if lp_retry s then 5 else 0) + (if waiting (lp_queue s) then 4 else 0) +
     (case lp_run s of Idle \<Rightarrow> 0 | Started \<Rightarrow> 3 | Applied ok \<Rightarrow> if ok then 2 else 7)"

lemma work_left_step: "loop_step Q s a s' \<Longrightarrow> internal a \<Longrightarrow> loop_ok s \<Longrightarrow> work_left s' < work_left s"
  by (induction rule: loop_step.induct)
    (auto simp: work_left_def loop_ok_def add kernelEvents_send_def dest: get done_ok)

lemma work_left_runs: "loop_runs Q s acts s' \<Longrightarrow> list_all internal acts \<Longrightarrow> loop_ok s \<Longrightarrow> length acts + work_left s' \<le> work_left s"
proof (induction rule: loop_runs.induct)
  case (runs_step s a s1 acts s2)
  then have "work_left s1 < work_left s" "loop_ok s1" using work_left_step loop_ok_step by auto
  then show ?case using runs_step by simp
qed simp

lemma work_left_bound: "work_left s \<le> 6 * length (lp_events s) + 21"
  by (auto simp: work_left_def split: phase.split)

lemma at_rest:
  assumes "\<And>a s'. internal a \<Longrightarrow> \<not> loop_step Q s a s'" "loop_ok s"
  shows "\<not> lp_lost s"
proof -
  have "lp_events s = []" using assms(1) [of AWatch] by (cases "lp_events s") (auto simp: loop_step_simps)
  moreover have "\<not> lp_chan s" using assms(1) [of ADeliver] by (auto simp: loop_step_simps)
  moreover have "\<not> lp_retry s" using assms(1) [of ARetry] by (auto simp: loop_step_simps)
  moreover have idle: "lp_run s = Idle"
    using assms(1) [of "AApply True"] assms(1) [of AFinish] by (cases "lp_run s") (auto simp: loop_step_simps)
  moreover have "\<not> waiting (lp_queue s)"
    using assms(1) [of ABegin] assms(2) ready [of "lp_queue s"] idle by (auto simp: loop_step_simps loop_ok_def)
  ultimately show ?thesis using assms(2) by (simp add: loop_ok_def covered_def)
qed

end

section \<open>A queue\<close>

text \<open>
  The states of a key: not there, in the queue, being worked on, being worked on and added again.
\<close>

datatype key_state = Absent | Queued | Processing | Processing_dirty

fun key_add :: "key_state \<Rightarrow> key_state" where
  "key_add Absent = Queued"
| "key_add Queued = Queued"
| "key_add Processing = Processing_dirty"
| "key_add Processing_dirty = Processing_dirty"

fun key_done :: "key_state \<Rightarrow> key_state" where
  "key_done Processing = Absent"
| "key_done Processing_dirty = Queued"
| "key_done k = k"

definition one_key :: "key_state workqueue" where
  "one_key = \<lparr>wq_Add = key_add, wq_Get = (\<lambda>k. if k = Queued then Some Processing else None), wq_Done = key_done\<rparr>"

interpretation one_key: work_queue one_key "\<lambda>k. k \<in> {Queued, Processing_dirty}" "\<lambda>k. k \<in> {Processing, Processing_dirty}"
proof
  fix q
  show "wq_Add one_key q \<in> {Queued, Processing_dirty}" "(wq_Add one_key q \<in> {Processing, Processing_dirty}) = (q \<in> {Processing, Processing_dirty})"
    by (cases q; simp add: one_key_def)+
qed (auto simp: one_key_def split: if_splits)

section \<open>Properties\<close>

text \<open>
  C9: the loop comes to rest, and no route is missing when it does. From every state it can get
  into, however kernel events, Node events, failed runs and resyncs came between, the steps the daemon
  takes of its own end after at most six for each event still to be taken and a constant; and
  where none is left, every lost route has been put back since. So one pending event in the
  channel is enough: a loss is never left without an event, a queued key or a run that covers it.
\<close>

theorem loop_settles:
  assumes "work_queue Q waiting busy" and "\<not> busy q" and "loop_runs Q (loop_start lost q) past s"
    and "loop_runs Q s acts s'" and "list_all internal acts"
  shows "length acts \<le> 6 * length (lp_events s) + 21 \<and>
    ((\<forall>a s''. internal a \<longrightarrow> \<not> loop_step Q s' a s'') \<longrightarrow> \<not> lp_lost s')"
proof -
  note ok = work_queue.loop_ok_runs [OF assms(1,3) work_queue.loop_ok_start [OF assms(1,2)]]
  note ok' = work_queue.loop_ok_runs [OF assms(1,4) ok]
  have "length acts \<le> work_queue.work_left waiting s"
    using work_queue.work_left_runs [OF assms(1,4,5) ok] by simp
  also have "\<dots> \<le> 6 * length (lp_events s) + 21" by (rule work_queue.work_left_bound [OF assms(1)])
  finally show ?thesis using work_queue.at_rest [OF assms(1) _ ok'] by blast
qed

text \<open>A route is lost while a run is under way; the events of the loss are taken and the key is worked on again.\<close>

definition ex_loss :: watch_event where
  "ex_loss = RouteEv \<lparr>ru_Type = RTM_DELROUTE, ru_Protocol = Protocol\<rparr>"

lemma ex_True: "(\<exists>ok. P ok \<and> ok) \<longleftrightarrow> P True"
  by (metis (full_types))

theorem loop_settles_witness:
  "\<exists>s s'. loop_runs one_key (loop_start False Absent) [ADeliver, ABegin, AApply True, ALose ex_loss] s \<and> lp_lost s \<and>
     loop_runs one_key s [AWatch, ADeliver, AFinish, ABegin, AApply True, AFinish] s' \<and> \<not> lp_lost s'"
proof -
  let ?s = "\<lparr>lp_lost = True, lp_events = [ex_loss], lp_chan = False, lp_queue = Processing, lp_run = Applied True, lp_retry = False,
    lp_resync = False\<rparr>"
  let ?s' = "\<lparr>lp_lost = False, lp_events = [], lp_chan = False, lp_queue = Absent, lp_run = Idle, lp_retry = False, lp_resync = True\<rparr>"
  have c: "counts ex_loss" by (simp add: ex_loss_def reapplyAfterRoute_def)
  have past: "loop_runs one_key (loop_start False Absent) [ADeliver, ABegin, AApply True, ALose ex_loss] ?s"
    by (simp add: loop_runs_Cons loop_runs_Nil loop_step_simps loop_start_def one_key_def kernelEvents_send_def c)
  have acts: "loop_runs one_key ?s [AWatch, ADeliver, AFinish, ABegin, AApply True, AFinish] ?s'"
    by (simp add: loop_runs_Cons loop_runs_Nil loop_step_simps one_key_def kernelEvents_send_def c ex_True)
  have rest: "\<forall>a s''. internal a \<longrightarrow> \<not> loop_step one_key ?s' a s''"
    by (intro allI impI notI) (erule loop_step_cases; simp add: one_key_def)
  have "\<not> lp_lost ?s'" using loop_settles [OF one_key.work_queue_axioms _ past acts] rest by simp
  moreover have "lp_lost ?s" by simp
  ultimately show ?thesis using past acts by blast
qed

end
