(* ===== verification/Spec2Isabelle.thy ===== *)
theory Spec2Isabelle
  imports Status_Memory Daemon Reconcile_Loop
begin

text \<open>
  A verification of the cnidaria node daemon: a CNI for Kubernetes of which one copy runs on every
  node and looks after that node only. The definitions are translated from the Go sources under
  \<open>internal/\<close> and \<open>cmd/cnidaria/\<close>, function by function and with their names, errors as values of a sum
  type with the messages the code gives, and machine integers where the code has them.

  \<^bold>\<open>The program.\<close> Two reconcilers run under one manager. The ruleset reconciler reads the Nodes,
  Pods, Namespaces, NetworkPolicies and NodeNetworkPolicies, renders one nftables table for the node
  (the skeleton with the safe rules, then \<open>netpol\<close> for pods, then \<open>nodepol\<close> for the node itself),
  hands its text to \<^verbatim>\<open>nft -f -\<close> through an applier that remembers what it put on, and writes what the
  node runs into the policies' status. The route reconciler reads the Nodes, computes a route for
  every pod CIDR of every other node, applies the routes through netlink, keeps an iptables chain that
  accepts pod traffic, writes the node's CNI configuration list and publishes its IPv6 address in an
  annotation the peers read. At the start the daemon checks the kernel settings and picks the
  iptables backends, or refuses to run.

  \<^bold>\<open>The theories and the sources.\<close>
  \<^item> \<open>Cni_Prelude\<close>: the Go string functions, errors as sums, sorting, the state-and-error monad.
    \<open>Netip\<close>, \<open>Netip_Parse\<close>, \<open>Netip_Roundtrip\<close>: addresses and prefixes of \<open>net/netip\<close> as words, their texts, and
    reading the texts. \<open>Sha256\<close>: the hash, whose digits a folded name ends in. \<open>Go_Files\<close>: errors, paths,
    and the calls on a file system with their contract \<open>file_system\<close>.
  \<^item> \<open>Nft_Model\<close>, \<open>Nft_Render\<close>: \<open>internal/nftables\<close> \<open>ruleset.go\<close>, \<open>model.go\<close> and \<open>render.go\<close>: the table as a value,
    its text, the skeleton, the safe rules, the identifiers.
  \<^item> \<open>Nft_Semantics\<close>, \<open>Nft_Reader\<close>: what a table decides about a packet, at a hook by the chains declared
    there with their priorities and policies (\<open>at_hook\<close>), or in one chain (\<open>hook\<close>). The evaluation of a match text
    is a parameter with the contract \<open>nft_matcher\<close>, and the reader of texts in \<open>Nft_Reader\<close> meets it.
  \<^item> \<open>Api_V1alpha1\<close>, \<open>Nodepol\<close>, \<open>Nodepol_Spec\<close>: \<open>internal/nodepol\<close> and the API types; what a
    NodeNetworkPolicy promises and that the rendered chains decide it, on every packet.
  \<^item> \<open>Netpol\<close>, \<open>Netpol_Calculus\<close>, \<open>Netpol_Names\<close>, \<open>Netpol_Errors\<close>, \<open>Netpol_Spec\<close>: \<open>internal/netpol\<close>; the same for
    NetworkPolicy, that the names it gives are distinct, when it refuses a policy, and that the
    result does not depend on the order of what it is given.
  \<^item> \<open>Nft_Apply\<close>: \<open>internal/nftables/apply.go\<close>, with the contract \<open>table_applier\<close> its client relies on.
  \<^item> \<open>Routes\<close>, \<open>Routes_Kernel\<close>: \<open>internal/routes\<close>; the routes a node should have, applying them over
    a kernel with the contract \<open>routing_table\<close>, watching for lost ones, the address to publish.
  \<^item> \<open>Iptables\<close>, \<open>Sysctl\<close>, \<open>Conflist\<close>: \<open>internal/iptables\<close>, \<open>internal/sysctl\<close>, \<open>internal/conflist\<close>.
  \<^item> \<open>Controller_Objects\<close>, \<open>Controller_Ruleset\<close>, \<open>Controller_Routes\<close>, \<open>Reconcile_Loop\<close>: \<open>internal/controller\<close>;
    reading the objects, the two reconcilers, and the route reconciler's events as a step relation.
  \<^item> \<open>Go_Memory\<close>, \<open>Deep_Copy\<close>, \<open>Status_Memory\<close>: memory as a list of arrays, with pointers and slices;
    \<open>zz_generated.deepcopy.go\<close> of \<open>internal/apis/v1alpha1\<close>, each of whose functions meets the contract
    \<open>copier\<close>; and \<open>writeStatus\<close> of the ruleset reconciler on the cache's shared objects.
  \<^item> \<open>Daemon\<close>: \<open>run\<close> of \<open>cmd/cnidaria/main.go\<close>.

  \<^bold>\<open>How it is modelled.\<close> What is not the program's own code is a parameter: nft, netlink, the
  iptables programs, the file system, the API server, the work queue, label selectors, the deep copies of
  the types of \<open>k8s.io\<close>, the clock. What the
  program relies on of each is a locale over those parameters, the lemmas of the clients are proved in it,
  and each locale is interpreted on a host whose calls compute, so that the witnesses run the model. State is
  passed explicitly: the applier and the reconciler are records, the outside is a state \<open>'w\<close> or the
  four states of a \<open>machine\<close>. A loop of the code is a structural recursion or a fold, and \<open>radix\<close> has
  its termination proof; only the walk of a packet through chains has fuel, \<open>jump_stack\<close>, which is the
  kernel's limit of 16 nested jumps; the rendered tables jump two deep. Objects are values, except where
  the code depends on who shares them: there they lie in memory, and a refinement leads back to values.

  \<^bold>\<open>What is shown.\<close> The property of this theory puts the ruleset side together: the table that a
  reconcile renders decides at the forward, input and output hooks exactly what the objects on the
  API server say. Below it: a reconcile leaves the old or the whole new table and its applier is not
  mistaken about which, a table changed behind the daemon's back is put back by the run a success asks for, the
  status is exactly the mode run and writing it leaves the objects of the cache alone, safe traffic cannot be locked out, refused policies are named. On the other
  side: a route reconcile without an error leaves exactly the computed routes among those marked, the
  accepting chains, the conflist and the annotation; whatever fails, foreign routes, foreign rules and the
  old conflist stay; an address published is the address routed through; the event loop comes to rest
  with nothing lost; and the daemon starts only where its settings are in place.

  \<^bold>\<open>Bounds.\<close> Names of objects are taken to fit an nftables name: 208 bytes for the namespace and name
  of a NetworkPolicy with its sets' suffixes and fewer than $10^9$ rules, peers and ports (\<open>np_small\<close>),
  243 bytes for a NodeNetworkPolicy (\<open>short_names\<close>). Longer names are folded by a hash, modelled in full
  but not collision free. CIDRs that write an IPv4 range in IPv6 form are excluded where they meet
  netlink (\<open>routable\<close>), which reads them as IPv4. The main table has one route per destination
  (\<open>routing_table\<close>), since the daemon gives none a metric. A write changes the one file it is made to
  (\<open>file_system\<close>): what the kernel changes elsewhere under \<^verbatim>\<open>/proc/sys\<close> when forwarding is turned on is
  its own doing and outside what is said of the program's writes. Of the event loop the worker, the retry of a
  run that failed and the repeat of one that did not are the controller library's.

  \<^bold>\<open>Not modelled.\<close> The registration of the API types with a scheme; the
  manager of controller-runtime, its cache and its builders, beyond the contract of the work queue; opening
  and closing the netlink handle; the parsing of the command line; what is only logged; and
  the network namespace testbed under \<open>test/netns\<close>.
\<close>

section \<open>From the API server to the hooks\<close>

text \<open>
  What the API server makes sure of in the objects the table is rendered from: a pod's addresses
  carry no zone, the protocols are those there are, namespaces and policies are told apart by
  their names, and names fit the bounds nft's names allow without being folded.
\<close>

definition api_pod :: "'x k8s_pod \<Rightarrow> bool" where
  "api_pod p \<longleftrightarrow> list_all (\<lambda>s. CHR ''%'' \<notin> set s) (kp_PodIPs p) \<and>
     list_all (\<lambda>c. list_all (\<lambda>q. wf_protocol (cp_Protocol q)) (ct_Ports c)) (kp_Containers p @ kp_InitContainers p)"

definition api_policy :: "'sel network_policy \<Rightarrow> bool" where
  "api_policy p \<longleftrightarrow> np_small p \<and>
     list_all (\<lambda>r. list_all (\<lambda>q. wf_protocol (port_Protocol q)) (rule_Ports r)) (pol_Ingress p @ pol_Egress p)"

definition api_valid :: "('sel, 'x) inputs \<Rightarrow> bool" where
  "api_valid I \<longleftrightarrow> list_all api_pod (in_Pods I) \<and> list_all api_policy (in_Policies I) \<and>
     distinct (map kns_Name (in_Namespaces I)) \<and> distinct (map pol_id (in_Policies I)) \<and> short_names (in_NodePolicies I)"

lemma parseIPv6_zone:
  "parseIPv6 s = Inr a \<Longrightarrow> \<exists>v. a = Addr6 v (drop 1 (dropWhile (\<lambda>c. c \<noteq> CHR ''%'') s))"
  by (auto simp: parseIPv6_def bind_err_Inr Let_def split: option.splits if_splits)

lemma ParseAddr_no_zone:
  assumes "ParseAddr s = Inr a" "CHR ''%'' \<notin> set s"
  shows "plain_addr a"
proof -
  have "\<forall>c \<in> set s. c \<noteq> CHR ''%''" using assms(2) by metis
  then have zone: "dropWhile (\<lambda>c. c \<noteq> CHR ''%'') s = []" by (simp only: dropWhile_eq_Nil_conv)
  consider "parseIPv4 s = Inr a" | "parseIPv6 s = Inr a"
    using assms(1) by (auto simp: ParseAddr_def split: option.splits if_splits)
  then show ?thesis
  proof cases
    case 1
    then show ?thesis by (auto simp: parseIPv4_def bind_err_Inr plain_addr_def)
  next
    case 2
    from parseIPv6_zone [OF this, unfolded zone] show ?thesis by (auto simp: plain_addr_def)
  qed
qed

lemma Unmap_plain: "plain_addr a \<Longrightarrow> plain_addr (Unmap a)"
  by (cases a) (auto simp: plain_addr_def)

lemma fromPod_wf: "api_pod p \<Longrightarrow> wf_pod (fromPod p)"
proof -
  assume p: "api_pod p"
  have "plain_addr (Unmap a)" if "a \<in> set (pod_IPs (fromPod p))" for a
    using that p ParseAddr_no_zone Unmap_plain by (fastforce simp: fromPod_def parsed_def api_pod_def list_all_iff isl_def)
  moreover have "wf_protocol (np_PortProtocol q)" if "q \<in> set (pod_Ports (fromPod p))" for q
    using that p by (fastforce simp: fromPod_def containersThatServe_def named_ports_def api_pod_def list_all_iff)
  ultimately show ?thesis by (auto simp: wf_pod_def own_addrs_def list_all_iff)
qed

lemma list_all2_right: "list_all2 Q xs ys \<Longrightarrow> (\<And>x y. Q x y \<Longrightarrow> P y) \<Longrightarrow> list_all P ys"
  by (induction rule: list_all2_induct) auto

lemma block_reads_wf: "block_reads b q \<Longrightarrow> wf_cidr (blk_CIDR q) \<and> list_all wf_cidr (blk_Except q)"
proof -
  have good: "wf_cidr (Masked c)" if "ParsePrefix s = Inr c" for s c
    using ParsePrefix_wf [OF that] Masked_idem [of c] by (auto simp: wf_cidr_def)
  assume "block_reads b q"
  then show ?thesis
    using good list_all2_right [of "\<lambda>s e. ParsePrefix s = Inr e" "ipb_Except b" _ "\<lambda>e. wf_cidr (Masked e)"]
    by (auto simp: block_reads_def list.pred_map comp_def)
qed

lemma peer_reads_wf: "peer_reads x y \<Longrightarrow> wf_peer y"
  using block_reads_wf by (cases "kpe_IPBlock x"; cases "peer_IPBlock y") (auto simp: peer_reads_def wf_peer_def)

lemma rule_reads_wf: "rule_reads r s \<Longrightarrow> list_all wf_peer (rule_Peers s)"
  by (auto simp: rule_reads_def intro: list_all2_right peer_reads_wf)

lemma fromNetworkPolicy_wf:
  assumes "fromNetworkPolicy p = Inr q" "api_policy q"
  shows "wf_policy q"
proof -
  have "policy_reads p q" using fromNetworkPolicy_reads assms(1) unfolding reads_as_def by blast
  then have "list_all2 rule_reads (kpol_Ingress p) (pol_Ingress q)" "list_all2 rule_reads (kpol_Egress p) (pol_Egress q)"
    by (simp_all add: policy_reads_def)
  then have "list_all (\<lambda>s. list_all wf_peer (rule_Peers s)) (pol_Ingress q)" "list_all (\<lambda>s. list_all wf_peer (rule_Peers s)) (pol_Egress q)"
    by (auto elim!: list_all2_right rule_reads_wf)
  then show ?thesis using assms(2) by (auto simp: wf_policy_def wf_rule_def api_policy_def list_all_iff)
qed

lemma read_nodes_wf:
  "list_all wf_prefix (fst (read_nodes n nodes)) \<and> list_all wf_prefix (fst (snd (read_nodes n nodes)))"
proof -
  have cidrs: "list_all wf_prefix (rn_PodCIDRs (fromNode k))" for k
    using ParsePrefix_wf(1) by (fastforce simp: fromNode_def parsed_def list_all_iff isl_def)
  show ?thesis
    unfolding read_nodes_def
    by (rule fold_invariant [where Q = "\<lambda>_. True" and P = "\<lambda>x. list_all wf_prefix (fst x) \<and> list_all wf_prefix (fst (snd x))"])
      (use cidrs in \<open>auto simp: Let_def\<close>)
qed

lemma inputs_wf:
  assumes "inputs_read c w I" "api_valid I"
  shows "wf_np_params (inputs_np n I)" "list_all np_small (np_Policies (inputs_np n I))"
    "distinct (map pol_id (np_Policies (inputs_np n I)))" "wf_params (inputs_params n safe I)"
proof -
  obtain ps where "list_all2 (\<lambda>p q. fromNetworkPolicy p = Inr q) ps (in_Policies I)"
    using assms(1) by (auto simp: inputs_read_def collect_err_Inr)
  then have "list_all (\<lambda>q. api_policy q \<longrightarrow> wf_policy q) (in_Policies I)"
    by (rule list_all2_right) (simp add: fromNetworkPolicy_wf)
  then show "wf_np_params (inputs_np n I)"
    using assms(2) fromPod_wf by (auto simp: wf_np_params_def inputs_np_def np_params_of_def api_valid_def list_all_iff comp_def)
  show "list_all np_small (np_Policies (inputs_np n I))" "distinct (map pol_id (np_Policies (inputs_np n I)))"
    using assms(2) by (auto simp: inputs_np_def np_params_of_def api_valid_def api_policy_def list_all_iff)
  show "wf_params (inputs_params n safe I)"
    using read_nodes_wf [of n "in_Nodes I"] by (simp add: wf_params_def inputs_params_def)
qed

section \<open>Properties\<close>

text \<open>
  C1: the table a reconcile puts on the node enforces what the API server holds, at all three hooks
  and for every packet, by the base chains declared there, their priorities and policies: the forward hook accepts exactly what the NetworkPolicies of the source pod
  let out and those of the destination pod let in, replies and neighbour discovery aside; the
  input and output hooks exactly what the safe rules keep open or the NodeNetworkPolicies that select
  the node let pass. The objects are read off the API server and are as it validates them, and \<open>ev\<close>
  is any evaluation of match texts that reads the texts the renderers write as nft does.
\<close>

theorem rendered_table_exact:
  assumes "nft_matcher ev" and "inputs_read (re_Client E) w I" and "api_valid I" and "whole_table E I R modes"
    and "\<forall>ls. re_Everything E ls" and "good_packet p"
  shows "at_hook ev R ''forward'' p =
      (if pkt_facts p established_text \<or> pkt_facts p nd_text \<or>
          np_passes (re_AsSelector E) (inputs_np (re_NodeName E) I) np_egress p \<and>
          np_passes (re_AsSelector E) (inputs_np (re_NodeName E) I) np_ingress p
       then Accepted else Dropped) \<and>
    at_hook ev R ''input'' p =
      (if safe_input (re_SafePorts E) p \<or>
          direction_passes ingress (filter (selected_by (re_AsSelector E) (inputs_node (re_NodeName E) I)) (in_NodePolicies I)) p
       then Accepted else Dropped) \<and>
    at_hook ev R ''output'' p =
      (if safe_output (re_SafePorts E) (fst (snd (read_nodes (re_NodeName E) (in_Nodes I)))) p \<or>
          direction_passes egress (filter (selected_by (re_AsSelector E) (inputs_node (re_NodeName E) I)) (in_NodePolicies I)) p
       then Accepted else Dropped)"
proof -
  let ?me = "re_NodeName E" and ?prm = "inputs_params (re_NodeName E) (re_SafePorts E) I" and ?asel = "re_AsSelector E"
  obtain r0 r1 where r0: "Render ?prm = Inr r0" and r1: "netpol_Add ?asel (re_Everything E) r0 (inputs_np ?me I) = Inr r1"
    and R: "nodepol_Add ?asel r1 (inputs_node ?me I) (in_NodePolicies I) = Inr (R, modes)"
    using assms(4) by (auto simp: whole_table_def)
  have prm: "SafePorts ?prm = re_SafePorts E" "PodCIDRs ?prm = fst (snd (read_nodes ?me (in_Nodes I)))"
    by (simp_all add: inputs_params_def)
  note wf = inputs_wf [OF assms(2,3)]
  note uniq = netpol_Add_unique [OF r0 r1 wf(2,3)]
  note st = nft_matcher.netpol_Add_settled [OF assms(1) r0 r1 wf(1) assms(5) uniq]
  have chains: "Ruleset_Chain r1 ChainInput = Some (inputChain (SafePorts ?prm))" "Ruleset_Chain r1 ChainOutput = Some (outputChain (SafePorts ?prm))"
    using settled_Chain [OF st] Render_Chain [OF r0] by (simp_all add: chain_name_defs)
  note fresh = netpol_Add_fresh [OF r0 st] and valid = Render_Inr(1) [OF r0]
  have names: "short_names (in_NodePolicies I)" using assms(3) by (simp add: api_valid_def)
  have plain: "plain_packet p" using assms(6) by (simp add: good_packet_def)
  have keeps: "Ruleset_Chain R n = Some c" if "Ruleset_Chain r1 n = Some c" "n \<notin> {ChainInput, ChainOutput}" for n c
  proof -
    obtain sel rs1 ms1 where "selects ?asel (inputs_node ?me I) (in_NodePolicies I) = Inr sel"
      "add_direction sel ingress (r1, Map.empty) = Inr (rs1, ms1)" "add_direction sel egress (rs1, ms1) = Inr (R, modes)"
      using R by (rule nodepol_Add_steps)
    then show ?thesis
      using that add_direction_keeps [of sel egress rs1 ms1] add_direction_keeps [of sel ingress r1 Map.empty rs1 ms1]
      by (simp add: direction_chains)
  qed
  have base: "\<forall>n \<in> {ChainEgress, ChainIngress, ChainInput, ChainOutput}. Ruleset_Chain R n \<noteq> None"
    using settled_base_chains [OF r0 st] nodepol_Add_base [OF R] by fastforce
  note hooks = skeleton_hooks [OF r0 trans [OF nodepol_Add_bases [OF R] settled_bases [OF st]] base, of ev p]
  have "forward_hook ev R p =
      (if pkt_facts p established_text \<or> pkt_facts p nd_text \<or>
          np_passes ?asel (inputs_np ?me I) np_egress p \<and> np_passes ?asel (inputs_np ?me I) np_ingress p
       then Accepted else Dropped)"
    by (rule nft_matcher.settled_forward [OF assms(1) r0 st uniq wf(1) assms(6) nodepol_Add_sets [OF R] keeps])
  moreover note nodepol_input_hook [OF assms(1) R chains valid fresh names plain, unfolded prm]
  moreover note nodepol_output_hook [OF assms(1) R chains valid wf(4) settled_node_pods [OF st Render_node_pods [OF r0]] fresh names plain,
      unfolded prm]
  ultimately show ?thesis unfolding hooks by (intro conjI)
qed

lemma ex_api_valid: "api_valid ex_inputs"
  using ex_np_wf(2) ex_wf(3)
  by (simp add: api_valid_def api_pod_def api_policy_def ex_inputs_def ex_np_params_def ex_k8s_pod_def wf_protocol_def)
    (simp add: ex_netpol_def)

theorem rendered_table_exact_witness:
  "\<exists>R modes. whole_table ex_env ex_inputs R modes \<and>
     at_hook read_match R ''forward'' (ex_packet 0xC0000205 0x0A000005 ''tcp'' 8080) = Accepted \<and>
     at_hook read_match R ''forward'' (ex_packet 0xC0000205 0x0A000005 ''tcp'' 22) = Dropped \<and>
     at_hook read_match R ''input'' (ex_packet 0xC0000205 0x0A000001 ''tcp'' 5432) = Accepted \<and>
     at_hook read_match R ''input'' (ex_packet 0xC0000285 0x0A000001 ''tcp'' 5432) = Dropped"
proof -
  obtain R modes where W: "whole_table ex_env ex_inputs R modes" using ex_whole by blast
  have env: "re_NodeName ex_env = ''n1''" "re_AsSelector ex_env = ex_asel" "re_SafePorts ex_env = DefaultSafePorts"
    "\<forall>ls. re_Everything ex_env ls" by (simp_all add: ex_env_def host_env_def)
  have pol: "in_NodePolicies ex_inputs = [ex_policy]" by (simp add: ex_inputs_def)
  note h = rendered_table_exact [OF reader.nft_matcher_axioms ex_inputs_read ex_api_valid W env(4) ex_good,
      unfolded env(1-3) ex_inputs_facts pol ex_selected]
  show ?thesis
    by (intro exI conjI, rule W) (simp_all add: h, simp_all add: ex_np_eval ex_eval)
qed

end
